(* ===== verification/NFP_Prelude.thy ===== *)
theory NFP_Prelude
  imports Main "HOL-Library.Word"
begin

text \<open>
  Shared vocabulary of the development: the C integer types as machine words,
  the kernel error numbers as a datatype, the bit-field macros that
  \<^verbatim>\<open>src/nfpcore/kcompat.h\<close> defines for old kernels (\<open>BIT_ULL\<close>,
  \<open>GENMASK_ULL\<close>, \<open>FIELD_GET\<close>, \<open>FIELD_PREP\<close>, \<open>FIELD_FIT\<close>) and the algebra of
  those macros that every component uses.  The collection \<open>nfp_bits\<close> holds
  bit-level characterisations, the collection \<open>nfp_field\<close> the rewrite rules
  that decode a field from a word assembled with \<open>FIELD_PREP\<close>.
\<close>

unbundle bit_operations_syntax

named_theorems nfp_bits "bit-level characterisations of the word operations"
named_theorems nfp_field "reading fields back from assembled words"

section \<open>Integer types and error numbers\<close>

type_synonym u8 = "8 word"
type_synonym u16 = "16 word"
type_synonym u32 = "32 word"
type_synonym u64 = "64 word"

text \<open>The error numbers the modelled code returns; a C function returning
  \<open>-EINVAL\<close> returns \<open>Inl EINVAL\<close> here.\<close>

datatype errno =
    EPERM | ENOENT | EIO | ENXIO | E2BIG | EAGAIN | ENOMEM | EACCES | EFAULT
  | EBUSY | EEXIST | ENODEV | EINVAL | ENOSPC | ENOBUFS | EOPNOTSUPP
  | ETIMEDOUT | ERESTARTSYS | EMSGSIZE | ERANGE | ENODATA

type_synonym 'a result = "errno + 'a"

abbreviation is_ok :: "'a result \<Rightarrow> bool" where
  "is_ok r \<equiv> \<not> isl r"

lemma is_ok_iff: "is_ok r \<longleftrightarrow> (\<exists>x. r = Inr x)"
  by (cases r) auto

section \<open>Bit masks\<close>

definition BIT_ULL :: "nat \<Rightarrow> u64" where
  "BIT_ULL nr = push_bit nr 1"

definition GENMASK_ULL :: "nat \<Rightarrow> nat \<Rightarrow> u64" where
  "GENMASK_ULL h l = push_bit l (NOT 0) AND drop_bit (64 - h - 1) (NOT 0)"

lemma bit_BIT_ULL [nfp_bits]: "bit (BIT_ULL n) i \<longleftrightarrow> i = n \<and> n < 64"
  by (auto simp: BIT_ULL_def bit_simps)

lemma bit_GENMASK_ULL [nfp_bits]:
  "bit (GENMASK_ULL h l) i \<longleftrightarrow> l \<le> i \<and> i \<le> h \<and> i < 64"
  by (auto simp: GENMASK_ULL_def bit_simps)

lemma word_bit_eqI:
  fixes a b :: "'a::len word"
  assumes "\<And>n. n < LENGTH('a) \<Longrightarrow> bit a n = bit b n"
  shows "a = b"
  by (rule bit_word_eqI) (use assms in auto)

lemma bit_u64_ge: "64 \<le> n \<Longrightarrow> \<not> bit (w :: u64) n"
  using bit_imp_le_length [of w n] by auto

lemma GENMASK_ULL_ne_0: "l \<le> h \<Longrightarrow> h < 64 \<Longrightarrow> GENMASK_ULL h l \<noteq> 0"
  using bit_GENMASK_ULL [of h l l] by auto

section \<open>The lowest set bit\<close>

text \<open>The constant-expression count-trailing-zeros macros of
  \<^verbatim>\<open>kcompat.h\<close>: \<open>c<N> x\<close> is one more than the index of the lowest set bit
  among the low \<open>N\<close> bits of \<open>x\<close>, or zero if there is none.\<close>

definition c1 :: "u64 \<Rightarrow> nat" where
  "c1 x = unat (x AND 1)"

definition c2 :: "u64 \<Rightarrow> nat" where
  "c2 x = of_bool (x AND 0x0003 \<noteq> 0 \<and> c1 x = 0) * (c1 (drop_bit 1 x) + 1) + c1 x"

definition c4 :: "u64 \<Rightarrow> nat" where
  "c4 x = of_bool (x AND 0x000f \<noteq> 0 \<and> c2 x = 0) * (c2 (drop_bit 2 x) + 2) + c2 x"

definition c8 :: "u64 \<Rightarrow> nat" where
  "c8 x = of_bool (x AND 0x00ff \<noteq> 0 \<and> c4 x = 0) * (c4 (drop_bit 4 x) + 4) + c4 x"

definition c16 :: "u64 \<Rightarrow> nat" where
  "c16 x = of_bool (x AND 0xffff \<noteq> 0 \<and> c8 x = 0) * (c8 (drop_bit 8 x) + 8) + c8 x"

definition c32 :: "u64 \<Rightarrow> nat" where
  "c32 x = of_bool (x AND 0xffffffff \<noteq> 0 \<and> c16 x = 0) * (c16 (drop_bit 16 x) + 16) + c16 x"

definition c64_1 :: "u64 \<Rightarrow> nat" where
  "c64_1 x = of_bool (x AND NOT 0 \<noteq> 0 \<and> c32 x = 0) * (c32 (drop_bit 32 x) + 32) + c32 x"

definition c64 :: "u64 \<Rightarrow> nat" where
  "c64 x = c64_1 x - 1"

text \<open>The contract each of the macros meets, and the step from \<open>N\<close> to
  \<open>2 * N\<close> bits that proves them one from the other.\<close>

definition low_bit_spec :: "nat \<Rightarrow> (u64 \<Rightarrow> nat) \<Rightarrow> bool" where
  "low_bit_spec N f \<longleftrightarrow> (\<forall>x.
     (f x = 0 \<longleftrightarrow> take_bit N x = 0) \<and>
     (f x \<noteq> 0 \<longrightarrow> f x \<le> N \<and> bit x (f x - 1) \<and> (\<forall>i < f x - 1. \<not> bit x i)))"

lemma take_bit_0_iff: "take_bit N (x :: u64) = 0 \<longleftrightarrow> (\<forall>i < N. \<not> bit x i)"
proof
  assume "take_bit N x = 0"
  then show "\<forall>i < N. \<not> bit x i"
    by (metis bit_0_eq bit_take_bit_iff bot_apply bot_bool_def)
qed (auto intro!: bit_eqI simp: bit_take_bit_iff)

lemma low_bit_specD:
  assumes "low_bit_spec N f"
  shows "f x = 0 \<Longrightarrow> i < N \<Longrightarrow> \<not> bit x i"
    and "f x \<noteq> 0 \<Longrightarrow> f x \<le> N" and "f x \<noteq> 0 \<Longrightarrow> bit x (f x - 1)"
    and "f x \<noteq> 0 \<Longrightarrow> i < f x - 1 \<Longrightarrow> \<not> bit x i"
  using assms unfolding low_bit_spec_def take_bit_0_iff by blast+

lemma low_bit_specI:
  assumes "\<And>x i. f x = 0 \<Longrightarrow> i < N \<Longrightarrow> \<not> bit x i"
    and "\<And>x. f x \<noteq> 0 \<Longrightarrow> f x \<le> N" and "\<And>x. f x \<noteq> 0 \<Longrightarrow> bit x (f x - 1)"
    and "\<And>x i. f x \<noteq> 0 \<Longrightarrow> i < f x - 1 \<Longrightarrow> \<not> bit x i"
  shows "low_bit_spec N f"
proof -
  have "f x - 1 < N" if "f x \<noteq> 0" for x
    using assms(2) [OF that] that by linarith
  with assms show ?thesis
    unfolding low_bit_spec_def take_bit_0_iff by blast
qed

lemma bit_high_half: "N \<le> i \<Longrightarrow> bit (x :: u64) i \<longleftrightarrow> bit (drop_bit N x) (i - N)"
  by (simp add: bit_simps)

lemma low_bit_spec_double:
  assumes f: "low_bit_spec N f" and m: "\<And>x. x AND m = take_bit (2 * N) x"
  shows "low_bit_spec (2 * N)
    (\<lambda>x. of_bool (x AND m \<noteq> 0 \<and> f x = 0) * (f (drop_bit N x) + N) + f x)"
    (is "low_bit_spec _ ?g")
proof (rule low_bit_specI)
  note D = low_bit_specD [OF f]
  have g_lo: "?g x = f x" if "f x \<noteq> 0" for x
    using that by simp
  have g_hi: "?g x = (if take_bit (2 * N) x = 0 then 0 else f (drop_bit N x) + N)"
    if "f x = 0" for x
    using that by (simp add: m)
  have hi: "f (drop_bit N x) \<noteq> 0" if "f x = 0" "take_bit (2 * N) x \<noteq> 0" for x
  proof
    assume z: "f (drop_bit N x) = 0"
    from that(2) obtain i where i: "i < 2 * N" "bit x i"
      unfolding take_bit_0_iff by blast
    then have "N \<le> i" using D(1) [OF that(1)] not_le by blast
    then have "bit (drop_bit N x) (i - N)" "i - N < N"
      using i bit_high_half [of N i x] by simp_all
    with D(1) [OF z] show False by blast
  qed
  fix x i
  show "\<not> bit x i" if "?g x = 0" "i < 2 * N"
  proof (cases "f x = 0")
    case True
    with that(1) hi [OF True] have "take_bit (2 * N) x = 0"
      unfolding g_hi [OF True] by (auto split: if_splits)
    with that(2) show ?thesis unfolding take_bit_0_iff by blast
  next
    case False
    with that(1) show ?thesis by simp
  qed
  show "?g x \<le> 2 * N" if "?g x \<noteq> 0"
    using D(2) [of x] D(2) [of "drop_bit N x"] g_lo [of x] g_hi [of x] hi [of x]
    by (cases "f x = 0") auto
  show "bit x (?g x - 1)" if "?g x \<noteq> 0"
  proof (cases "f x = 0")
    case True
    with that have nz: "take_bit (2 * N) x \<noteq> 0" unfolding g_hi [OF True] by (simp split: if_splits)
    from hi [OF True nz] D(3) [OF hi [OF True nz]]
    have "bit x (N + (f (drop_bit N x) - 1))" by (simp add: bit_simps)
    moreover have "N + (f (drop_bit N x) - 1) = f (drop_bit N x) + N - 1"
      using hi [OF True nz] by simp
    ultimately show ?thesis unfolding g_hi [OF True] using nz by simp
  next
    case False
    then show ?thesis unfolding g_lo [OF False] by (rule D(3))
  qed
  show "\<not> bit x i" if "?g x \<noteq> 0" "i < ?g x - 1"
  proof (cases "f x = 0")
    case True
    with that(1) have nz: "take_bit (2 * N) x \<noteq> 0" unfolding g_hi [OF True] by (simp split: if_splits)
    with that(2) have i: "i < f (drop_bit N x) + N - 1" unfolding g_hi [OF True] by simp
    show ?thesis
    proof (cases "i < N")
      case lo: True
      with D(1) [OF True] show ?thesis by blast
    next
      case False
      then have "\<not> bit (drop_bit N x) (i - N)"
        using D(4) [OF hi [OF True nz], of "i - N"] i by simp
      with False show ?thesis using bit_high_half [of N i x] by simp
    qed
  next
    case False
    with that show ?thesis unfolding g_lo [OF False] by (intro D(4)) simp_all
  qed
qed

lemma and_low_mask:
  fixes x :: u64
  shows "x AND 0x0003 = take_bit 2 x" "x AND 0x000f = take_bit 4 x"
    "x AND 0x00ff = take_bit 8 x" "x AND 0xffff = take_bit 16 x"
    "x AND 0xffffffff = take_bit 32 x" "x AND 1 = take_bit 1 x"
  by (simp_all add: take_bit_eq_mask mask_eq_exp_minus_1)

lemma low_bit_spec_c1: "low_bit_spec 1 c1"
proof -
  have c1: "c1 x = of_bool (bit x 0)" for x
    by (simp add: c1_def and_one_eq bit_0 flip: of_bool_odd_eq_mod_2)
  show ?thesis
    by (rule low_bit_specI) (auto simp: c1 split: if_splits)
qed

lemma low_bit_spec_c2: "low_bit_spec 2 c2"
  using low_bit_spec_double [OF low_bit_spec_c1, of 3]
  by (simp add: c2_def [abs_def] and_low_mask)

lemma low_bit_spec_c4: "low_bit_spec 4 c4"
  using low_bit_spec_double [OF low_bit_spec_c2, of 15]
  by (simp add: c4_def [abs_def] and_low_mask)

lemma low_bit_spec_c8: "low_bit_spec 8 c8"
  using low_bit_spec_double [OF low_bit_spec_c4, of 255]
  by (simp add: c8_def [abs_def] and_low_mask)

lemma low_bit_spec_c16: "low_bit_spec 16 c16"
  using low_bit_spec_double [OF low_bit_spec_c8, of "0xffff"]
  by (simp add: c16_def [abs_def] and_low_mask)

lemma low_bit_spec_c32: "low_bit_spec 32 c32"
  using low_bit_spec_double [OF low_bit_spec_c16, of "0xffffffff"]
  by (simp add: c32_def [abs_def] and_low_mask)

lemma low_bit_spec_c64_1: "low_bit_spec 64 c64_1"
proof -
  have "x AND NOT 0 = take_bit (2 * 32) x" for x :: u64
    by (simp add: take_bit_word_eq_self)
  from low_bit_spec_double [OF low_bit_spec_c32 this] show ?thesis
    by (simp add: c64_1_def [abs_def])
qed

lemma c64_lowest:
  assumes "x \<noteq> 0"
  shows "bit x (c64 x) \<and> (\<forall>i < c64 x. \<not> bit x i)"
proof -
  from assms have "take_bit 64 x \<noteq> 0" by (simp add: take_bit_word_eq_self)
  moreover have "(c64_1 x = 0 \<longleftrightarrow> take_bit 64 x = 0) \<and>
     (c64_1 x \<noteq> 0 \<longrightarrow> c64_1 x \<le> 64 \<and> bit x (c64_1 x - 1) \<and> (\<forall>i < c64_1 x - 1. \<not> bit x i))"
    using low_bit_spec_c64_1 unfolding low_bit_spec_def by blast
  ultimately show ?thesis
    unfolding c64_def by blast
qed

lemma c64_eqI:
  assumes "bit x l" and "\<And>i. i < l \<Longrightarrow> \<not> bit x i"
  shows "c64 x = l"
proof -
  from assms(1) have "x \<noteq> 0" by auto
  note low = c64_lowest [OF this]
  show ?thesis
  proof (cases "c64 x" l rule: linorder_cases)
    case less with low assms(2) show ?thesis by blast
  next
    case greater with low assms(1) show ?thesis by blast
  qed
qed

lemma c64_GENMASK_ULL: "l \<le> h \<Longrightarrow> h < 64 \<Longrightarrow> c64 (GENMASK_ULL h l) = l"
  by (rule c64_eqI) (auto simp: nfp_bits)

lemma c64_BIT_ULL: "n < 64 \<Longrightarrow> c64 (BIT_ULL n) = n"
  by (rule c64_eqI) (auto simp: nfp_bits)

section \<open>Bit fields\<close>

definition FIELD_GET :: "u64 \<Rightarrow> u64 \<Rightarrow> u64" where
  "FIELD_GET m v = drop_bit (c64 m) (v AND m)"

definition FIELD_PREP :: "u64 \<Rightarrow> u64 \<Rightarrow> u64" where
  "FIELD_PREP m v = push_bit (c64 m) v AND m"

definition FIELD_FIT :: "u64 \<Rightarrow> u64 \<Rightarrow> bool" where
  "FIELD_FIT m v \<longleftrightarrow> push_bit (c64 m) v AND NOT m = 0"

text \<open>A field is a contiguous run of bits; every mask of the driver is one.\<close>

definition field_mask :: "u64 \<Rightarrow> nat \<Rightarrow> nat \<Rightarrow> bool" where
  "field_mask m h l \<longleftrightarrow> l \<le> h \<and> h < 64 \<and> m = GENMASK_ULL h l"

lemma FIELD_GET_mask:
  "field_mask m h l \<Longrightarrow> FIELD_GET m v = take_bit (h + 1 - l) (drop_bit l v)"
  by (rule bit_word_eqI)
    (auto simp: field_mask_def FIELD_GET_def c64_GENMASK_ULL bit_simps nfp_bits)

lemma FIELD_PREP_mask:
  "field_mask m h l \<Longrightarrow> FIELD_PREP m v = push_bit l (take_bit (h + 1 - l) v)"
  by (rule bit_word_eqI)
    (auto simp: field_mask_def FIELD_PREP_def c64_GENMASK_ULL bit_simps nfp_bits)

lemma FIELD_FIT_mask:
  assumes m: "field_mask m h l" and len: "l + LENGTH('a::len) \<le> 64"
  shows "FIELD_FIT m (ucast (v :: 'a word)) \<longleftrightarrow> take_bit (h + 1 - l) v = v"
proof -
  have outside: "bit (push_bit (c64 m) (ucast v) AND NOT m) i \<longleftrightarrow> h < i \<and> l \<le> i \<and> bit v (i - l)"
    for i
    using m len bit_imp_le_length [of v "i - l"]
    by (auto simp: field_mask_def c64_GENMASK_ULL bit_simps nfp_bits)
  have "FIELD_FIT m (ucast v) \<longleftrightarrow> (\<forall>i. \<not> (h < i \<and> l \<le> i \<and> bit v (i - l)))"
    unfolding FIELD_FIT_def using outside
    by (metis bit_0_eq bit_word_eqI bot_apply bot_bool_def)
  also have "\<dots> \<longleftrightarrow> (\<forall>j. bit v j \<longrightarrow> j < h + 1 - l)"
  proof
    assume *: "\<forall>i. \<not> (h < i \<and> l \<le> i \<and> bit v (i - l))"
    show "\<forall>j. bit v j \<longrightarrow> j < h + 1 - l"
    proof (intro allI impI)
      fix j assume "bit v j"
      then show "j < h + 1 - l"
        using *[rule_format, of "j + l"] m by (simp add: field_mask_def)
    qed
  qed auto
  also have "\<dots> \<longleftrightarrow> take_bit (h + 1 - l) v = v"
    by (auto simp: bit_eq_iff bit_simps dest: bit_imp_le_length)
  finally show ?thesis .
qed

lemma FIELD_GET_OR [nfp_field]: "FIELD_GET m (a OR b) = FIELD_GET m a OR FIELD_GET m b"
  by (simp add: FIELD_GET_def bit.conj_disj_distrib2 drop_bit_or)

lemma FIELD_GET_disjoint [nfp_field]:
  assumes "m AND m' = 0"
  shows "FIELD_GET m (FIELD_PREP m' v) = 0"
proof -
  have "(push_bit (c64 m') v AND m') AND m = push_bit (c64 m') v AND (m AND m')"
    by (simp only: and.assoc and.commute [of m' m])
  with assms show ?thesis by (simp add: FIELD_GET_def FIELD_PREP_def)
qed

lemma FIELD_GET_base [nfp_field]: "b AND m = 0 \<Longrightarrow> FIELD_GET m b = 0"
  by (simp add: FIELD_GET_def)

lemma FIELD_GET_PREP:
  "field_mask m h l \<Longrightarrow> FIELD_GET m (FIELD_PREP m v) = take_bit (h + 1 - l) v"
  by (rule bit_word_eqI)
    (auto simp: FIELD_GET_mask FIELD_PREP_mask bit_simps field_mask_def)

lemma FIELD_GET_AND_NOT:
  assumes "m AND m' = 0"
  shows "FIELD_GET m (a AND NOT m') = FIELD_GET m a"
proof -
  have "\<not> (bit m n \<and> bit m' n)" for n
    using assms by (metis bit_and_iff bit_0_eq bot_apply bot_bool_def)
  then have "NOT m' AND m = m"
    by (auto intro!: bit_word_eqI simp: bit_simps)
  then show ?thesis
    by (simp add: FIELD_GET_def and.assoc)
qed

lemma FIELD_GET_cleared:
  assumes "m AND NOT m' = 0"
  shows "FIELD_GET m (a AND NOT m') = 0"
proof -
  have "(a AND NOT m') AND m = a AND (m AND NOT m')"
    by (simp only: and.assoc and.commute [of "NOT m'" m])
  with assms show ?thesis by (simp add: FIELD_GET_def)
qed

lemma bit_FIELD_PREP:
  "field_mask m h l \<Longrightarrow> bit (FIELD_PREP m v) i \<longleftrightarrow> l \<le> i \<and> i \<le> h \<and> bit v (i - l)"
  using FIELD_PREP_mask [of m h l v] by (auto simp: bit_simps field_mask_def)

lemma FIELD_PREP_within: "FIELD_PREP m v AND NOT m = 0"
  by (simp add: FIELD_PREP_def and.assoc)

lemma FIELD_PREP_0 [simp]: "FIELD_PREP m 0 = 0"
  by (simp add: FIELD_PREP_def)

lemma FIELD_GET_0 [simp]: "FIELD_GET m 0 = 0"
  by (simp add: FIELD_GET_def)

lemmas field_mask_eval = field_mask_def GENMASK_ULL_def mask_eq_exp_minus_1

lemma field_mask_example: "field_mask 0x007ffc00000 34 22"
  by (simp add: field_mask_eval)

section \<open>Bit-wise evaluation\<close>

text \<open>Words of a fixed length are compared bit by bit: \<open>word_bits_eval\<close> turns an equation
  into one boolean equation for each position.\<close>

lemma word_less_exp_take: "w < 2 ^ n \<Longrightarrow> take_bit n w = (w :: 'a::len word)"
  by (simp add: take_bit_eq_mask less_mask_eq)

lemma word_less_exp_bit: "w < 2 ^ n \<Longrightarrow> n \<le> i \<Longrightarrow> \<not> bit (w :: 'a::len word) i"
  using bit_take_bit_iff [of n w i] by (simp add: word_less_exp_take)

lemma take_bit_self_iff: "take_bit n w = w \<longleftrightarrow> (\<forall>i \<ge> n. \<not> bit (w :: 'a::len word) i)"
proof
  assume "take_bit n w = w"
  then show "\<forall>i \<ge> n. \<not> bit w i" by (metis bit_take_bit_iff not_le)
next
  assume "\<forall>i \<ge> n. \<not> bit w i"
  then show "take_bit n w = w" by (auto intro!: bit_word_eqI simp: bit_simps not_less[symmetric])
qed

lemma word_less_exp_iff:
  "n < LENGTH('a) \<Longrightarrow> (w :: 'a::len word) < 2 ^ n \<longleftrightarrow> (\<forall>i \<ge> n. \<not> bit w i)"
  using word_less_exp_bit [of w n] take_bit_self_iff [of n w] and_mask_less' [of n w]
  by (auto simp: take_bit_eq_mask)

lemma word_or_less_exp:
  "n < LENGTH('a) \<Longrightarrow> a < 2 ^ n \<Longrightarrow> b < 2 ^ n \<Longrightarrow> (a :: 'a::len word) OR b < 2 ^ n"
  by (simp add: word_less_exp_iff bit_simps)

lemma if_less: "a < k \<Longrightarrow> b < k \<Longrightarrow> (if c then a else b) < k" for k :: "'a::ord"
  by simp

lemma bit_times2: "bit (v * 2 :: 'a::len word) n \<longleftrightarrow> 0 < n \<and> n < LENGTH('a) \<and> bit v (n - 1)"
  using bit_push_bit_iff [of 1 v n] by (simp add: push_bit_eq_mult mult.commute bit_simps Suc_le_eq)

lemma upt_64:
  "[0..<64] =
    [0, 1, 2, 3, 4, 5, 6, 7, 8, 9, 10, 11, 12, 13, 14, 15, 16, 17, 18, 19, 20, 21, 22,
     23, 24, 25, 26, 27, 28, 29, 30, 31, 32, 33, 34, 35, 36, 37, 38, 39, 40, 41, 42, 43,
     44, 45, 46, 47, 48, 49, 50, 51, 52, 53, 54, 55, 56, 57, 58, 59, 60, 61, 62, 63]"
  by code_simp

lemma upt_8_16_32:
  "[0..<8] = [0, 1, 2, 3, 4, 5, 6, 7]"
  "[0..<16] = [0, 1, 2, 3, 4, 5, 6, 7, 8, 9, 10, 11, 12, 13, 14, 15]"
  "[0..<32] =
    [0, 1, 2, 3, 4, 5, 6, 7, 8, 9, 10, 11, 12, 13, 14, 15, 16, 17, 18, 19, 20, 21, 22,
     23, 24, 25, 26, 27, 28, 29, 30, 31]"
  by code_simp+

lemma word_bits_iff: 
  fixes a b :: "'a::len word"
  shows "a = b \<longleftrightarrow> list_all (\<lambda>n. bit a n = bit b n) [0..<LENGTH('a)]"
  by (auto intro!: bit_word_eqI simp: list_all_iff)

lemmas word_bits_eval = word_bits_iff upt_64 upt_8_16_32

lemma bit_field_mask: "field_mask m h l \<Longrightarrow> bit m i \<longleftrightarrow> l \<le> i \<and> i \<le> h"
  by (auto simp: field_mask_def nfp_bits)

lemma c64_field_mask: "field_mask m h l \<Longrightarrow> c64 m = l"
  by (simp add: field_mask_def c64_GENMASK_ULL)

section \<open>Conversions and searches\<close>

lemma ucast_up_down [simp]:
  "LENGTH('a) \<le> LENGTH('b) \<Longrightarrow> ucast (ucast (x :: 'a::len word) :: 'b::len word) = x"
  by (rule bit_word_eqI) (auto simp: bit_simps)

lemma find_SomeD: "List.find P xs = Some x \<Longrightarrow> x \<in> set xs \<and> P x"
  by (induction xs) (auto split: if_splits)

section \<open>Network byte order\<close>

definition get_be32 :: "u8 list \<Rightarrow> u32" where
  "get_be32 p = push_bit 24 (ucast (p ! 0)) OR push_bit 16 (ucast (p ! 1)) OR push_bit 8 (ucast (p ! 2)) OR ucast (p ! 3)"

definition get_be64 :: "u8 list \<Rightarrow> u64" where
  "get_be64 p = push_bit 32 (ucast (get_be32 p)) OR ucast (get_be32 (drop 4 p))"

definition put_be32 :: "u32 \<Rightarrow> u8 list" where
  "put_be32 v = [ucast (drop_bit 24 v), ucast (drop_bit 16 v), ucast (drop_bit 8 v), ucast v]"

lemma be32_roundtrip [simp]: "get_be32 (put_be32 v) = v"
  unfolding get_be32_def put_be32_def
  by (simp add: word_bits_eval bit_simps)

lemma length_put_be32 [simp]: "length (put_be32 v) = 4"
  by (simp add: put_be32_def)

end
