(* ===== verification/NFP_Asm.thy ===== *)
theory NFP_Asm
  imports NFP_Prelude
begin

text \<open>
  The micro-engine instruction formats and operand encodings of
  \<^verbatim>\<open>src/nfp_asm.h\<close> and \<^verbatim>\<open>src/nfp_asm.c\<close>: the opcode and field masks, the
  software register representation \<open>swreg\<close>, its translation to the unrestricted
  and restricted operand encodings, patching of branch offsets and immediates
  of already encoded instructions, and the ECC of the instruction store.
\<close>

section \<open>Instruction formats\<close>

definition OP_BR_BASE :: u64 where "OP_BR_BASE = 0x0d800000020"
definition OP_BR_BASE_MASK :: u64 where "OP_BR_BASE_MASK = 0x0f8000c3ce0"
definition OP_BR_MASK :: u64 where "OP_BR_MASK = 0x0000000001f"
definition OP_BR_EV_PIP :: u64 where "OP_BR_EV_PIP = 0x00000000300"
definition OP_BR_CSS :: u64 where "OP_BR_CSS = 0x0000003c000"
definition OP_BR_DEFBR :: u64 where "OP_BR_DEFBR = 0x00000300000"
definition OP_BR_ADDR_LO :: u64 where "OP_BR_ADDR_LO = 0x007ffc00000"
definition OP_BR_ADDR_HI :: u64 where "OP_BR_ADDR_HI = 0x10000000000"
definition OP_BR_BIT_BASE :: u64 where "OP_BR_BIT_BASE = 0x0d000000000"
definition OP_BR_BIT_BASE_MASK :: u64 where "OP_BR_BIT_BASE_MASK = 0x0f800080300"
definition OP_BR_BIT_A_SRC :: u64 where "OP_BR_BIT_A_SRC = 0x000000000ff"
definition OP_BR_BIT_B_SRC :: u64 where "OP_BR_BIT_B_SRC = 0x0000003fc00"
definition OP_BR_BIT_BV :: u64 where "OP_BR_BIT_BV = 0x00000040000"
definition OP_BR_BIT_SRC_LMEXTN :: u64 where "OP_BR_BIT_SRC_LMEXTN = 0x40000000000"
definition OP_BR_BIT_DEFBR :: u64 where "OP_BR_BIT_DEFBR = OP_BR_DEFBR"
definition OP_BR_BIT_ADDR_LO :: u64 where "OP_BR_BIT_ADDR_LO = OP_BR_ADDR_LO"
definition OP_BR_BIT_ADDR_HI :: u64 where "OP_BR_BIT_ADDR_HI = OP_BR_ADDR_HI"
definition OP_BR_ALU_BASE :: u64 where "OP_BR_ALU_BASE = 0x0e800000000"
definition OP_BR_ALU_BASE_MASK :: u64 where "OP_BR_ALU_BASE_MASK = 0x0ff80000000"
definition OP_BR_ALU_A_SRC :: u64 where "OP_BR_ALU_A_SRC = 0x000000003ff"
definition OP_BR_ALU_B_SRC :: u64 where "OP_BR_ALU_B_SRC = 0x000000ffc00"
definition OP_BR_ALU_DEFBR :: u64 where "OP_BR_ALU_DEFBR = 0x00000300000"
definition OP_BR_ALU_IMM_HI :: u64 where "OP_BR_ALU_IMM_HI = 0x0007fc00000"
definition OP_BR_ALU_SRC_LMEXTN :: u64 where "OP_BR_ALU_SRC_LMEXTN = 0x40000000000"
definition OP_BR_ALU_DST_LMEXTN :: u64 where "OP_BR_ALU_DST_LMEXTN = 0x80000000000"
definition OP_BBYTE_BASE :: u64 where "OP_BBYTE_BASE = 0x0c800000000"
definition OP_BB_A_SRC :: u64 where "OP_BB_A_SRC = 0x000000000ff"
definition OP_BB_BYTE :: u64 where "OP_BB_BYTE = 0x00000000300"
definition OP_BB_B_SRC :: u64 where "OP_BB_B_SRC = 0x0000003fc00"
definition OP_BB_I8 :: u64 where "OP_BB_I8 = 0x00000040000"
definition OP_BB_EQ :: u64 where "OP_BB_EQ = 0x00000080000"
definition OP_BB_DEFBR :: u64 where "OP_BB_DEFBR = 0x00000300000"
definition OP_BB_ADDR_LO :: u64 where "OP_BB_ADDR_LO = 0x007ffc00000"
definition OP_BB_ADDR_HI :: u64 where "OP_BB_ADDR_HI = 0x10000000000"
definition OP_BB_SRC_LMEXTN :: u64 where "OP_BB_SRC_LMEXTN = 0x40000000000"
definition OP_BALU_BASE :: u64 where "OP_BALU_BASE = 0x0e800000000"
definition OP_BA_A_SRC :: u64 where "OP_BA_A_SRC = 0x000000003ff"
definition OP_BA_B_SRC :: u64 where "OP_BA_B_SRC = 0x000000ffc00"
definition OP_BA_DEFBR :: u64 where "OP_BA_DEFBR = 0x00000300000"
definition OP_BA_ADDR_HI :: u64 where "OP_BA_ADDR_HI = 0x0007fc00000"
definition OP_IMMED_A_SRC :: u64 where "OP_IMMED_A_SRC = 0x000000003ff"
definition OP_IMMED_B_SRC :: u64 where "OP_IMMED_B_SRC = 0x000000ffc00"
definition OP_IMMED_IMM :: u64 where "OP_IMMED_IMM = 0x0000ff00000"
definition OP_IMMED_WIDTH :: u64 where "OP_IMMED_WIDTH = 0x00060000000"
definition OP_IMMED_INV :: u64 where "OP_IMMED_INV = 0x00080000000"
definition OP_IMMED_SHIFT :: u64 where "OP_IMMED_SHIFT = 0x00600000000"
definition OP_IMMED_BASE :: u64 where "OP_IMMED_BASE = 0x0f000000000"
definition OP_IMMED_WR_AB :: u64 where "OP_IMMED_WR_AB = 0x20000000000"
definition OP_IMMED_SRC_LMEXTN :: u64 where "OP_IMMED_SRC_LMEXTN = 0x40000000000"
definition OP_IMMED_DST_LMEXTN :: u64 where "OP_IMMED_DST_LMEXTN = 0x80000000000"
definition OP_SHF_BASE :: u64 where "OP_SHF_BASE = 0x08000000000"
definition OP_SHF_A_SRC :: u64 where "OP_SHF_A_SRC = 0x000000000ff"
definition OP_SHF_SC :: u64 where "OP_SHF_SC = 0x00000000300"
definition OP_SHF_B_SRC :: u64 where "OP_SHF_B_SRC = 0x0000003fc00"
definition OP_SHF_I8 :: u64 where "OP_SHF_I8 = 0x00000040000"
definition OP_SHF_SW :: u64 where "OP_SHF_SW = 0x00000080000"
definition OP_SHF_DST :: u64 where "OP_SHF_DST = 0x0000ff00000"
definition OP_SHF_SHIFT :: u64 where "OP_SHF_SHIFT = 0x001f0000000"
definition OP_SHF_OP :: u64 where "OP_SHF_OP = 0x00e00000000"
definition OP_SHF_DST_AB :: u64 where "OP_SHF_DST_AB = 0x01000000000"
definition OP_SHF_WR_AB :: u64 where "OP_SHF_WR_AB = 0x20000000000"
definition OP_SHF_SRC_LMEXTN :: u64 where "OP_SHF_SRC_LMEXTN = 0x40000000000"
definition OP_SHF_DST_LMEXTN :: u64 where "OP_SHF_DST_LMEXTN = 0x80000000000"
definition OP_ALU_A_SRC :: u64 where "OP_ALU_A_SRC = 0x000000003ff"
definition OP_ALU_B_SRC :: u64 where "OP_ALU_B_SRC = 0x000000ffc00"
definition OP_ALU_DST :: u64 where "OP_ALU_DST = 0x0003ff00000"
definition OP_ALU_SW :: u64 where "OP_ALU_SW = 0x00040000000"
definition OP_ALU_OP :: u64 where "OP_ALU_OP = 0x00f80000000"
definition OP_ALU_DST_AB :: u64 where "OP_ALU_DST_AB = 0x01000000000"
definition OP_ALU_BASE :: u64 where "OP_ALU_BASE = 0x0a000000000"
definition OP_ALU_WR_AB :: u64 where "OP_ALU_WR_AB = 0x20000000000"
definition OP_ALU_SRC_LMEXTN :: u64 where "OP_ALU_SRC_LMEXTN = 0x40000000000"
definition OP_ALU_DST_LMEXTN :: u64 where "OP_ALU_DST_LMEXTN = 0x80000000000"
definition OP_LDF_BASE :: u64 where "OP_LDF_BASE = 0x0c000000000"
definition OP_LDF_A_SRC :: u64 where "OP_LDF_A_SRC = 0x000000000ff"
definition OP_LDF_SC :: u64 where "OP_LDF_SC = 0x00000000300"
definition OP_LDF_B_SRC :: u64 where "OP_LDF_B_SRC = 0x0000003fc00"
definition OP_LDF_I8 :: u64 where "OP_LDF_I8 = 0x00000040000"
definition OP_LDF_SW :: u64 where "OP_LDF_SW = 0x00000080000"
definition OP_LDF_ZF :: u64 where "OP_LDF_ZF = 0x00000100000"
definition OP_LDF_BMASK :: u64 where "OP_LDF_BMASK = 0x0000f000000"
definition OP_LDF_SHF :: u64 where "OP_LDF_SHF = 0x001f0000000"
definition OP_LDF_WR_AB :: u64 where "OP_LDF_WR_AB = 0x20000000000"
definition OP_LDF_SRC_LMEXTN :: u64 where "OP_LDF_SRC_LMEXTN = 0x40000000000"
definition OP_LDF_DST_LMEXTN :: u64 where "OP_LDF_DST_LMEXTN = 0x80000000000"
definition OP_CMD_A_SRC :: u64 where "OP_CMD_A_SRC = 0x000000000ff"
definition OP_CMD_CTX :: u64 where "OP_CMD_CTX = 0x00000000300"
definition OP_CMD_B_SRC :: u64 where "OP_CMD_B_SRC = 0x0000003fc00"
definition OP_CMD_TOKEN :: u64 where "OP_CMD_TOKEN = 0x000000c0000"
definition OP_CMD_XFER :: u64 where "OP_CMD_XFER = 0x00001f00000"
definition OP_CMD_CNT :: u64 where "OP_CMD_CNT = 0x0000e000000"
definition OP_CMD_SIG :: u64 where "OP_CMD_SIG = 0x000f0000000"
definition OP_CMD_TGT_CMD :: u64 where "OP_CMD_TGT_CMD = 0x07f00000000"
definition OP_CMD_INDIR :: u64 where "OP_CMD_INDIR = 0x20000000000"
definition OP_CMD_MODE :: u64 where "OP_CMD_MODE = 0x1c0000000000"
definition OP_LCSR_BASE :: u64 where "OP_LCSR_BASE = 0x0fc00000000"
definition OP_LCSR_A_SRC :: u64 where "OP_LCSR_A_SRC = 0x000000003ff"
definition OP_LCSR_B_SRC :: u64 where "OP_LCSR_B_SRC = 0x000000ffc00"
definition OP_LCSR_WRITE :: u64 where "OP_LCSR_WRITE = 0x00000200000"
definition OP_LCSR_ADDR :: u64 where "OP_LCSR_ADDR = 0x001ffc00000"
definition OP_LCSR_SRC_LMEXTN :: u64 where "OP_LCSR_SRC_LMEXTN = 0x40000000000"
definition OP_LCSR_DST_LMEXTN :: u64 where "OP_LCSR_DST_LMEXTN = 0x80000000000"
definition OP_CARB_BASE :: u64 where "OP_CARB_BASE = 0x0e000000000"
definition OP_CARB_OR :: u64 where "OP_CARB_OR = 0x00000010000"
definition OP_MUL_BASE :: u64 where "OP_MUL_BASE = 0x0f800000000"
definition OP_MUL_A_SRC :: u64 where "OP_MUL_A_SRC = 0x000000003ff"
definition OP_MUL_B_SRC :: u64 where "OP_MUL_B_SRC = 0x000000ffc00"
definition OP_MUL_STEP :: u64 where "OP_MUL_STEP = 0x00000700000"
definition OP_MUL_DST_AB :: u64 where "OP_MUL_DST_AB = 0x00000800000"
definition OP_MUL_SW :: u64 where "OP_MUL_SW = 0x00040000000"
definition OP_MUL_TYPE :: u64 where "OP_MUL_TYPE = 0x00180000000"
definition OP_MUL_WR_AB :: u64 where "OP_MUL_WR_AB = 0x20000000000"
definition OP_MUL_SRC_LMEXTN :: u64 where "OP_MUL_SRC_LMEXTN = 0x40000000000"
definition OP_MUL_DST_LMEXTN :: u64 where "OP_MUL_DST_LMEXTN = 0x80000000000"

lemmas asm_op_defs =
  OP_BR_BASE_def OP_BR_BASE_MASK_def OP_BR_MASK_def OP_BR_EV_PIP_def OP_BR_CSS_def
  OP_BR_DEFBR_def OP_BR_ADDR_LO_def OP_BR_ADDR_HI_def OP_BR_BIT_BASE_def
  OP_BR_BIT_BASE_MASK_def OP_BR_BIT_A_SRC_def OP_BR_BIT_B_SRC_def OP_BR_BIT_BV_def
  OP_BR_BIT_SRC_LMEXTN_def OP_BR_BIT_DEFBR_def OP_BR_BIT_ADDR_LO_def OP_BR_BIT_ADDR_HI_def
  OP_BR_ALU_BASE_def OP_BR_ALU_BASE_MASK_def OP_BR_ALU_A_SRC_def OP_BR_ALU_B_SRC_def
  OP_BR_ALU_DEFBR_def OP_BR_ALU_IMM_HI_def OP_BR_ALU_SRC_LMEXTN_def OP_BR_ALU_DST_LMEXTN_def
  OP_BBYTE_BASE_def OP_BB_A_SRC_def OP_BB_BYTE_def OP_BB_B_SRC_def OP_BB_I8_def OP_BB_EQ_def
  OP_BB_DEFBR_def OP_BB_ADDR_LO_def OP_BB_ADDR_HI_def OP_BB_SRC_LMEXTN_def OP_BALU_BASE_def
  OP_BA_A_SRC_def OP_BA_B_SRC_def OP_BA_DEFBR_def OP_BA_ADDR_HI_def OP_IMMED_A_SRC_def
  OP_IMMED_B_SRC_def OP_IMMED_IMM_def OP_IMMED_WIDTH_def OP_IMMED_INV_def OP_IMMED_SHIFT_def
  OP_IMMED_BASE_def OP_IMMED_WR_AB_def OP_IMMED_SRC_LMEXTN_def OP_IMMED_DST_LMEXTN_def
  OP_SHF_BASE_def OP_SHF_A_SRC_def OP_SHF_SC_def OP_SHF_B_SRC_def OP_SHF_I8_def OP_SHF_SW_def
  OP_SHF_DST_def OP_SHF_SHIFT_def OP_SHF_OP_def OP_SHF_DST_AB_def OP_SHF_WR_AB_def
  OP_SHF_SRC_LMEXTN_def OP_SHF_DST_LMEXTN_def OP_ALU_A_SRC_def OP_ALU_B_SRC_def OP_ALU_DST_def
  OP_ALU_SW_def OP_ALU_OP_def OP_ALU_DST_AB_def OP_ALU_BASE_def OP_ALU_WR_AB_def
  OP_ALU_SRC_LMEXTN_def OP_ALU_DST_LMEXTN_def OP_LDF_BASE_def OP_LDF_A_SRC_def OP_LDF_SC_def
  OP_LDF_B_SRC_def OP_LDF_I8_def OP_LDF_SW_def OP_LDF_ZF_def OP_LDF_BMASK_def OP_LDF_SHF_def
  OP_LDF_WR_AB_def OP_LDF_SRC_LMEXTN_def OP_LDF_DST_LMEXTN_def OP_CMD_A_SRC_def OP_CMD_CTX_def
  OP_CMD_B_SRC_def OP_CMD_TOKEN_def OP_CMD_XFER_def OP_CMD_CNT_def OP_CMD_SIG_def
  OP_CMD_TGT_CMD_def OP_CMD_INDIR_def OP_CMD_MODE_def OP_LCSR_BASE_def OP_LCSR_A_SRC_def
  OP_LCSR_B_SRC_def OP_LCSR_WRITE_def OP_LCSR_ADDR_def OP_LCSR_SRC_LMEXTN_def
  OP_LCSR_DST_LMEXTN_def OP_CARB_BASE_def OP_CARB_OR_def OP_MUL_BASE_def OP_MUL_A_SRC_def
  OP_MUL_B_SRC_def OP_MUL_STEP_def OP_MUL_DST_AB_def OP_MUL_SW_def OP_MUL_TYPE_def
  OP_MUL_WR_AB_def OP_MUL_SRC_LMEXTN_def OP_MUL_DST_LMEXTN_def

lemma asm_field_masks:
  shows
    "field_mask OP_BR_MASK 4 0"
    "field_mask OP_BR_EV_PIP 9 8"
    "field_mask OP_BR_CSS 17 14"
    "field_mask OP_BR_DEFBR 21 20"
    "field_mask OP_BR_ADDR_LO 34 22"
    "field_mask OP_BR_ADDR_HI 40 40"
    "field_mask OP_BR_BIT_A_SRC 7 0"
    "field_mask OP_BR_BIT_B_SRC 17 10"
    "field_mask OP_BR_BIT_BV 18 18"
    "field_mask OP_BR_BIT_SRC_LMEXTN 42 42"
    "field_mask OP_BR_BIT_DEFBR 21 20"
    "field_mask OP_BR_BIT_ADDR_LO 34 22"
    "field_mask OP_BR_BIT_ADDR_HI 40 40"
    "field_mask OP_BR_ALU_A_SRC 9 0"
    "field_mask OP_BR_ALU_B_SRC 19 10"
    "field_mask OP_BR_ALU_DEFBR 21 20"
    "field_mask OP_BR_ALU_IMM_HI 30 22"
    "field_mask OP_BR_ALU_SRC_LMEXTN 42 42"
    "field_mask OP_BR_ALU_DST_LMEXTN 43 43"
    "field_mask OP_BB_A_SRC 7 0"
    "field_mask OP_BB_BYTE 9 8"
    "field_mask OP_BB_B_SRC 17 10"
    "field_mask OP_BB_I8 18 18"
    "field_mask OP_BB_EQ 19 19"
    "field_mask OP_BB_DEFBR 21 20"
    "field_mask OP_BB_ADDR_LO 34 22"
    "field_mask OP_BB_ADDR_HI 40 40"
    "field_mask OP_BB_SRC_LMEXTN 42 42"
    "field_mask OP_BA_A_SRC 9 0"
    "field_mask OP_BA_B_SRC 19 10"
    "field_mask OP_BA_DEFBR 21 20"
    "field_mask OP_BA_ADDR_HI 30 22"
    "field_mask OP_IMMED_A_SRC 9 0"
    "field_mask OP_IMMED_B_SRC 19 10"
    "field_mask OP_IMMED_IMM 27 20"
    "field_mask OP_IMMED_WIDTH 30 29"
    "field_mask OP_IMMED_INV 31 31"
    "field_mask OP_IMMED_SHIFT 34 33"
    "field_mask OP_IMMED_WR_AB 41 41"
    "field_mask OP_IMMED_SRC_LMEXTN 42 42"
    "field_mask OP_IMMED_DST_LMEXTN 43 43"
    "field_mask OP_SHF_A_SRC 7 0"
    "field_mask OP_SHF_SC 9 8"
    "field_mask OP_SHF_B_SRC 17 10"
    "field_mask OP_SHF_I8 18 18"
    "field_mask OP_SHF_SW 19 19"
    "field_mask OP_SHF_DST 27 20"
    "field_mask OP_SHF_SHIFT 32 28"
    "field_mask OP_SHF_OP 35 33"
    "field_mask OP_SHF_DST_AB 36 36"
    "field_mask OP_SHF_WR_AB 41 41"
    "field_mask OP_SHF_SRC_LMEXTN 42 42"
    "field_mask OP_SHF_DST_LMEXTN 43 43"
    "field_mask OP_ALU_A_SRC 9 0"
    "field_mask OP_ALU_B_SRC 19 10"
    "field_mask OP_ALU_DST 29 20"
    "field_mask OP_ALU_SW 30 30"
    "field_mask OP_ALU_OP 35 31"
    "field_mask OP_ALU_DST_AB 36 36"
    "field_mask OP_ALU_WR_AB 41 41"
    "field_mask OP_ALU_SRC_LMEXTN 42 42"
    "field_mask OP_ALU_DST_LMEXTN 43 43"
    "field_mask OP_LDF_A_SRC 7 0"
    "field_mask OP_LDF_SC 9 8"
    "field_mask OP_LDF_B_SRC 17 10"
    "field_mask OP_LDF_I8 18 18"
    "field_mask OP_LDF_SW 19 19"
    "field_mask OP_LDF_ZF 20 20"
    "field_mask OP_LDF_BMASK 27 24"
    "field_mask OP_LDF_SHF 32 28"
    "field_mask OP_LDF_WR_AB 41 41"
    "field_mask OP_LDF_SRC_LMEXTN 42 42"
    "field_mask OP_LDF_DST_LMEXTN 43 43"
    "field_mask OP_CMD_A_SRC 7 0"
    "field_mask OP_CMD_CTX 9 8"
    "field_mask OP_CMD_B_SRC 17 10"
    "field_mask OP_CMD_TOKEN 19 18"
    "field_mask OP_CMD_XFER 24 20"
    "field_mask OP_CMD_CNT 27 25"
    "field_mask OP_CMD_SIG 31 28"
    "field_mask OP_CMD_TGT_CMD 38 32"
    "field_mask OP_CMD_INDIR 41 41"
    "field_mask OP_CMD_MODE 44 42"
    "field_mask OP_LCSR_A_SRC 9 0"
    "field_mask OP_LCSR_B_SRC 19 10"
    "field_mask OP_LCSR_WRITE 21 21"
    "field_mask OP_LCSR_ADDR 32 22"
    "field_mask OP_LCSR_SRC_LMEXTN 42 42"
    "field_mask OP_LCSR_DST_LMEXTN 43 43"
    "field_mask OP_CARB_OR 16 16"
    "field_mask OP_MUL_A_SRC 9 0"
    "field_mask OP_MUL_B_SRC 19 10"
    "field_mask OP_MUL_STEP 22 20"
    "field_mask OP_MUL_DST_AB 23 23"
    "field_mask OP_MUL_SW 30 30"
    "field_mask OP_MUL_TYPE 32 31"
    "field_mask OP_MUL_WR_AB 41 41"
    "field_mask OP_MUL_SRC_LMEXTN 42 42"
    "field_mask OP_MUL_DST_LMEXTN 43 43"
  by (simp_all add: asm_op_defs field_mask_eval)

text \<open>The masks with their names unfolded to the numbers, so that the
  simplifier can decide whether two fields overlap.\<close>

lemmas asm_get_prep = asm_field_masks [THEN FIELD_GET_PREP, unfolded asm_op_defs]

lemmas asm_field_masks_num = asm_field_masks [unfolded asm_op_defs]

section \<open>Branch instructions\<close>

definition nfp_is_br :: "u64 \<Rightarrow> bool" where
  "nfp_is_br insn \<longleftrightarrow> insn AND OP_BR_BASE_MASK = OP_BR_BASE \<or>
     insn AND OP_BR_BIT_BASE_MASK = OP_BR_BIT_BASE"

text \<open>\<open>OP_BR_ADDR_LO >> __bf_shf(OP_BR_ADDR_LO)\<close>: the largest offset the low
  address field holds.\<close>

definition br_addr_lo_max :: u64 where
  "br_addr_lo_max = drop_bit (c64 OP_BR_ADDR_LO) OP_BR_ADDR_LO"

definition br_get_offset :: "u64 \<Rightarrow> u16" where
  "br_get_offset instr =
     (let addr_lo = ucast (FIELD_GET OP_BR_ADDR_LO instr) :: u16;
          addr_hi = ucast (FIELD_GET OP_BR_ADDR_HI instr) :: u16
      in ucast (((ucast addr_hi :: u64) * (br_addr_lo_max + 1)) OR ucast addr_lo))"

definition br_set_offset :: "u64 \<Rightarrow> u16 \<Rightarrow> u64" where
  "br_set_offset instr offset =
     (let addr_lo = ucast ((ucast offset :: u64) AND br_addr_lo_max) :: u16;
          addr_hi = of_bool (offset \<noteq> addr_lo) :: u64;
          instr = instr AND NOT (OP_BR_ADDR_HI OR OP_BR_ADDR_LO);
          instr = instr OR FIELD_PREP OP_BR_ADDR_HI addr_hi
      in instr OR FIELD_PREP OP_BR_ADDR_LO (ucast addr_lo))"

definition br_add_offset :: "u64 \<Rightarrow> u16 \<Rightarrow> u64" where
  "br_add_offset instr offset = br_set_offset instr (br_get_offset instr + offset)"

section \<open>Immediate instructions\<close>

definition UR_REG_IMM :: u16 where "UR_REG_IMM = 0x300"

definition unreg_is_imm :: "u16 \<Rightarrow> bool" where
  "unreg_is_imm reg \<longleftrightarrow> reg AND UR_REG_IMM = UR_REG_IMM"

datatype immed_width = IMMED_WIDTH_ALL | IMMED_WIDTH_BYTE | IMMED_WIDTH_WORD

primrec immed_width_val :: "immed_width \<Rightarrow> u64" where
  "immed_width_val IMMED_WIDTH_ALL = 0"
| "immed_width_val IMMED_WIDTH_BYTE = 1"
| "immed_width_val IMMED_WIDTH_WORD = 2"

datatype immed_shift = IMMED_SHIFT_0B | IMMED_SHIFT_1B | IMMED_SHIFT_2B

primrec immed_shift_val :: "immed_shift \<Rightarrow> u64" where
  "immed_shift_val IMMED_SHIFT_0B = 0"
| "immed_shift_val IMMED_SHIFT_1B = 1"
| "immed_shift_val IMMED_SHIFT_2B = 2"

definition immed_can_modify :: "u64 \<Rightarrow> bool" where
  "immed_can_modify instr \<longleftrightarrow>
     \<not> (FIELD_GET OP_IMMED_INV instr \<noteq> 0 \<or> FIELD_GET OP_IMMED_SHIFT instr \<noteq> 0 \<or>
        FIELD_GET OP_IMMED_WIDTH instr \<noteq> immed_width_val IMMED_WIDTH_ALL)"

definition immed_get_value :: "u64 \<Rightarrow> u16" where
  "immed_get_value instr =
     (if \<not> immed_can_modify instr then 0
      else
        let reg = ucast (FIELD_GET OP_IMMED_A_SRC instr) :: u16;
            reg = (if \<not> unreg_is_imm reg
                   then ucast (FIELD_GET OP_IMMED_B_SRC instr) else reg)
        in ucast ((ucast (reg AND 0xff) :: u64) OR push_bit 8 (FIELD_GET OP_IMMED_IMM instr)))"

definition immed_set_value :: "u64 \<Rightarrow> u16 \<Rightarrow> u64" where
  "immed_set_value instr immed =
     (if \<not> immed_can_modify instr then instr
      else
        let instr =
          (if unreg_is_imm (ucast (FIELD_GET OP_IMMED_A_SRC instr))
           then (instr AND NOT (FIELD_PREP OP_IMMED_A_SRC 0xff))
                  OR FIELD_PREP OP_IMMED_A_SRC (ucast (immed AND 0xff))
           else (instr AND NOT (FIELD_PREP OP_IMMED_B_SRC 0xff))
                  OR FIELD_PREP OP_IMMED_B_SRC (ucast (immed AND 0xff)));
            instr = instr AND NOT OP_IMMED_IMM
        in instr OR FIELD_PREP OP_IMMED_IMM (ucast (drop_bit 8 immed)))"

definition immed_add_value :: "u64 \<Rightarrow> u16 \<Rightarrow> u64" where
  "immed_add_value instr offset =
     (if \<not> immed_can_modify instr then instr
      else immed_set_value instr (immed_get_value instr + offset))"

section \<open>Software registers\<close>

text \<open>A \<open>swreg\<close> is a 32-bit word holding a register type, the local-memory
  index and mode, and the register number or immediate.\<close>

type_synonym swreg = u32

definition NN_REG_TYPE :: u64 where "NN_REG_TYPE = GENMASK_ULL 31 24"
definition NN_REG_LM_IDX :: u64 where "NN_REG_LM_IDX = GENMASK_ULL 23 22"
definition NN_REG_LM_IDX_HI :: u64 where "NN_REG_LM_IDX_HI = BIT_ULL 23"
definition NN_REG_LM_IDX_LO :: u64 where "NN_REG_LM_IDX_LO = BIT_ULL 22"
definition NN_REG_LM_MOD :: u64 where "NN_REG_LM_MOD = GENMASK_ULL 21 20"
definition NN_REG_VAL :: u64 where "NN_REG_VAL = GENMASK_ULL 7 0"

definition NN_REG_GPR_A :: u64 where "NN_REG_GPR_A = 0x01"
definition NN_REG_GPR_B :: u64 where "NN_REG_GPR_B = 0x02"
definition NN_REG_GPR_BOTH :: u64 where "NN_REG_GPR_BOTH = NN_REG_GPR_A OR NN_REG_GPR_B"
definition NN_REG_NNR :: u64 where "NN_REG_NNR = 0x04"
definition NN_REG_XFER :: u64 where "NN_REG_XFER = 0x08"
definition NN_REG_IMM :: u64 where "NN_REG_IMM = 0x10"
definition NN_REG_NONE :: u64 where "NN_REG_NONE = 0x20"
definition NN_REG_LMEM :: u64 where "NN_REG_LMEM = 0x40"

definition NN_LM_MOD_NONE :: u64 where "NN_LM_MOD_NONE = 0"
definition NN_LM_MOD_INC :: u64 where "NN_LM_MOD_INC = 1"
definition NN_LM_MOD_DEC :: u64 where "NN_LM_MOD_DEC = 2"

definition enc_swreg :: "u16 \<Rightarrow> u64 \<Rightarrow> swreg" where
  "enc_swreg rid type = ucast ((ucast rid :: u64) OR FIELD_PREP NN_REG_TYPE type)"

definition enc_swreg_lm :: "u8 \<Rightarrow> u64 \<Rightarrow> u8 \<Rightarrow> swreg" where
  "enc_swreg_lm lid mode off =
     ucast (FIELD_PREP NN_REG_TYPE NN_REG_LMEM OR FIELD_PREP NN_REG_LM_IDX (ucast lid) OR
            FIELD_PREP NN_REG_LM_MOD mode OR ucast off)"

definition reg_both :: "u16 \<Rightarrow> swreg" where "reg_both x = enc_swreg x NN_REG_GPR_BOTH"
definition reg_a :: "u16 \<Rightarrow> swreg" where "reg_a x = enc_swreg x NN_REG_GPR_A"
definition reg_b :: "u16 \<Rightarrow> swreg" where "reg_b x = enc_swreg x NN_REG_GPR_B"
definition reg_nnr :: "u16 \<Rightarrow> swreg" where "reg_nnr x = enc_swreg x NN_REG_NNR"
definition reg_xfer :: "u16 \<Rightarrow> swreg" where "reg_xfer x = enc_swreg x NN_REG_XFER"
definition reg_imm :: "u16 \<Rightarrow> swreg" where "reg_imm x = enc_swreg x NN_REG_IMM"
definition reg_none :: swreg where "reg_none = enc_swreg 0 NN_REG_NONE"
definition reg_lm :: "u8 \<Rightarrow> u8 \<Rightarrow> swreg" where "reg_lm x off = enc_swreg_lm x NN_LM_MOD_NONE off"
definition reg_lm_inc :: "u8 \<Rightarrow> swreg" where "reg_lm_inc x = enc_swreg_lm x NN_LM_MOD_INC 0"
definition reg_lm_dec :: "u8 \<Rightarrow> swreg" where "reg_lm_dec x = enc_swreg_lm x NN_LM_MOD_DEC 0"

definition swreg_type :: "swreg \<Rightarrow> u64" where
  "swreg_type reg = FIELD_GET NN_REG_TYPE (ucast reg)"

definition swreg_value :: "swreg \<Rightarrow> u16" where
  "swreg_value reg = ucast (FIELD_GET NN_REG_VAL (ucast reg))"

definition swreg_lm_idx :: "swreg \<Rightarrow> bool" where
  "swreg_lm_idx reg \<longleftrightarrow> FIELD_GET NN_REG_LM_IDX_LO (ucast reg) \<noteq> 0"

definition swreg_lmextn :: "swreg \<Rightarrow> bool" where
  "swreg_lmextn reg \<longleftrightarrow> FIELD_GET NN_REG_LM_IDX_HI (ucast reg) \<noteq> 0"

definition swreg_lm_mode :: "swreg \<Rightarrow> u64" where
  "swreg_lm_mode reg = FIELD_GET NN_REG_LM_MOD (ucast reg)"

section \<open>Operand encodings\<close>

definition REG_NONE :: u16 where "REG_NONE = 0"
definition RE_REG_NO_DST :: u16 where "RE_REG_NO_DST = 0x020"
definition RE_REG_IMM :: u16 where "RE_REG_IMM = 0x020"
definition RE_REG_IMM_encode :: "u16 \<Rightarrow> u16" where
  "RE_REG_IMM_encode x = RE_REG_IMM OR (x AND 0x1f) OR push_bit 1 (x AND 0x60)"
definition RE_REG_LM :: u16 where "RE_REG_LM = 0x050"
definition RE_REG_LM_IDX :: u64 where "RE_REG_LM_IDX = 0x008"
definition RE_REG_LM_IDX_MAX :: u16 where "RE_REG_LM_IDX_MAX = 0x7"
definition RE_REG_XFR :: u16 where "RE_REG_XFR = 0x080"
definition UR_REG_XFR :: u16 where "UR_REG_XFR = 0x180"
definition UR_REG_LM :: u16 where "UR_REG_LM = 0x200"
definition UR_REG_LM_IDX :: u64 where "UR_REG_LM_IDX = 0x020"
definition UR_REG_LM_POST_MOD :: u16 where "UR_REG_LM_POST_MOD = 0x010"
definition UR_REG_LM_POST_MOD_DEC :: u64 where "UR_REG_LM_POST_MOD_DEC = 0x001"
definition UR_REG_LM_IDX_MAX :: u16 where "UR_REG_LM_IDX_MAX = 0xf"
definition UR_REG_NN :: u16 where "UR_REG_NN = 0x280"
definition UR_REG_NO_DST :: u16 where "UR_REG_NO_DST = 0x300"
definition UR_REG_IMM_encode :: "u16 \<Rightarrow> u16" where "UR_REG_IMM_encode x = UR_REG_IMM OR x"
definition UR_REG_IMM_MAX :: u64 where "UR_REG_IMM_MAX = 0x0ff"
definition RE_REG_IMM_MAX :: u64 where "RE_REG_IMM_MAX = 0x07f"

lemmas swreg_type_defs = NN_REG_GPR_A_def NN_REG_GPR_B_def NN_REG_GPR_BOTH_def NN_REG_NNR_def
  NN_REG_XFER_def NN_REG_IMM_def NN_REG_NONE_def NN_REG_LMEM_def
  NN_LM_MOD_NONE_def NN_LM_MOD_INC_def NN_LM_MOD_DEC_def

lemmas operand_defs = REG_NONE_def RE_REG_NO_DST_def RE_REG_IMM_def RE_REG_IMM_encode_def
  RE_REG_LM_def RE_REG_LM_IDX_def RE_REG_LM_IDX_MAX_def RE_REG_XFR_def UR_REG_XFR_def
  UR_REG_LM_def UR_REG_LM_IDX_def UR_REG_LM_POST_MOD_def UR_REG_LM_POST_MOD_DEC_def
  UR_REG_LM_IDX_MAX_def UR_REG_NN_def UR_REG_NO_DST_def UR_REG_IMM_def UR_REG_IMM_encode_def
  UR_REG_IMM_MAX_def RE_REG_IMM_MAX_def

text \<open>An operand that cannot be encoded makes the C code print an error and
  return 0, the encoding of general purpose register 0.\<close>

definition nfp_swreg_to_unreg :: "swreg \<Rightarrow> bool \<Rightarrow> u16" where
  "nfp_swreg_to_unreg reg is_dst =
     (let val = swreg_value reg; ty = swreg_type reg in
      if ty = NN_REG_GPR_A \<or> ty = NN_REG_GPR_B \<or> ty = NN_REG_GPR_BOTH then val
      else if ty = NN_REG_NNR then UR_REG_NN OR val
      else if ty = NN_REG_XFER then UR_REG_XFR OR val
      else if ty = NN_REG_LMEM then
        (let lm_id = of_bool (swreg_lm_idx reg) :: u64; mode = swreg_lm_mode reg in
         if mode = NN_LM_MOD_NONE then
           (if val AND NOT UR_REG_LM_IDX_MAX \<noteq> 0 then 0
            else UR_REG_LM OR ucast (FIELD_PREP UR_REG_LM_IDX lm_id) OR val)
         else if mode = NN_LM_MOD_DEC \<or> mode = NN_LM_MOD_INC then
           (if val \<noteq> 0 then 0
            else UR_REG_LM OR UR_REG_LM_POST_MOD OR ucast (FIELD_PREP UR_REG_LM_IDX lm_id) OR
              ucast (FIELD_PREP UR_REG_LM_POST_MOD_DEC (of_bool (mode = NN_LM_MOD_DEC))))
         else 0)
      else if ty = NN_REG_IMM then
        (if val AND NOT 0xff \<noteq> 0 then 0 else UR_REG_IMM_encode val)
      else if ty = NN_REG_NONE then (if is_dst then UR_REG_NO_DST else REG_NONE)
      else 0)"

datatype alu_dst_ab = ALU_DST_A | ALU_DST_B

primrec alu_dst_ab_val :: "alu_dst_ab \<Rightarrow> u64" where
  "alu_dst_ab_val ALU_DST_A = 0"
| "alu_dst_ab_val ALU_DST_B = 1"

record nfp_insn_ur_regs =
  ur_dst_ab :: alu_dst_ab
  ur_dst :: u16
  ur_areg :: u16
  ur_breg :: u16
  ur_swap :: bool
  ur_wr_both :: bool
  ur_dst_lmextn :: bool
  ur_src_lmextn :: bool

definition swreg_to_unrestricted ::
  "swreg \<Rightarrow> swreg \<Rightarrow> swreg \<Rightarrow> nfp_insn_ur_regs result" where
  "swreg_to_unrestricted dst lreg rreg =
     (if swreg_type dst = NN_REG_IMM then Inl EFAULT
      else if swreg_type lreg = swreg_type rreg \<and> swreg_type lreg \<noteq> NN_REG_NONE then Inl EFAULT
      else
        let swap = (swreg_type lreg = NN_REG_GPR_B \<or> swreg_type rreg = NN_REG_GPR_A) in
        Inr \<lparr> ur_dst_ab = (if swreg_type dst = NN_REG_GPR_B then ALU_DST_B else ALU_DST_A),
              ur_dst = nfp_swreg_to_unreg dst True,
              ur_areg = nfp_swreg_to_unreg (if swap then rreg else lreg) False,
              ur_breg = nfp_swreg_to_unreg (if swap then lreg else rreg) False,
              ur_swap = swap,
              ur_wr_both = (swreg_type dst = NN_REG_GPR_BOTH),
              ur_dst_lmextn = swreg_lmextn dst,
              ur_src_lmextn = (swreg_lmextn lreg \<or> swreg_lmextn rreg) \<rparr>)"

text \<open>The restricted encoding also reports bit 7 of an 8-bit immediate, which
  is written to the caller's flag \<open>i8\<close>; the result is the encoding and the new
  value of the flag.\<close>

definition nfp_swreg_to_rereg :: "swreg \<Rightarrow> bool \<Rightarrow> bool \<Rightarrow> bool \<Rightarrow> u16 \<times> bool" where
  "nfp_swreg_to_rereg reg is_dst has_imm8 i8 =
     (let val = swreg_value reg; ty = swreg_type reg in
      if ty = NN_REG_GPR_A \<or> ty = NN_REG_GPR_B \<or> ty = NN_REG_GPR_BOTH then (val, i8)
      else if ty = NN_REG_XFER then (RE_REG_XFR OR val, i8)
      else if ty = NN_REG_LMEM then
        (let lm_id = of_bool (swreg_lm_idx reg) :: u64 in
         if swreg_lm_mode reg \<noteq> NN_LM_MOD_NONE then (0, i8)
         else if val AND NOT RE_REG_LM_IDX_MAX \<noteq> 0 then (0, i8)
         else (RE_REG_LM OR ucast (FIELD_PREP RE_REG_LM_IDX lm_id) OR val, i8))
      else if ty = NN_REG_IMM then
        (if val AND NOT (0x7f OR push_bit 7 (of_bool has_imm8)) \<noteq> 0 then (0, i8)
         else (RE_REG_IMM_encode (val AND 0x7f), val AND 0x80 \<noteq> 0))
      else if ty = NN_REG_NONE then (if is_dst then RE_REG_NO_DST else REG_NONE, i8)
      else (0, i8))"

record nfp_insn_re_regs =
  re_dst_ab :: alu_dst_ab
  re_dst :: u8
  re_areg :: u8
  re_breg :: u8
  re_swap :: bool
  re_wr_both :: bool
  re_i8 :: bool
  re_dst_lmextn :: bool
  re_src_lmextn :: bool

definition swreg_to_restricted ::
  "swreg \<Rightarrow> swreg \<Rightarrow> swreg \<Rightarrow> bool \<Rightarrow> nfp_insn_re_regs result" where
  "swreg_to_restricted dst lreg rreg has_imm8 =
     (if swreg_type dst = NN_REG_IMM then Inl EFAULT
      else if swreg_type lreg = swreg_type rreg \<and> swreg_type lreg \<noteq> NN_REG_NONE then Inl EFAULT
      else
        let swap = (swreg_type lreg = NN_REG_GPR_B \<or> swreg_type rreg = NN_REG_GPR_A);
            (areg, i8) = nfp_swreg_to_rereg (if swap then rreg else lreg) False has_imm8 False;
            (breg, i8') = nfp_swreg_to_rereg (if swap then lreg else rreg) False has_imm8 i8 in
        Inr \<lparr> re_dst_ab = (if swreg_type dst = NN_REG_GPR_B then ALU_DST_B else ALU_DST_A),
              re_dst = ucast (fst (nfp_swreg_to_rereg dst True False False)),
              re_areg = ucast areg,
              re_breg = ucast breg,
              re_swap = swap,
              re_wr_both = (swreg_type dst = NN_REG_GPR_BOTH),
              re_i8 = i8',
              re_dst_lmextn = swreg_lmextn dst,
              re_src_lmextn = (swreg_lmextn lreg \<or> swreg_lmextn rreg) \<rparr>)"

section \<open>Instruction store ECC\<close>

definition NFP_USTORE_OP_BITS :: nat where "NFP_USTORE_OP_BITS = 45"

definition nfp_ustore_ecc_polynomials :: "u64 list" where
  "nfp_ustore_ecc_polynomials =
     [0x0ff800007fff, 0x11f801ff801f, 0x1e387e0781e1, 0x17cb8e388e22,
      0x1af5b2c93244, 0x1f56d5525488, 0x0daf69a46910]"

definition hweight64 :: "u64 \<Rightarrow> nat" where
  "hweight64 value = (\<Sum>i\<leftarrow>[0..<64]. of_bool (bit value i))"

definition parity :: "u64 \<Rightarrow> bool" where
  "parity value \<longleftrightarrow> odd (hweight64 value)"

definition nfp_ustore_check_valid_no_ecc :: "u64 \<Rightarrow> unit result" where
  "nfp_ustore_check_valid_no_ecc insn =
     (if insn AND NOT (GENMASK_ULL NFP_USTORE_OP_BITS 0) \<noteq> 0 then Inl EINVAL else Inr ())"

text \<open>The loop over the polynomials, \<open>i\<close> being the index of the next one.\<close>

fun ustore_ecc :: "u64 \<Rightarrow> nat \<Rightarrow> u64 list \<Rightarrow> u8 \<Rightarrow> u8" where
  "ustore_ecc insn i [] ecc = ecc"
| "ustore_ecc insn i (p # ps) ecc =
     ustore_ecc insn (Suc i) ps (ecc OR push_bit i (of_bool (parity (p AND insn))))"

definition nfp_ustore_calc_ecc_insn :: "u64 \<Rightarrow> u64" where
  "nfp_ustore_calc_ecc_insn insn =
     insn OR push_bit NFP_USTORE_OP_BITS
       (ucast (ustore_ecc insn 0 nfp_ustore_ecc_polynomials 0))"

text \<open>What the device reads an 8-bit restricted immediate operand as: the low five bits, the two
  bits above the immediate marker, and the extra bit of the instruction.\<close>

definition re_imm_value :: "u8 \<Rightarrow> bool \<Rightarrow> u16" where
  "re_imm_value r i8 = (ucast r AND 0x1f) OR drop_bit 1 (ucast r AND 0xc0) OR (if i8 then 0x80 else 0)"

section \<open>Patching branches and immediates\<close>

lemmas asm_get = asm_field_masks [THEN FIELD_GET_mask]
lemmas asm_prep = asm_field_masks [THEN FIELD_PREP_mask]
lemmas asm_bit = asm_field_masks [THEN bit_field_mask]
lemmas asm_c64 = asm_field_masks [THEN c64_field_mask]

lemma br_addr_lo_max_eq: "br_addr_lo_max = 0x1fff"
  unfolding br_addr_lo_max_def asm_c64 by (simp add: OP_BR_ADDR_LO_def)

lemma and_mask13: "x AND 0x1fff = take_bit 13 (x :: 'a::len word)"
  by (simp add: take_bit_eq_mask mask_eq_exp_minus_1)

lemma FIELD_GET_br_set_offset:
  "FIELD_GET OP_BR_ADDR_LO (br_set_offset i off) = ucast (take_bit 13 off)"
  "FIELD_GET OP_BR_ADDR_HI (br_set_offset i off) = of_bool (take_bit 13 off \<noteq> off)"
proof -
  have lo: "ucast (take_bit 13 (ucast off :: u64)) = take_bit 13 off"
    by (rule bit_word_eqI) (auto simp: bit_simps)
  show "FIELD_GET OP_BR_ADDR_LO (br_set_offset i off) = ucast (take_bit 13 off)"
    unfolding br_set_offset_def Let_def br_addr_lo_max_eq and_mask13 lo
    by (rule bit_word_eqI) (auto simp: asm_get asm_prep asm_bit bit_simps)
  show "FIELD_GET OP_BR_ADDR_HI (br_set_offset i off) = of_bool (take_bit 13 off \<noteq> off)"
    unfolding br_set_offset_def Let_def br_addr_lo_max_eq and_mask13 lo
    by (rule bit_word_eqI) (auto simp: asm_get asm_prep asm_bit bit_simps even_drop_bit_iff_not_bit)
qed

lemma br_get_set:
  "br_get_offset (br_set_offset i off) =
     take_bit 13 off OR (if take_bit 13 off = off then 0 else 0x2000)"
proof -
  have "ucast (ucast (take_bit 13 off) :: u64) = take_bit 13 off"
    by (rule bit_word_eqI) (auto simp: bit_simps)
  then show ?thesis
    by (auto simp: br_get_offset_def FIELD_GET_br_set_offset br_addr_lo_max_eq Let_def or.commute
      unsigned_or_eq)
qed

lemma br_get_set_lt:
  assumes "off < 0x4000"
  shows "br_get_offset (br_set_offset i off) = off"
proof -
  have "\<not> bit off n" if "14 \<le> n" for n
    using word_less_exp_bit [of off 14 n] assms that by simp
  then show ?thesis
    unfolding br_get_set by (simp add: word_bits_eval bit_simps)
qed

text \<open>C34. Patching the target of a branch and reading it back gives the target, for every
  offset the 14 address bits can hold, and no bit outside the two address fields changes.\<close>

theorem br_set_offset_correct:
  assumes "off < 0x4000"
  shows "br_get_offset (br_set_offset i off) = off \<and>
    br_set_offset i off AND NOT (OP_BR_ADDR_HI OR OP_BR_ADDR_LO) = i AND NOT (OP_BR_ADDR_HI OR OP_BR_ADDR_LO)"
proof
  show "br_get_offset (br_set_offset i off) = off"
    using assms by (rule br_get_set_lt)
  show "br_set_offset i off AND NOT (OP_BR_ADDR_HI OR OP_BR_ADDR_LO) =
      i AND NOT (OP_BR_ADDR_HI OR OP_BR_ADDR_LO)"
    unfolding br_set_offset_def Let_def
    by (rule bit_word_eqI) (auto simp: asm_get asm_prep asm_bit bit_simps)
qed

theorem br_set_offset_correct_witness:
  "(0x2abc :: u16) < 0x4000 \<and> br_get_offset (br_set_offset OP_BR_BASE 0x2abc) = 0x2abc"
  using br_set_offset_correct [of "0x2abc" OP_BR_BASE] by simp

lemma unreg_is_imm_iff: "unreg_is_imm r \<longleftrightarrow> bit r 8 \<and> bit r 9"
  unfolding unreg_is_imm_def UR_REG_IMM_def by (simp add: word_bits_eval bit_simps)

lemma immed_can_modify_iff:
  "immed_can_modify i \<longleftrightarrow> \<not> bit i 29 \<and> \<not> bit i 30 \<and> \<not> bit i 31 \<and> \<not> bit i 33 \<and> \<not> bit i 34"
  unfolding immed_can_modify_def  immed_width_val.simps asm_get
  by (auto simp add: word_bits_eval bit_simps even_drop_bit_iff_not_bit)

text \<open>Patching the 16-bit value of an immed instruction that immed_can_modify
  accepts and reading it back gives the value; the instruction stays modifiable and nothing
  outside the two source operands and the immediate field changes.\<close>

theorem immed_set_value_correct:
  assumes "immed_can_modify i"
  shows "immed_get_value (immed_set_value i v) = v \<and> immed_can_modify (immed_set_value i v) \<and>
    immed_set_value i v AND NOT 0xfffffff = i AND NOT 0xfffffff"
proof (intro conjI)
  show "immed_get_value (immed_set_value i v) = v"
    using assms unfolding immed_get_value_def immed_set_value_def immed_can_modify_iff
      unreg_is_imm_iff asm_get asm_prep Let_def
    by (simp add: bit_simps asm_bit) (simp add: word_bits_eval bit_simps asm_bit)
  show "immed_can_modify (immed_set_value i v)"
    using assms unfolding immed_set_value_def immed_can_modify_iff unreg_is_imm_iff asm_prep Let_def
    by (simp add: bit_simps asm_bit)
  show "immed_set_value i v AND NOT 0xfffffff = i AND NOT 0xfffffff"
    unfolding immed_set_value_def unreg_is_imm_iff asm_prep Let_def
    by (simp add: word_bits_eval bit_simps asm_bit)
qed

theorem immed_set_value_correct_witness:
  "immed_can_modify OP_IMMED_BASE \<and> immed_get_value (immed_set_value OP_IMMED_BASE 0xbeef) = 0xbeef"
proof -
  have "immed_can_modify OP_IMMED_BASE"
    unfolding immed_can_modify_iff OP_IMMED_BASE_def by simp
  then show ?thesis using immed_set_value_correct [of OP_IMMED_BASE "0xbeef"] by simp
qed

section \<open>Operand encodings\<close>

lemma bit_swreg_value: "bit (swreg_value r) n \<longleftrightarrow> n < 8 \<and> bit r n"
  using FIELD_GET_mask [of NN_REG_VAL 7 0 "ucast r"]
  by (auto simp: swreg_value_def NN_REG_VAL_def field_mask_def bit_simps)

lemma small_fields: "field_mask UR_REG_LM_IDX 5 5" "field_mask RE_REG_LM_IDX 3 3" "field_mask UR_REG_LM_POST_MOD_DEC 0 0"
  by (simp_all add: operand_defs field_mask_eval)

lemma swreg_value_less: "swreg_value r < 0x100"
  using word_less_exp_iff [of 8 "swreg_value r"] by (simp add: bit_swreg_value)

lemma unreg_bound: "nfp_swreg_to_unreg r d < 0x400"
proof -
  have v: "swreg_value r < 0x400" using swreg_value_less [of r] by (rule less_trans) simp
  have o: "a < 0x400 \<Longrightarrow> b < 0x400 \<Longrightarrow> a OR b < 0x400" for a b :: u16
    using word_or_less_exp [of 10 a b] by simp
  have b: "ucast (push_bit 5 (take_bit (5 + 1 - 5) (of_bool c :: u64))) < (0x400 :: u16)"
    "ucast (push_bit 0 (take_bit (0 + 1 - 0) (of_bool c :: u64))) < (0x400 :: u16)" for c
    by (cases c; simp)+
  show ?thesis
    unfolding nfp_swreg_to_unreg_def Let_def small_fields [THEN FIELD_PREP_mask] UR_REG_IMM_encode_def
    by (intro if_less o v b) (simp_all add: operand_defs)
qed

lemma rereg_bound: "fst (nfp_swreg_to_rereg r d h i) < 0x100"
proof -
  note v = swreg_value_less [of r] 
  have o: "a < 0x100 \<Longrightarrow> b < 0x100 \<Longrightarrow> a OR b < 0x100" for a b :: u16
    using word_or_less_exp [of 8 a b] by simp
  have b: "ucast (push_bit 3 (take_bit (3 + 1 - 3) (of_bool c :: u64))) < (0x100 :: u16)" for c
    by (cases c; simp)
  have "x AND 0x1f = take_bit 5 x" "x AND 0x60 = push_bit 5 (take_bit 2 (drop_bit 5 x))" for x :: u16
    by (simp_all add: word_bits_eval bit_simps)
  then have m: "x AND 0x1f < 0x100" "push_bit 1 (x AND 0x60) < 0x100" for x :: u16
    using word_less_exp_iff [of 8 "x AND 0x1f"] word_less_exp_iff [of 8 "push_bit 1 (x AND 0x60)"] 
    by (auto simp add: bit_simps)
  show ?thesis
    unfolding nfp_swreg_to_rereg_def Let_def small_fields [THEN FIELD_PREP_mask] RE_REG_IMM_encode_def if_distrib [of fst] fst_conv
    by (intro if_less o v b m) (simp_all add: operand_defs)
qed

lemma swreg_fields:
  "field_mask NN_REG_TYPE 31 24" "field_mask NN_REG_LM_IDX 23 22" "field_mask NN_REG_LM_IDX_HI 23 23"
  "field_mask NN_REG_LM_IDX_LO 22 22" "field_mask NN_REG_LM_MOD 21 20" "field_mask NN_REG_VAL 7 0"
  by (simp_all add: field_mask_eval BIT_ULL_def NN_REG_TYPE_def NN_REG_LM_IDX_def NN_REG_LM_IDX_HI_def
    NN_REG_LM_IDX_LO_def NN_REG_LM_MOD_def NN_REG_VAL_def)

lemmas swreg_get = swreg_fields [THEN FIELD_GET_mask]

lemmas swreg_prep = swreg_fields [THEN FIELD_PREP_mask]

lemma swreg_type_enc [simp]:
  "ty < 0x100 \<Longrightarrow> swreg_type (enc_swreg v ty) = ty"
proof -
  assume "ty < 0x100"
  then have "\<not> bit ty n" if "8 \<le> n" for n
    using word_less_exp_bit [of ty 8 n] that by simp
  moreover have "\<not> bit v n" if "16 \<le> n" for n
    using that bit_imp_le_length [of v n] by auto
  ultimately show ?thesis
    unfolding swreg_type_def enc_swreg_def swreg_get swreg_prep
    by (simp add: word_bits_eval bit_simps)
qed

lemma swreg_value_enc [simp]: "swreg_value (enc_swreg v ty) = take_bit 8 v"
  unfolding swreg_value_def enc_swreg_def swreg_get swreg_prep
  by (simp add: word_bits_eval bit_simps)

lemma reg_imm_type [simp]: "swreg_type (reg_imm v) = NN_REG_IMM"
  by (simp add: reg_imm_def NN_REG_IMM_def)

text \<open>C35. Unrestricted operands: when the translation succeeds, the operands are placed so that
  no bank-B register is in the A source and no bank-A register is in the B source, each source
  holds the encoding of the operand the swap flag says, and all three encodings fit the 10-bit fields.\<close>

theorem swreg_to_unrestricted_banks:
  assumes "swreg_to_unrestricted dst lreg rreg = Inr reg"
  shows "\<exists>a b. (a, b) = (if ur_swap reg then (rreg, lreg) else (lreg, rreg)) \<and>
    swreg_type a \<noteq> NN_REG_GPR_B \<and> swreg_type b \<noteq> NN_REG_GPR_A \<and>
    ur_areg reg = nfp_swreg_to_unreg a False \<and> ur_breg reg = nfp_swreg_to_unreg b False \<and>
    ur_areg reg < 0x400 \<and> ur_breg reg < 0x400 \<and> ur_dst reg < 0x400"
  using assms
  by (auto simp: swreg_to_unrestricted_def Let_def unreg_bound swreg_type_defs split: if_splits)

theorem swreg_to_unrestricted_banks_witness:
  "\<exists>reg. swreg_to_unrestricted (reg_a 3) (reg_b 4) (reg_a 5) = Inr reg \<and> ur_areg reg < 0x400"
proof -
  have "\<exists>reg. swreg_to_unrestricted (reg_a 3) (reg_b 4) (reg_a 5) = Inr reg"
    by (simp add: swreg_to_unrestricted_def reg_a_def reg_b_def swreg_type_defs)
  with swreg_to_unrestricted_banks [of "reg_a 3" "reg_b 4" "reg_a 5"] show ?thesis by blast
qed

lemma rereg_imm:
  assumes "v < (if h then 0x100 else 0x80)"
  shows "nfp_swreg_to_rereg (reg_imm v) False h i = (RE_REG_IMM_encode (v AND 0x7f), v AND 0x80 \<noteq> 0)"
proof -
  have lt: "v < 0x100" using assms by (auto simp: word_less_nat_alt split: if_splits)
  have hi: "\<not> bit v n" if "8 \<le> n" for n
    using word_less_exp_bit [of v 8 n] lt that by simp
  have hi7: "\<not> h \<Longrightarrow> \<not> bit v n" if "7 \<le> n" for n
    using word_less_exp_bit [of v 7 n] assms that by simp
  have val: "swreg_value (reg_imm v) = v"
    using hi by (simp add: reg_imm_def take_bit_self_iff)
  have fit: "v AND NOT (0x7f OR push_bit 7 (of_bool h)) = 0"
    using hi hi7 by (cases h) (simp_all add: word_bits_eval bit_simps)
  show ?thesis
    unfolding nfp_swreg_to_rereg_def Let_def reg_imm_type val fit by (simp add: swreg_type_defs)
qed

lemma re_imm_value_encode:
  assumes "v < 0x100"
  shows "re_imm_value (ucast (RE_REG_IMM_encode (v AND 0x7f))) (v AND 0x80 \<noteq> 0) = v"
proof -
  have "\<not> bit v n" if "8 \<le> n" for n
    using word_less_exp_bit [of v 8 n] assms that by simp
  then show ?thesis
    unfolding re_imm_value_def RE_REG_IMM_encode_def RE_REG_IMM_def
    by (simp add: word_bits_eval bit_simps bit_times2)
qed

lemma rereg_not_imm:
  assumes "swreg_type r \<noteq> NN_REG_IMM"
  shows "\<exists>x. \<forall>i. nfp_swreg_to_rereg r d h i = (x, i)"
proof -
  have "nfp_swreg_to_rereg r d h i = (fst (nfp_swreg_to_rereg r d h False), i)" for i
    using assms by (simp add: nfp_swreg_to_rereg_def Let_def)
  then show ?thesis by blast
qed

text \<open>Restricted operands: an immediate right operand of up to 7 bits, or 8 bits where the
  instruction takes them, is encoded without loss: the operand field the swap flag says, together
  with the extra immediate bit, decodes to the immediate.\<close>

theorem swreg_to_restricted_imm:
  assumes "swreg_to_restricted dst lreg (reg_imm v) h = Inr reg" "v < (if h then 0x100 else 0x80)"
  shows "re_imm_value (if re_swap reg then re_areg reg else re_breg reg) (re_i8 reg) = v"
proof -
  have lt: "v < 0x100" using assms(2) by (auto simp: word_less_nat_alt split: if_splits)
  have "swreg_type lreg \<noteq> NN_REG_IMM"
    using assms(1) by (auto simp: swreg_to_restricted_def swreg_type_defs split: if_splits)
  then obtain x where x: "\<And>i. nfp_swreg_to_rereg lreg False h i = (x, i)"
    using rereg_not_imm by blast
  from assms(1) show ?thesis
    by (cases "swreg_type lreg = NN_REG_GPR_B")
      (auto simp: swreg_to_restricted_def Let_def x rereg_imm [OF assms(2)] re_imm_value_encode [OF lt]
         split: if_splits)
qed

theorem swreg_to_restricted_imm_witness:
  "\<exists>reg. swreg_to_restricted (reg_a 1) (reg_b 2) (reg_imm 0xc5) True = Inr reg \<and>
     re_imm_value (if re_swap reg then re_areg reg else re_breg reg) (re_i8 reg) = 0xc5"
proof -
  have "\<exists>reg. swreg_to_restricted (reg_a 1) (reg_b 2) (reg_imm 0xc5) True = Inr reg"
    by (simp add: swreg_to_restricted_def Let_def reg_a_def reg_b_def rereg_imm swreg_type_defs
      split: prod.split)
  then obtain reg where "swreg_to_restricted (reg_a 1) (reg_b 2) (reg_imm 0xc5) True = Inr reg" ..
  with swreg_to_restricted_imm [OF this] show ?thesis by auto
qed

section \<open>The ECC is a distance four code\<close>

lemma hweight64_card: "hweight64 v = card {i. i < 64 \<and> bit v i}"
proof -
  have "hweight64 v = (\<Sum>i\<in>{0..<64}. of_bool (bit v i))"
    unfolding hweight64_def interv_sum_list_conv_sum_set_nat set_upt ..
  also have "\<dots> = card ({0..<64} \<inter> {i. bit v i})" by (simp add: sum_of_bool_eq)
  finally show ?thesis by (simp add: Int_def Collect_conj_eq[symmetric] conj_commute)
qed

lemma parity_sum_xor:
  "odd (\<Sum>i\<leftarrow>xs. of_bool (P i \<noteq> Q i) :: nat) \<longleftrightarrow>
     odd (\<Sum>i\<leftarrow>xs. of_bool (P i) :: nat) \<noteq> odd (\<Sum>i\<leftarrow>xs. of_bool (Q i) :: nat)"
  by (induction xs) auto

lemma parity_xor: "parity (a XOR b) \<longleftrightarrow> parity a \<noteq> parity b"
  unfolding parity_def hweight64_def bit_xor_iff by (rule parity_sum_xor)

lemma parity_0 [simp]: "\<not> parity 0"
  by (simp add: parity_def hweight64_def)

lemma parity_and_exp:
  assumes "i < 64" shows "parity (p AND 2 ^ i) \<longleftrightarrow> bit p i"
proof -
  have "{k. k < 64 \<and> bit (p AND 2 ^ i) k} = (if bit p i then {i} else {})"
    using assms by (auto simp: bit_simps)
  then show ?thesis by (simp add: parity_def hweight64_card)
qed

lemma bit_ustore_ecc:
  "bit (ustore_ecc insn i ps ecc) n \<longleftrightarrow>
     bit ecc n \<or> (i \<le> n \<and> n < i + length ps \<and> n < 8 \<and> parity (ps ! (n - i) AND insn))"
proof (induction ps arbitrary: i ecc)
  case (Cons p ps)
  show ?case
    unfolding ustore_ecc.simps Cons.IH
    by (cases "n = i") (auto simp: bit_simps nth_Cons' Suc_le_eq le_less)
qed auto

lemma polynomials_simps:
  "length nfp_ustore_ecc_polynomials = 7"
  "foldr (XOR) nfp_ustore_ecc_polynomials 0 = mask 45"
  "list_all (\<lambda>i. (\<Sum>p\<leftarrow>nfp_ustore_ecc_polynomials. of_bool (bit p i)) \<ge> (3::nat)) [0..<45]"
  "distinct (map (\<lambda>i. map (\<lambda>p. bit p i) nfp_ustore_ecc_polynomials) [0..<45])"
  by code_simp+

lemma bit_calc_ecc:
  "bit (nfp_ustore_calc_ecc_insn insn) n \<longleftrightarrow>
     bit insn n \<or> (45 \<le> n \<and> n < 52 \<and> parity (nfp_ustore_ecc_polynomials ! (n - 45) AND insn))"
  unfolding nfp_ustore_calc_ecc_insn_def NFP_USTORE_OP_BITS_def
  by (auto simp: bit_simps bit_ustore_ecc polynomials_simps)

lemma calc_ecc_xor:
  assumes "a < 2 ^ 45" "b < 2 ^ 45"
  shows "nfp_ustore_calc_ecc_insn a XOR nfp_ustore_calc_ecc_insn b = nfp_ustore_calc_ecc_insn (a XOR b)"
proof (rule bit_word_eqI)
  fix n assume "n < LENGTH(64)"
  have "n \<ge> 45 \<Longrightarrow> \<not> bit a n \<and> \<not> bit b n"
    using assms word_less_exp_bit [of a 45 n] word_less_exp_bit [of b 45 n] by simp
  then show "bit (nfp_ustore_calc_ecc_insn a XOR nfp_ustore_calc_ecc_insn b) n =
      bit (nfp_ustore_calc_ecc_insn (a XOR b)) n"
    by (auto simp: bit_xor_iff bit_calc_ecc bit.conj_xor_distrib parity_xor)
qed

lemma foldr_xor_parity:
  "parity (foldr (XOR) ps 0 AND d) \<longleftrightarrow> odd (\<Sum>p\<leftarrow>ps. of_bool (parity (p AND d)) :: nat)"
  by (induction ps) (auto simp: bit.conj_xor_distrib2 parity_xor)

lemma hweight64_calc_ecc:
  assumes "d < 2 ^ 45"
  shows "hweight64 (nfp_ustore_calc_ecc_insn d) =
    hweight64 d + (\<Sum>p\<leftarrow>nfp_ustore_ecc_polynomials. of_bool (parity (p AND d)))"
proof -
  have hi: "n \<ge> 45 \<Longrightarrow> \<not> bit d n" for n
    using assms word_less_exp_bit [of d 45 n] by simp
  show ?thesis
    unfolding hweight64_def upt_64
    by (simp add: bit_calc_ecc hi nfp_ustore_ecc_polynomials_def)
qed

lemma hweight64_1: assumes "hweight64 d = 1" obtains i where "i < 64" "d = 2 ^ i"
proof -
  obtain i where i: "{k. k < 64 \<and> bit d k} = {i}"
    using assms unfolding hweight64_card by (rule card_1_singletonE)
  then have lt: "i < 64" by blast
  have "bit d n \<longleftrightarrow> n = i" if "n < 64" for n
    using i that by blast
  then have "d = 2 ^ i" by (intro bit_word_eqI) (auto simp: bit_simps)
  with lt show thesis by (rule that)
qed

lemma hweight64_2: assumes "hweight64 d = 2" obtains i j where "i < 64" "j < 64" "i \<noteq> j" "d = 2 ^ i XOR 2 ^ j"
proof -
  obtain i j where ij: "{k. k < 64 \<and> bit d k} = {i, j}" "i \<noteq> j"
    using assms unfolding hweight64_card card_2_iff by blast
  then have lt: "i < 64" "j < 64" by blast+
  have "bit d n \<longleftrightarrow> n = i \<or> n = j" if "n < 64" for n
    using ij(1) that by blast
  with ij(2) lt have "d = 2 ^ i XOR 2 ^ j"
    by (intro bit_word_eqI) (auto simp: bit_simps)
  with lt ij(2) show thesis by (rule that)
qed

lemma less_exp45: "(w :: u64) < 2 ^ 45 \<longleftrightarrow> (\<forall>i\<ge>45. \<not> bit w i)"
  by (rule word_less_exp_iff) simp

lemma calc_ecc_weight:
  assumes d: "d < 2 ^ 45" "d \<noteq> 0"
  shows "4 \<le> hweight64 (nfp_ustore_calc_ecc_insn d)"
proof -
  let ?s = "\<Sum>p\<leftarrow>nfp_ustore_ecc_polynomials. of_bool (parity (p AND d)) :: nat"
  have w: "hweight64 (nfp_ustore_calc_ecc_insn d) = hweight64 d + ?s"
    by (rule hweight64_calc_ecc [OF d(1)])
  have "mask 45 AND d = d" using word_less_exp_take [OF d(1)] by (simp add: take_bit_eq_mask and.commute)
  then have "odd ?s \<longleftrightarrow> odd (hweight64 d)"
    using foldr_xor_parity [of nfp_ustore_ecc_polynomials d] by (simp add: polynomials_simps parity_def)
  moreover have "hweight64 d \<noteq> 0"
    using d(2) by (auto simp: hweight64_card intro: bit_word_eqI)
  moreover have "3 \<le> ?s" if "hweight64 d = 1"
  proof -
    from that obtain i where i: "i < 64" "d = 2 ^ i" by (rule hweight64_1)
    then have "i < 45" using word_less_exp_bit [OF d(1), of i] by (auto simp: bit_simps not_less [symmetric])
    then show ?thesis using polynomials_simps(3) i by (simp add: list_all_iff parity_and_exp)
  qed
  moreover have "?s \<noteq> 0" if "hweight64 d = 2"
  proof 
    assume z: "?s = 0"
    from that obtain i j where ij: "i < 64" "j < 64" "i \<noteq> j" "d = 2 ^ i XOR 2 ^ j" by (rule hweight64_2)
    have "i < 45" "j < 45"
      using ij word_less_exp_bit [OF d(1), of i]  word_less_exp_bit [OF d(1), of j]
      by (auto simp: bit_simps not_less [symmetric])
    moreover have "map (\<lambda>p. bit p i) nfp_ustore_ecc_polynomials = map (\<lambda>p. bit p j) nfp_ustore_ecc_polynomials"
      using z ij by (auto simp: sum_list_eq_0_iff bit.conj_xor_distrib parity_xor parity_and_exp)
    ultimately show False
      using polynomials_simps(4) ij(3) by (auto simp: distinct_map inj_on_def)
  qed
  ultimately show ?thesis unfolding w by presburger
qed

text \<open>C21. The seven check bits make the instruction store a distance four code: the stored words
  of two different 45-bit instructions differ in at least four bits, so that any single bit error
  can be corrected and any double bit error detected.\<close>

theorem calc_ecc_distance:
  assumes "a < 2 ^ 45" "b < 2 ^ 45" "a \<noteq> b"
  shows "4 \<le> hweight64 (nfp_ustore_calc_ecc_insn a XOR nfp_ustore_calc_ecc_insn b)"
  unfolding calc_ecc_xor [OF assms(1,2)]
proof (rule calc_ecc_weight)
  show "a XOR b < 2 ^ 45"
    using assms(1,2) unfolding less_exp45 by (simp add: bit_simps)
  show "a XOR b \<noteq> 0"
  proof
    assume "a XOR b = 0"
    then have "bit a n = bit b n" for n using bit_xor_iff [of a b n] by simp
    with assms(3) show False by (simp add: bit_eq_iff)
  qed
qed

theorem calc_ecc_distance_witness:
  "OP_BR_BASE < 2 ^ 45 \<and> OP_IMMED_BASE < 2 ^ 45 \<and>
    4 \<le> hweight64 (nfp_ustore_calc_ecc_insn OP_BR_BASE XOR nfp_ustore_calc_ecc_insn OP_IMMED_BASE)"
  using calc_ecc_distance [of OP_BR_BASE OP_IMMED_BASE] by (simp add: OP_BR_BASE_def OP_IMMED_BASE_def)

text \<open>The validity check accepts exactly the words of 46 bits, one more than an instruction
  has; so two different accepted words can get the same stored word, as the extra bit falls on
  the first check bit.\<close>

theorem check_valid_no_ecc_iff:
  "(nfp_ustore_check_valid_no_ecc insn = Inr () \<longleftrightarrow> insn < 2 ^ 46) \<and>
   nfp_ustore_calc_ecc_insn 1 = nfp_ustore_calc_ecc_insn (1 OR 2 ^ 45)"
proof
  have m: "bit (NOT (GENMASK_ULL NFP_USTORE_OP_BITS 0)) i \<longleftrightarrow> 46 \<le> i \<and> i < 64" for i
    by (auto simp: NFP_USTORE_OP_BITS_def GENMASK_ULL_def bit_simps)
  have "insn AND NOT (GENMASK_ULL NFP_USTORE_OP_BITS 0) = 0 \<longleftrightarrow> (\<forall>i\<ge>46. \<not> bit insn i)"
    unfolding bit_eq_iff bit_and_iff m using bit_imp_le_length [of insn] by auto
  also have "\<dots> \<longleftrightarrow> insn < 2 ^ 46"
    by (rule word_less_exp_iff [symmetric]) simp
  finally show "nfp_ustore_check_valid_no_ecc insn = Inr () \<longleftrightarrow> insn < 2 ^ 46"
    by (simp add: nfp_ustore_check_valid_no_ecc_def)
  show "nfp_ustore_calc_ecc_insn 1 = nfp_ustore_calc_ecc_insn (1 OR 2 ^ 45)"
    by code_simp
qed

end
