(* ===== verification/NFP_Emit.thy ===== *)
theory NFP_Emit
  imports NFP_Asm
begin

text \<open>
  The instruction emitters of the BPF just-in-time compiler (\<^verbatim>\<open>src/bpf/jit.c\<close>): a program
  buffer of fixed capacity with a sticky error, one emitter per instruction format, the wrappers
  that load immediates and move register parts, and the relocation of a finished program for a
  vNIC (\<open>nfp_bpf_relo_for_vnic\<close>) with the ECC pass over the result.  The program is the list
  of the instructions emitted so far, \<open>prog_len\<close> being its length; an access outside the buffer is
  recorded in the flag \<open>prog_oob\<close>.
\<close>

section \<open>Enumerations\<close>

datatype br_mask = BR_BEQ | BR_BNE | BR_BMI | BR_BHS | BR_BCC | BR_BGE | BR_BLT | BR_UNC

abbreviation BR_BLO :: br_mask where "BR_BLO \<equiv> BR_BCC"

primrec br_mask_val :: "br_mask \<Rightarrow> u64" where
  "br_mask_val BR_BEQ = 0x00"
| "br_mask_val BR_BNE = 0x01"
| "br_mask_val BR_BMI = 0x02"
| "br_mask_val BR_BHS = 0x04"
| "br_mask_val BR_BCC = 0x05"
| "br_mask_val BR_BGE = 0x08"
| "br_mask_val BR_BLT = 0x09"
| "br_mask_val BR_UNC = 0x18"

datatype br_ev_pip = BR_EV_PIP_UNCOND | BR_EV_PIP_COND

primrec br_ev_pip_val :: "br_ev_pip \<Rightarrow> u64" where
  "br_ev_pip_val BR_EV_PIP_UNCOND = 0"
| "br_ev_pip_val BR_EV_PIP_COND = 1"

datatype br_ctx_signal_state = BR_CSS_NONE

primrec br_css_val :: "br_ctx_signal_state \<Rightarrow> u64" where
  "br_css_val BR_CSS_NONE = 2"

datatype shf_op = SHF_OP_NONE | SHF_OP_AND | SHF_OP_OR | SHF_OP_ASHR

primrec shf_op_val :: "shf_op \<Rightarrow> u64" where
  "shf_op_val SHF_OP_NONE = 0"
| "shf_op_val SHF_OP_AND = 2"
| "shf_op_val SHF_OP_OR = 5"
| "shf_op_val SHF_OP_ASHR = 6"

datatype shf_sc = SHF_SC_R_ROT | SHF_SC_R_SHF | SHF_SC_L_SHF | SHF_SC_R_DSHF

abbreviation SHF_SC_NONE :: shf_sc where "SHF_SC_NONE \<equiv> SHF_SC_R_ROT"

primrec shf_sc_val :: "shf_sc \<Rightarrow> u64" where
  "shf_sc_val SHF_SC_R_ROT = 0"
| "shf_sc_val SHF_SC_R_SHF = 1"
| "shf_sc_val SHF_SC_L_SHF = 2"
| "shf_sc_val SHF_SC_R_DSHF = 3"

datatype alu_op = ALU_OP_NONE | ALU_OP_ADD | ALU_OP_NOT | ALU_OP_ADD_2B | ALU_OP_AND
  | ALU_OP_AND_NOT_A | ALU_OP_SUB_C | ALU_OP_AND_NOT_B | ALU_OP_ADD_C | ALU_OP_OR
  | ALU_OP_SUB | ALU_OP_XOR

primrec alu_op_val :: "alu_op \<Rightarrow> u64" where
  "alu_op_val ALU_OP_NONE = 0x00"
| "alu_op_val ALU_OP_ADD = 0x01"
| "alu_op_val ALU_OP_NOT = 0x04"
| "alu_op_val ALU_OP_ADD_2B = 0x05"
| "alu_op_val ALU_OP_AND = 0x08"
| "alu_op_val ALU_OP_AND_NOT_A = 0x0c"
| "alu_op_val ALU_OP_SUB_C = 0x0d"
| "alu_op_val ALU_OP_AND_NOT_B = 0x10"
| "alu_op_val ALU_OP_ADD_C = 0x11"
| "alu_op_val ALU_OP_OR = 0x14"
| "alu_op_val ALU_OP_SUB = 0x15"
| "alu_op_val ALU_OP_XOR = 0x18"

datatype cmd_tgt_map = CMD_TGT_READ8 | CMD_TGT_WRITE8_SWAP | CMD_TGT_WRITE32_SWAP
  | CMD_TGT_READ32 | CMD_TGT_READ32_LE | CMD_TGT_READ32_SWAP | CMD_TGT_READ_LE
  | CMD_TGT_READ_SWAP_LE | CMD_TGT_ADD | CMD_TGT_ADD_IMM

text \<open>The pair of \<open>token\<close> and \<open>tgt_cmd\<close> of each command.\<close>

primrec cmd_tgt_act :: "cmd_tgt_map \<Rightarrow> u8 \<times> u8" where
  "cmd_tgt_act CMD_TGT_WRITE8_SWAP = (0x02, 0x42)"
| "cmd_tgt_act CMD_TGT_WRITE32_SWAP = (0x02, 0x5f)"
| "cmd_tgt_act CMD_TGT_READ8 = (0x01, 0x43)"
| "cmd_tgt_act CMD_TGT_READ32 = (0x00, 0x5c)"
| "cmd_tgt_act CMD_TGT_READ32_LE = (0x01, 0x5c)"
| "cmd_tgt_act CMD_TGT_READ32_SWAP = (0x02, 0x5c)"
| "cmd_tgt_act CMD_TGT_READ_LE = (0x01, 0x40)"
| "cmd_tgt_act CMD_TGT_READ_SWAP_LE = (0x03, 0x40)"
| "cmd_tgt_act CMD_TGT_ADD = (0x00, 0x47)"
| "cmd_tgt_act CMD_TGT_ADD_IMM = (0x02, 0x47)"

datatype cmd_ctx_swap = CMD_CTX_SWAP | CMD_CTX_SWAP_DEFER1 | CMD_CTX_SWAP_DEFER2 | CMD_CTX_NO_SWAP

primrec cmd_ctx_val :: "cmd_ctx_swap \<Rightarrow> u64" where
  "cmd_ctx_val CMD_CTX_SWAP = 0"
| "cmd_ctx_val CMD_CTX_SWAP_DEFER1 = 1"
| "cmd_ctx_val CMD_CTX_SWAP_DEFER2 = 2"
| "cmd_ctx_val CMD_CTX_NO_SWAP = 3"

datatype mul_type = MUL_TYPE_START | MUL_TYPE_STEP_24x8 | MUL_TYPE_STEP_16x16 | MUL_TYPE_STEP_32x32

primrec mul_type_val :: "mul_type \<Rightarrow> u64" where
  "mul_type_val MUL_TYPE_START = 0x00"
| "mul_type_val MUL_TYPE_STEP_24x8 = 0x01"
| "mul_type_val MUL_TYPE_STEP_16x16 = 0x02"
| "mul_type_val MUL_TYPE_STEP_32x32 = 0x03"

datatype mul_step = MUL_STEP_1 | MUL_STEP_2 | MUL_STEP_3 | MUL_STEP_4 | MUL_LAST | MUL_LAST_2

abbreviation MUL_STEP_NONE :: mul_step where "MUL_STEP_NONE \<equiv> MUL_STEP_1"

primrec mul_step_val :: "mul_step \<Rightarrow> u64" where
  "mul_step_val MUL_STEP_1 = 0x00"
| "mul_step_val MUL_STEP_2 = 0x01"
| "mul_step_val MUL_STEP_3 = 0x02"
| "mul_step_val MUL_STEP_4 = 0x03"
| "mul_step_val MUL_LAST = 0x04"
| "mul_step_val MUL_LAST_2 = 0x05"

definition OP_RELO_TYPE :: u64 where "OP_RELO_TYPE = 0xff00000000000000"

datatype nfp_relo_type = RELO_NONE | RELO_BR_REL | RELO_BR_GO_OUT | RELO_BR_GO_ABORT
  | RELO_BR_GO_CALL_PUSH_REGS | RELO_BR_GO_CALL_POP_REGS | RELO_BR_NEXT_PKT | RELO_BR_HELPER
  | RELO_IMMED_REL

primrec nfp_relo_type_val :: "nfp_relo_type \<Rightarrow> u64" where
  "nfp_relo_type_val RELO_NONE = 0"
| "nfp_relo_type_val RELO_BR_REL = 1"
| "nfp_relo_type_val RELO_BR_GO_OUT = 2"
| "nfp_relo_type_val RELO_BR_GO_ABORT = 3"
| "nfp_relo_type_val RELO_BR_GO_CALL_PUSH_REGS = 4"
| "nfp_relo_type_val RELO_BR_GO_CALL_POP_REGS = 5"
| "nfp_relo_type_val RELO_BR_NEXT_PKT = 6"
| "nfp_relo_type_val RELO_BR_HELPER = 7"
| "nfp_relo_type_val RELO_IMMED_REL = 8"

definition BR_OFF_RELO :: u32 where "BR_OFF_RELO = 15000"

definition STATIC_REG_IMM :: u16 where "STATIC_REG_IMM = 21"

definition imm_a :: swreg where "imm_a = reg_a STATIC_REG_IMM"

definition imm_b :: swreg where "imm_b = reg_b STATIC_REG_IMM"

section \<open>The program buffer\<close>

text \<open>The fields of \<open>struct nfp_prog\<close> the emitters and the relocation use; the helper addresses
  are those of \<open>nfp_prog->bpf->helpers\<close>.\<close>

record nfp_prog =
  prog :: "u64 list"
  prog_alloc_len :: u32
  tgt_out :: u32
  tgt_abort :: u32
  tgt_call_push_regs :: u32
  tgt_call_pop_regs :: u32
  np_error :: "errno option"
  helpers_map_lookup :: u32
  helpers_map_update :: u32
  helpers_map_delete :: u32
  helpers_perf_event_output :: u32
  prog_oob :: bool

definition prog_set_error :: "nfp_prog \<Rightarrow> errno \<Rightarrow> nfp_prog" where
  "prog_set_error np e = np\<lparr> np_error := Some e \<rparr>"

definition nfp_prog_push :: "nfp_prog \<Rightarrow> u64 \<Rightarrow> nfp_prog" where
  "nfp_prog_push np insn =
     (if unat (prog_alloc_len np) div 8 = length (prog np) then prog_set_error np ENOSPC
      else np\<lparr> prog := prog np @ [insn] \<rparr>)"

definition nfp_prog_current_offset :: "nfp_prog \<Rightarrow> nat" where
  "nfp_prog_current_offset np = length (prog np)"

definition nfp_prog_confirm_current_offset :: "nfp_prog \<Rightarrow> nat \<Rightarrow> bool" where
  "nfp_prog_confirm_current_offset np off \<longleftrightarrow>
     (if np_error np \<noteq> None then True else nfp_prog_current_offset np = off)"

text \<open>The statement \<open>prog[prog_len - 1] |= v\<close>.\<close>

definition prog_or_last :: "nfp_prog \<Rightarrow> u64 \<Rightarrow> nfp_prog" where
  "prog_or_last np v =
     (if prog np = [] then np\<lparr> prog_oob := True \<rparr>
      else np\<lparr> prog := butlast (prog np) @ [last (prog np) OR v] \<rparr>)"

section \<open>Emitters\<close>

definition raw_emit_cmd ::
  "nfp_prog \<Rightarrow> cmd_tgt_map \<Rightarrow> u8 \<Rightarrow> u8 \<Rightarrow> u8 \<Rightarrow> u8 \<Rightarrow> u8 \<Rightarrow> cmd_ctx_swap \<Rightarrow> bool \<Rightarrow> nfp_prog" where
  "raw_emit_cmd np op mode xfer areg breg sz ctx indir =
     nfp_prog_push np
       (FIELD_PREP OP_CMD_A_SRC (ucast areg) OR
        FIELD_PREP OP_CMD_CTX (cmd_ctx_val ctx) OR
        FIELD_PREP OP_CMD_B_SRC (ucast breg) OR
        FIELD_PREP OP_CMD_TOKEN (ucast (fst (cmd_tgt_act op))) OR
        FIELD_PREP OP_CMD_XFER (ucast xfer) OR
        FIELD_PREP OP_CMD_CNT (ucast sz) OR
        FIELD_PREP OP_CMD_SIG (of_bool (ctx \<noteq> CMD_CTX_NO_SWAP)) OR
        FIELD_PREP OP_CMD_TGT_CMD (ucast (snd (cmd_tgt_act op))) OR
        FIELD_PREP OP_CMD_INDIR (of_bool indir) OR
        FIELD_PREP OP_CMD_MODE (ucast mode))"

definition emit_cmd_any ::
  "nfp_prog \<Rightarrow> cmd_tgt_map \<Rightarrow> u8 \<Rightarrow> u8 \<Rightarrow> swreg \<Rightarrow> swreg \<Rightarrow> u8 \<Rightarrow> cmd_ctx_swap \<Rightarrow> bool \<Rightarrow> nfp_prog" where
  "emit_cmd_any np op mode xfer lreg rreg sz ctx indir =
     (case swreg_to_restricted reg_none lreg rreg False of
        Inl err \<Rightarrow> prog_set_error np err
      | Inr reg \<Rightarrow>
          if re_swap reg then prog_set_error np EFAULT
          else if re_dst_lmextn reg \<or> re_src_lmextn reg then prog_set_error np EFAULT
          else raw_emit_cmd np op mode xfer (re_areg reg) (re_breg reg) sz ctx indir)"

definition emit_cmd ::
  "nfp_prog \<Rightarrow> cmd_tgt_map \<Rightarrow> u8 \<Rightarrow> u8 \<Rightarrow> swreg \<Rightarrow> swreg \<Rightarrow> u8 \<Rightarrow> cmd_ctx_swap \<Rightarrow> nfp_prog" where
  "emit_cmd np op mode xfer lreg rreg sz ctx = emit_cmd_any np op mode xfer lreg rreg sz ctx False"

definition emit_cmd_indir ::
  "nfp_prog \<Rightarrow> cmd_tgt_map \<Rightarrow> u8 \<Rightarrow> u8 \<Rightarrow> swreg \<Rightarrow> swreg \<Rightarrow> u8 \<Rightarrow> cmd_ctx_swap \<Rightarrow> nfp_prog" where
  "emit_cmd_indir np op mode xfer lreg rreg sz ctx = emit_cmd_any np op mode xfer lreg rreg sz ctx True"

definition br_insn ::
  "br_mask \<Rightarrow> br_ev_pip \<Rightarrow> br_ctx_signal_state \<Rightarrow> u16 \<Rightarrow> u8 \<Rightarrow> u64" where
  "br_insn msk ev_pip css addr defr =
     (let addr_lo = ucast ((ucast addr :: u64) AND br_addr_lo_max) :: u16;
          addr_hi = of_bool (addr \<noteq> addr_lo) :: u64 in
      OP_BR_BASE OR
      FIELD_PREP OP_BR_MASK (br_mask_val msk) OR
      FIELD_PREP OP_BR_EV_PIP (br_ev_pip_val ev_pip) OR
      FIELD_PREP OP_BR_CSS (br_css_val css) OR
      FIELD_PREP OP_BR_DEFBR (ucast defr) OR
      FIELD_PREP OP_BR_ADDR_LO (ucast addr_lo) OR
      FIELD_PREP OP_BR_ADDR_HI addr_hi)"

definition raw_emit_br ::
  "nfp_prog \<Rightarrow> br_mask \<Rightarrow> br_ev_pip \<Rightarrow> br_ctx_signal_state \<Rightarrow> u16 \<Rightarrow> u8 \<Rightarrow> nfp_prog" where
  "raw_emit_br np msk ev_pip css addr defr = nfp_prog_push np (br_insn msk ev_pip css addr defr)"

definition emit_br_relo :: "nfp_prog \<Rightarrow> br_mask \<Rightarrow> u16 \<Rightarrow> u8 \<Rightarrow> nfp_relo_type \<Rightarrow> nfp_prog" where
  "emit_br_relo np msk addr defr relo =
     (if msk = BR_UNC \<and> defr > 2 then prog_set_error np EFAULT
      else
        prog_or_last
          (raw_emit_br np msk (if msk \<noteq> BR_UNC then BR_EV_PIP_COND else BR_EV_PIP_UNCOND)
             BR_CSS_NONE addr defr)
          (FIELD_PREP OP_RELO_TYPE (nfp_relo_type_val relo)))"

definition emit_br :: "nfp_prog \<Rightarrow> br_mask \<Rightarrow> u16 \<Rightarrow> u8 \<Rightarrow> nfp_prog" where
  "emit_br np msk addr defr = emit_br_relo np msk addr defr RELO_BR_REL"

definition br_bit_insn :: "u16 \<Rightarrow> u16 \<Rightarrow> u16 \<Rightarrow> u8 \<Rightarrow> bool \<Rightarrow> bool \<Rightarrow> u64" where
  "br_bit_insn areg breg addr defr st src_lmextn =
     (let addr_lo = ucast ((ucast addr :: u64) AND br_addr_lo_max) :: u16;
          addr_hi = of_bool (addr \<noteq> addr_lo) :: u64 in
      OP_BR_BIT_BASE OR
      FIELD_PREP OP_BR_BIT_A_SRC (ucast areg) OR
      FIELD_PREP OP_BR_BIT_B_SRC (ucast breg) OR
      FIELD_PREP OP_BR_BIT_BV (of_bool st) OR
      FIELD_PREP OP_BR_BIT_DEFBR (ucast defr) OR
      FIELD_PREP OP_BR_BIT_ADDR_LO (ucast addr_lo) OR
      FIELD_PREP OP_BR_BIT_ADDR_HI addr_hi OR
      FIELD_PREP OP_BR_BIT_SRC_LMEXTN (of_bool src_lmextn))"

definition raw_emit_br_bit :: "nfp_prog \<Rightarrow> u16 \<Rightarrow> u16 \<Rightarrow> u16 \<Rightarrow> u8 \<Rightarrow> bool \<Rightarrow> bool \<Rightarrow> nfp_prog" where
  "raw_emit_br_bit np areg breg addr defr st src_lmextn =
     nfp_prog_push np (br_bit_insn areg breg addr defr st src_lmextn)"

definition emit_br_bit_relo ::
  "nfp_prog \<Rightarrow> swreg \<Rightarrow> u8 \<Rightarrow> u16 \<Rightarrow> u8 \<Rightarrow> bool \<Rightarrow> nfp_relo_type \<Rightarrow> nfp_prog" where
  "emit_br_bit_relo np src b addr defr st relo =
     (case swreg_to_restricted reg_none src (reg_imm (ucast (b + 1))) False of
        Inl err \<Rightarrow> prog_set_error np err
      | Inr reg \<Rightarrow>
          prog_or_last
            (raw_emit_br_bit np (ucast (re_areg reg)) (ucast (re_breg reg)) addr defr st
               (re_src_lmextn reg))
            (FIELD_PREP OP_RELO_TYPE (nfp_relo_type_val relo)))"

definition emit_br_bset :: "nfp_prog \<Rightarrow> swreg \<Rightarrow> u8 \<Rightarrow> u16 \<Rightarrow> u8 \<Rightarrow> nfp_prog" where
  "emit_br_bset np src b addr defr = emit_br_bit_relo np src b addr defr True RELO_BR_REL"

definition raw_emit_br_alu :: "nfp_prog \<Rightarrow> u16 \<Rightarrow> u16 \<Rightarrow> u16 \<Rightarrow> u8 \<Rightarrow> bool \<Rightarrow> bool \<Rightarrow> nfp_prog" where
  "raw_emit_br_alu np areg breg imm_hi defr dst_lmextn src_lmextn =
     nfp_prog_push np
       (OP_BR_ALU_BASE OR
        FIELD_PREP OP_BR_ALU_A_SRC (ucast areg) OR
        FIELD_PREP OP_BR_ALU_B_SRC (ucast breg) OR
        FIELD_PREP OP_BR_ALU_DEFBR (ucast defr) OR
        FIELD_PREP OP_BR_ALU_IMM_HI (ucast imm_hi) OR
        FIELD_PREP OP_BR_ALU_SRC_LMEXTN (of_bool src_lmextn) OR
        FIELD_PREP OP_BR_ALU_DST_LMEXTN (of_bool dst_lmextn))"

definition emit_rtn :: "nfp_prog \<Rightarrow> swreg \<Rightarrow> u8 \<Rightarrow> nfp_prog" where
  "emit_rtn np base defr =
     (case swreg_to_unrestricted reg_none base (reg_imm 0) of
        Inl err \<Rightarrow> prog_set_error np err
      | Inr reg \<Rightarrow>
          raw_emit_br_alu np (ur_areg reg) (ur_breg reg) 0 defr (ur_dst_lmextn reg) (ur_src_lmextn reg))"

definition immed_insn ::
  "u16 \<Rightarrow> u16 \<Rightarrow> u16 \<Rightarrow> immed_width \<Rightarrow> bool \<Rightarrow> immed_shift \<Rightarrow> bool \<Rightarrow> bool \<Rightarrow> bool \<Rightarrow> u64" where
  "immed_insn areg breg imm_hi width invert shift wr_both dst_lmextn src_lmextn =
     OP_IMMED_BASE OR
     FIELD_PREP OP_IMMED_A_SRC (ucast areg) OR
     FIELD_PREP OP_IMMED_B_SRC (ucast breg) OR
     FIELD_PREP OP_IMMED_IMM (ucast imm_hi) OR
     FIELD_PREP OP_IMMED_WIDTH (immed_width_val width) OR
     FIELD_PREP OP_IMMED_INV (of_bool invert) OR
     FIELD_PREP OP_IMMED_SHIFT (immed_shift_val shift) OR
     FIELD_PREP OP_IMMED_WR_AB (of_bool wr_both) OR
     FIELD_PREP OP_IMMED_SRC_LMEXTN (of_bool src_lmextn) OR
     FIELD_PREP OP_IMMED_DST_LMEXTN (of_bool dst_lmextn)"

definition raw_emit_immed ::
  "nfp_prog \<Rightarrow> u16 \<Rightarrow> u16 \<Rightarrow> u16 \<Rightarrow> immed_width \<Rightarrow> bool \<Rightarrow> immed_shift \<Rightarrow> bool \<Rightarrow> bool \<Rightarrow> bool \<Rightarrow> nfp_prog" where
  "raw_emit_immed np areg breg imm_hi width invert shift wr_both dst_lmextn src_lmextn =
     nfp_prog_push np (immed_insn areg breg imm_hi width invert shift wr_both dst_lmextn src_lmextn)"

definition emit_immed ::
  "nfp_prog \<Rightarrow> swreg \<Rightarrow> u16 \<Rightarrow> immed_width \<Rightarrow> bool \<Rightarrow> immed_shift \<Rightarrow> nfp_prog" where
  "emit_immed np dst imm width invert shift =
     (if swreg_type dst = NN_REG_IMM then prog_set_error np EFAULT
      else
        case swreg_to_unrestricted dst dst (reg_imm (imm AND 0xff)) of
          Inl err \<Rightarrow> prog_set_error np err
        | Inr reg \<Rightarrow>
            raw_emit_immed np (if swreg_type dst = NN_REG_NONE then ur_dst reg else ur_areg reg)
              (ur_breg reg) (drop_bit 8 imm) width invert shift
              (ur_wr_both reg) (ur_dst_lmextn reg) (ur_src_lmextn reg))"

definition shf_amount :: "shf_sc \<Rightarrow> u8 \<Rightarrow> u8" where
  "shf_amount sc shift = (if sc = SHF_SC_L_SHF \<and> shift \<noteq> 0 then 32 - shift else shift)"

definition raw_emit_shf ::
  "nfp_prog \<Rightarrow> u16 \<Rightarrow> alu_dst_ab \<Rightarrow> shf_sc \<Rightarrow> u8 \<Rightarrow> u16 \<Rightarrow> shf_op \<Rightarrow> u16 \<Rightarrow> bool \<Rightarrow> bool \<Rightarrow> bool \<Rightarrow>
     bool \<Rightarrow> bool \<Rightarrow> nfp_prog" where
  "raw_emit_shf np dst dst_ab sc shift areg op breg i8 sw wr_both dst_lmextn src_lmextn =
     (if \<not> FIELD_FIT OP_SHF_SHIFT (ucast shift) then prog_set_error np EFAULT
      else
        nfp_prog_push np
          (OP_SHF_BASE OR
           FIELD_PREP OP_SHF_A_SRC (ucast areg) OR
           FIELD_PREP OP_SHF_SC (shf_sc_val sc) OR
           FIELD_PREP OP_SHF_B_SRC (ucast breg) OR
           FIELD_PREP OP_SHF_I8 (of_bool i8) OR
           FIELD_PREP OP_SHF_SW (of_bool sw) OR
           FIELD_PREP OP_SHF_DST (ucast dst) OR
           FIELD_PREP OP_SHF_SHIFT (ucast (shf_amount sc shift)) OR
           FIELD_PREP OP_SHF_OP (shf_op_val op) OR
           FIELD_PREP OP_SHF_DST_AB (alu_dst_ab_val dst_ab) OR
           FIELD_PREP OP_SHF_WR_AB (of_bool wr_both) OR
           FIELD_PREP OP_SHF_SRC_LMEXTN (of_bool src_lmextn) OR
           FIELD_PREP OP_SHF_DST_LMEXTN (of_bool dst_lmextn)))"

definition emit_shf ::
  "nfp_prog \<Rightarrow> swreg \<Rightarrow> swreg \<Rightarrow> shf_op \<Rightarrow> swreg \<Rightarrow> shf_sc \<Rightarrow> u8 \<Rightarrow> nfp_prog" where
  "emit_shf np dst lreg op rreg sc shift =
     (case swreg_to_restricted dst lreg rreg True of
        Inl err \<Rightarrow> prog_set_error np err
      | Inr reg \<Rightarrow>
          raw_emit_shf np (ucast (re_dst reg)) (re_dst_ab reg) sc shift (ucast (re_areg reg)) op
            (ucast (re_breg reg)) (re_i8 reg) (re_swap reg) (re_wr_both reg)
            (re_dst_lmextn reg) (re_src_lmextn reg))"

definition emit_shf_indir ::
  "nfp_prog \<Rightarrow> swreg \<Rightarrow> swreg \<Rightarrow> shf_op \<Rightarrow> swreg \<Rightarrow> shf_sc \<Rightarrow> nfp_prog" where
  "emit_shf_indir np dst lreg op rreg sc =
     (if sc = SHF_SC_R_ROT then prog_set_error np EFAULT
      else emit_shf np dst lreg op rreg sc 0)"

definition alu_insn ::
  "u16 \<Rightarrow> alu_dst_ab \<Rightarrow> u16 \<Rightarrow> alu_op \<Rightarrow> u16 \<Rightarrow> bool \<Rightarrow> bool \<Rightarrow> bool \<Rightarrow> bool \<Rightarrow> u64" where
  "alu_insn dst dst_ab areg op breg swap wr_both dst_lmextn src_lmextn =
     OP_ALU_BASE OR
     FIELD_PREP OP_ALU_A_SRC (ucast areg) OR
     FIELD_PREP OP_ALU_B_SRC (ucast breg) OR
     FIELD_PREP OP_ALU_DST (ucast dst) OR
     FIELD_PREP OP_ALU_SW (of_bool swap) OR
     FIELD_PREP OP_ALU_OP (alu_op_val op) OR
     FIELD_PREP OP_ALU_DST_AB (alu_dst_ab_val dst_ab) OR
     FIELD_PREP OP_ALU_WR_AB (of_bool wr_both) OR
     FIELD_PREP OP_ALU_SRC_LMEXTN (of_bool src_lmextn) OR
     FIELD_PREP OP_ALU_DST_LMEXTN (of_bool dst_lmextn)"

definition raw_emit_alu ::
  "nfp_prog \<Rightarrow> u16 \<Rightarrow> alu_dst_ab \<Rightarrow> u16 \<Rightarrow> alu_op \<Rightarrow> u16 \<Rightarrow> bool \<Rightarrow> bool \<Rightarrow> bool \<Rightarrow> bool \<Rightarrow> nfp_prog" where
  "raw_emit_alu np dst dst_ab areg op breg swap wr_both dst_lmextn src_lmextn =
     nfp_prog_push np (alu_insn dst dst_ab areg op breg swap wr_both dst_lmextn src_lmextn)"

definition emit_alu :: "nfp_prog \<Rightarrow> swreg \<Rightarrow> swreg \<Rightarrow> alu_op \<Rightarrow> swreg \<Rightarrow> nfp_prog" where
  "emit_alu np dst lreg op rreg =
     (case swreg_to_unrestricted dst lreg rreg of
        Inl err \<Rightarrow> prog_set_error np err
      | Inr reg \<Rightarrow>
          raw_emit_alu np (ur_dst reg) (ur_dst_ab reg) (ur_areg reg) op (ur_breg reg) (ur_swap reg)
            (ur_wr_both reg) (ur_dst_lmextn reg) (ur_src_lmextn reg))"

definition raw_emit_mul ::
  "nfp_prog \<Rightarrow> alu_dst_ab \<Rightarrow> u16 \<Rightarrow> mul_type \<Rightarrow> mul_step \<Rightarrow> u16 \<Rightarrow> bool \<Rightarrow> bool \<Rightarrow> bool \<Rightarrow> bool \<Rightarrow> nfp_prog" where
  "raw_emit_mul np dst_ab areg type step breg swap wr_both dst_lmextn src_lmextn =
     nfp_prog_push np
       (OP_MUL_BASE OR
        FIELD_PREP OP_MUL_A_SRC (ucast areg) OR
        FIELD_PREP OP_MUL_B_SRC (ucast breg) OR
        FIELD_PREP OP_MUL_STEP (mul_step_val step) OR
        FIELD_PREP OP_MUL_DST_AB (alu_dst_ab_val dst_ab) OR
        FIELD_PREP OP_MUL_SW (of_bool swap) OR
        FIELD_PREP OP_MUL_TYPE (mul_type_val type) OR
        FIELD_PREP OP_MUL_WR_AB (of_bool wr_both) OR
        FIELD_PREP OP_MUL_SRC_LMEXTN (of_bool src_lmextn) OR
        FIELD_PREP OP_MUL_DST_LMEXTN (of_bool dst_lmextn))"

definition emit_mul :: "nfp_prog \<Rightarrow> swreg \<Rightarrow> mul_type \<Rightarrow> mul_step \<Rightarrow> swreg \<Rightarrow> nfp_prog" where
  "emit_mul np lreg type step rreg =
     (if type = MUL_TYPE_START \<and> step \<noteq> MUL_STEP_NONE then prog_set_error np EINVAL
      else
        let last_step = (step = MUL_LAST \<or> step = MUL_LAST_2) in
        case (if last_step then swreg_to_unrestricted lreg reg_none rreg
              else swreg_to_unrestricted reg_none lreg rreg) of
          Inl err \<Rightarrow> prog_set_error np err
        | Inr reg \<Rightarrow>
            raw_emit_mul np (ur_dst_ab reg) (if last_step then ur_dst reg else ur_areg reg) type step
              (ur_breg reg) (ur_swap reg) (ur_wr_both reg) (ur_dst_lmextn reg) (ur_src_lmextn reg))"

definition raw_emit_ld_field ::
  "nfp_prog \<Rightarrow> shf_sc \<Rightarrow> u8 \<Rightarrow> u8 \<Rightarrow> u8 \<Rightarrow> u8 \<Rightarrow> bool \<Rightarrow> bool \<Rightarrow> bool \<Rightarrow> bool \<Rightarrow> bool \<Rightarrow> bool \<Rightarrow> nfp_prog" where
  "raw_emit_ld_field np sc areg bmask breg shift imm8 zero swap wr_both dst_lmextn src_lmextn =
     nfp_prog_push np
       (OP_LDF_BASE OR
        FIELD_PREP OP_LDF_A_SRC (ucast areg) OR
        FIELD_PREP OP_LDF_SC (shf_sc_val sc) OR
        FIELD_PREP OP_LDF_B_SRC (ucast breg) OR
        FIELD_PREP OP_LDF_I8 (of_bool imm8) OR
        FIELD_PREP OP_LDF_SW (of_bool swap) OR
        FIELD_PREP OP_LDF_ZF (of_bool zero) OR
        FIELD_PREP OP_LDF_BMASK (ucast bmask) OR
        FIELD_PREP OP_LDF_SHF (ucast shift) OR
        FIELD_PREP OP_LDF_WR_AB (of_bool wr_both) OR
        FIELD_PREP OP_LDF_SRC_LMEXTN (of_bool src_lmextn) OR
        FIELD_PREP OP_LDF_DST_LMEXTN (of_bool dst_lmextn))"

definition emit_ld_field_any ::
  "nfp_prog \<Rightarrow> swreg \<Rightarrow> u8 \<Rightarrow> swreg \<Rightarrow> shf_sc \<Rightarrow> u8 \<Rightarrow> bool \<Rightarrow> nfp_prog" where
  "emit_ld_field_any np dst bmask src sc shift zero =
     (case swreg_to_restricted dst dst src True of
        Inl err \<Rightarrow> prog_set_error np err
      | Inr reg \<Rightarrow>
          raw_emit_ld_field np sc (re_areg reg) bmask (re_breg reg) shift (re_i8 reg) zero
            (re_swap reg) (re_wr_both reg) (re_dst_lmextn reg) (re_src_lmextn reg))"

definition emit_ld_field :: "nfp_prog \<Rightarrow> swreg \<Rightarrow> u8 \<Rightarrow> swreg \<Rightarrow> shf_sc \<Rightarrow> u8 \<Rightarrow> nfp_prog" where
  "emit_ld_field np dst bmask src sc shift = emit_ld_field_any np dst bmask src sc shift False"

definition raw_emit_lcsr :: "nfp_prog \<Rightarrow> u16 \<Rightarrow> u16 \<Rightarrow> bool \<Rightarrow> u16 \<Rightarrow> bool \<Rightarrow> bool \<Rightarrow> nfp_prog" where
  "raw_emit_lcsr np areg breg wr addr dst_lmextn src_lmextn =
     nfp_prog_push np
       (OP_LCSR_BASE OR
        FIELD_PREP OP_LCSR_A_SRC (ucast areg) OR
        FIELD_PREP OP_LCSR_B_SRC (ucast breg) OR
        FIELD_PREP OP_LCSR_WRITE (of_bool wr) OR
        FIELD_PREP OP_LCSR_ADDR (ucast (addr div 4)) OR
        FIELD_PREP OP_LCSR_SRC_LMEXTN (of_bool src_lmextn) OR
        FIELD_PREP OP_LCSR_DST_LMEXTN (of_bool dst_lmextn))"

definition emit_csr_wr :: "nfp_prog \<Rightarrow> swreg \<Rightarrow> u16 \<Rightarrow> nfp_prog" where
  "emit_csr_wr np src addr =
     (let is_imm = (swreg_type src = NN_REG_IMM) in
      case (if is_imm then swreg_to_unrestricted reg_none src reg_none
            else swreg_to_unrestricted reg_none src (reg_imm 0)) of
        Inl err \<Rightarrow> prog_set_error np err
      | Inr reg \<Rightarrow>
          raw_emit_lcsr np (ur_areg reg) (if is_imm then ur_areg reg else ur_breg reg) True addr
            False (ur_src_lmextn reg))"

definition raw_emit_csr_rd :: "nfp_prog \<Rightarrow> u16 \<Rightarrow> nfp_prog" where
  "raw_emit_csr_rd np addr = raw_emit_lcsr np 0 0 False addr False False"

definition emit_nop :: "nfp_prog \<Rightarrow> nfp_prog" where
  "emit_nop np =
     raw_emit_immed np UR_REG_IMM UR_REG_IMM 0 IMMED_WIDTH_ALL False IMMED_SHIFT_0B False False False"

section \<open>Wrappers\<close>

definition pack_immed :: "u32 \<Rightarrow> (u16 \<times> immed_shift) option" where
  "pack_immed imm =
     (if imm AND 0xffff0000 = 0 then Some (ucast imm, IMMED_SHIFT_0B)
      else if imm AND 0xff0000ff = 0 then Some (ucast (drop_bit 8 imm), IMMED_SHIFT_1B)
      else if imm AND 0x0000ffff = 0 then Some (ucast (drop_bit 16 imm), IMMED_SHIFT_2B)
      else None)"

definition wrp_immed :: "nfp_prog \<Rightarrow> swreg \<Rightarrow> u32 \<Rightarrow> nfp_prog" where
  "wrp_immed np dst imm =
     (case pack_immed imm of
        Some (val, shift) \<Rightarrow> emit_immed np dst val IMMED_WIDTH_ALL False shift
      | None \<Rightarrow>
          (case pack_immed (NOT imm) of
             Some (val, shift) \<Rightarrow> emit_immed np dst val IMMED_WIDTH_ALL True shift
           | None \<Rightarrow>
               emit_immed
                 (emit_immed np dst (ucast (imm AND 0xffff)) IMMED_WIDTH_ALL False IMMED_SHIFT_0B)
                 dst (ucast (drop_bit 16 imm)) IMMED_WIDTH_WORD False IMMED_SHIFT_2B))"

definition wrp_immed_relo :: "nfp_prog \<Rightarrow> swreg \<Rightarrow> u32 \<Rightarrow> nfp_relo_type \<Rightarrow> nfp_prog" where
  "wrp_immed_relo np dst imm relo =
     (if imm > 0xffff then prog_set_error np EFAULT
      else
        prog_or_last (emit_immed np dst (ucast imm) IMMED_WIDTH_ALL False IMMED_SHIFT_0B)
          (FIELD_PREP OP_RELO_TYPE (nfp_relo_type_val relo)))"

definition ur_load_imm_any :: "nfp_prog \<Rightarrow> u32 \<Rightarrow> swreg \<Rightarrow> nfp_prog \<times> swreg" where
  "ur_load_imm_any np imm tmp_reg =
     (if FIELD_FIT UR_REG_IMM_MAX (ucast imm) then (np, reg_imm (ucast imm))
      else (wrp_immed np tmp_reg imm, tmp_reg))"

definition re_load_imm_any :: "nfp_prog \<Rightarrow> u32 \<Rightarrow> swreg \<Rightarrow> nfp_prog \<times> swreg" where
  "re_load_imm_any np imm tmp_reg =
     (if FIELD_FIT RE_REG_IMM_MAX (ucast imm) then (np, reg_imm (ucast imm))
      else (wrp_immed np tmp_reg imm, tmp_reg))"

fun wrp_nops :: "nfp_prog \<Rightarrow> nat \<Rightarrow> nfp_prog" where
  "wrp_nops np 0 = np"
| "wrp_nops np (Suc count) = wrp_nops (emit_nop np) count"

definition wrp_mov :: "nfp_prog \<Rightarrow> swreg \<Rightarrow> swreg \<Rightarrow> nfp_prog" where
  "wrp_mov np dst src = emit_alu np dst reg_none ALU_OP_NONE src"

definition wrp_reg_mov :: "nfp_prog \<Rightarrow> u16 \<Rightarrow> u16 \<Rightarrow> nfp_prog" where
  "wrp_reg_mov np dst src = wrp_mov np (reg_both dst) (reg_b src)"

definition wrp_reg_subpart :: "nfp_prog \<Rightarrow> swreg \<Rightarrow> swreg \<Rightarrow> u8 \<Rightarrow> u8 \<Rightarrow> nfp_prog" where
  "wrp_reg_subpart np dst src field_len offset =
     emit_ld_field_any np dst (push_bit (unat field_len) 1 - 1) src
       (if offset \<noteq> 0 then SHF_SC_R_SHF else SHF_SC_NONE) (offset * 8) True"

definition wrp_reg_or_subpart :: "nfp_prog \<Rightarrow> swreg \<Rightarrow> swreg \<Rightarrow> u8 \<Rightarrow> u8 \<Rightarrow> nfp_prog" where
  "wrp_reg_or_subpart np dst src field_len offset =
     emit_ld_field np dst (push_bit (unat offset) (push_bit (unat field_len) 1 - 1)) src
       (if offset \<noteq> 0 then SHF_SC_L_SHF else SHF_SC_NONE) (32 - offset * 8)"

definition addr40_offset :: "nfp_prog \<Rightarrow> u8 \<Rightarrow> swreg \<Rightarrow> nfp_prog \<times> swreg \<times> swreg" where
  "addr40_offset np src_gpr offset =
     (if offset = reg_imm 0 then (np, reg_a (ucast src_gpr), reg_b (ucast src_gpr + 1))
      else
        let np = emit_alu np imm_a (reg_a (ucast src_gpr)) ALU_OP_ADD offset;
            np = emit_alu np imm_b (reg_b (ucast src_gpr + 1)) ALU_OP_ADD_C (reg_imm 0)
        in (np, imm_a, imm_b))"

section \<open>Relocation and the instruction store image\<close>

text \<open>The identifiers of the kernel's helper functions, which the kernel headers fix.\<close>

record bpf_func_ids =
  BPF_FUNC_map_lookup_elem :: u32
  BPF_FUNC_map_update_elem :: u32
  BPF_FUNC_map_delete_elem :: u32
  BPF_FUNC_perf_event_output :: u32

record nfp_bpf_vnic =
  start_off :: u32
  tgt_done :: u32

definition relo_helper :: "bpf_func_ids \<Rightarrow> nfp_prog \<Rightarrow> u32 \<Rightarrow> u32 result" where
  "relo_helper ids np val =
     (if val = BPF_FUNC_map_lookup_elem ids then Inr (helpers_map_lookup np)
      else if val = BPF_FUNC_map_update_elem ids then Inr (helpers_map_update np)
      else if val = BPF_FUNC_map_delete_elem ids then Inr (helpers_map_delete np)
      else if val = BPF_FUNC_perf_event_output ids then Inr (helpers_perf_event_output np)
      else Inl EINVAL)"

text \<open>The body of the loop over the instructions, before the relocation byte is cleared.\<close>

definition relo_insn :: "bpf_func_ids \<Rightarrow> nfp_prog \<Rightarrow> nfp_bpf_vnic \<Rightarrow> u64 \<Rightarrow> u64 result" where
  "relo_insn ids np bv insn =
     (let special = FIELD_GET OP_RELO_TYPE insn in
      if special = nfp_relo_type_val RELO_BR_REL then
        Inr (br_add_offset insn (ucast (start_off bv)))
      else if special = nfp_relo_type_val RELO_BR_GO_OUT then
        Inr (br_set_offset insn (ucast (tgt_out np + start_off bv)))
      else if special = nfp_relo_type_val RELO_BR_GO_ABORT then
        Inr (br_set_offset insn (ucast (tgt_abort np + start_off bv)))
      else if special = nfp_relo_type_val RELO_BR_GO_CALL_PUSH_REGS then
        (if tgt_call_push_regs np = 0 then Inl EINVAL
         else Inr (br_set_offset insn (ucast (tgt_call_push_regs np + start_off bv))))
      else if special = nfp_relo_type_val RELO_BR_GO_CALL_POP_REGS then
        (if tgt_call_pop_regs np = 0 then Inl EINVAL
         else Inr (br_set_offset insn (ucast (tgt_call_pop_regs np + start_off bv))))
      else if special = nfp_relo_type_val RELO_BR_NEXT_PKT then
        Inr (br_set_offset insn (ucast (tgt_done bv)))
      else if special = nfp_relo_type_val RELO_BR_HELPER then
        (case relo_helper ids np (ucast (br_get_offset insn) - BR_OFF_RELO) of
           Inl err \<Rightarrow> Inl err
         | Inr val \<Rightarrow> Inr (br_set_offset insn (ucast val)))
      else if special = nfp_relo_type_val RELO_IMMED_REL then
        Inr (immed_add_value insn (ucast (start_off bv)))
      else Inr insn)"

fun relo_insns :: "bpf_func_ids \<Rightarrow> nfp_prog \<Rightarrow> nfp_bpf_vnic \<Rightarrow> u64 list \<Rightarrow> u64 list result" where
  "relo_insns ids np bv [] = Inr []"
| "relo_insns ids np bv (insn # insns) =
     (case relo_insn ids np bv insn of
        Inl err \<Rightarrow> Inl err
      | Inr insn' \<Rightarrow>
          (case relo_insns ids np bv insns of
             Inl err \<Rightarrow> Inl err
           | Inr insns' \<Rightarrow> Inr ((insn' AND NOT OP_RELO_TYPE) # insns')))"

text \<open>The image is the list of the 64-bit values that are stored in little-endian order.\<close>

fun nfp_bpf_ustore_calc :: "u64 list \<Rightarrow> u64 list result" where
  "nfp_bpf_ustore_calc [] = Inr []"
| "nfp_bpf_ustore_calc (insn # insns) =
     (case nfp_ustore_check_valid_no_ecc insn of
        Inl err \<Rightarrow> Inl err
      | Inr _ \<Rightarrow>
          (case nfp_bpf_ustore_calc insns of
             Inl err \<Rightarrow> Inl err
           | Inr ustore \<Rightarrow> Inr (nfp_ustore_calc_ecc_insn insn # ustore)))"

definition nfp_bpf_prog_trim :: "bool \<Rightarrow> nfp_prog \<Rightarrow> nfp_prog" where
  "nfp_bpf_prog_trim alloc_ok np =
     (if \<not> alloc_ok then np else np\<lparr> prog_alloc_len := of_nat (length (prog np)) * 8 \<rparr>)"

definition nfp_bpf_relo_for_vnic ::
  "bpf_func_ids \<Rightarrow> bool \<Rightarrow> nfp_prog \<Rightarrow> nfp_bpf_vnic \<Rightarrow> u64 list result" where
  "nfp_bpf_relo_for_vnic ids alloc_ok np bv =
     (if \<not> alloc_ok then Inl ENOMEM
      else
        case relo_insns ids np bv (prog np) of
          Inl err \<Rightarrow> Inl err
        | Inr insns \<Rightarrow> nfp_bpf_ustore_calc insns)"

section \<open>Emission as a transition system\<close>

text \<open>One step of a translation is one call of an emitter or wrapper.\<close>

inductive emit_step :: "nfp_prog \<Rightarrow> nfp_prog \<Rightarrow> bool" where
  cmd: "emit_step np (emit_cmd_any np op mode xfer lreg rreg sz ctx indir)"
| br: "emit_step np (emit_br_relo np msk addr defr relo)"
| br_bit: "emit_step np (emit_br_bit_relo np src b addr defr st relo)"
| rtn: "emit_step np (emit_rtn np base defr)"
| immed: "emit_step np (emit_immed np dst imm width invert shift)"
| shf: "emit_step np (emit_shf np dst lreg sop rreg sc amount)"
| shf_indir: "emit_step np (emit_shf_indir np dst lreg sop rreg sc)"
| alu: "emit_step np (emit_alu np dst lreg aop rreg)"
| mul: "emit_step np (emit_mul np lreg type step rreg)"
| ld_field: "emit_step np (emit_ld_field_any np dst bmask src sc amount zero)"
| csr_wr: "emit_step np (emit_csr_wr np src addr)"
| csr_rd: "emit_step np (raw_emit_csr_rd np addr)"
| nop: "emit_step np (emit_nop np)"
| wrp_immed: "emit_step np (wrp_immed np dst imm32)"
| immed_relo: "emit_step np (wrp_immed_relo np dst imm32 relo)"

text \<open>An instruction word of the buffer: an instruction of 45 bits and the relocation byte.\<close>

definition insn_ok :: "u64 \<Rightarrow> bool" where
  "insn_ok i \<longleftrightarrow> i AND NOT OP_RELO_TYPE < 2 ^ NFP_USTORE_OP_BITS"

definition prog_ok :: "nfp_prog \<Rightarrow> bool" where
  "prog_ok np \<longleftrightarrow> length (prog np) \<le> unat (prog_alloc_len np) div 8 \<and> list_all insn_ok (prog np)"

text \<open>The shape of every single emission: an error with the program unchanged, or one
  pushed instruction of 45 bits.\<close>

definition push_shape :: "nfp_prog \<Rightarrow> nfp_prog \<Rightarrow> bool" where
  "push_shape np np' \<longleftrightarrow>
     (\<exists>e. np' = prog_set_error np e) \<or> (\<exists>i. i < 2 ^ NFP_USTORE_OP_BITS \<and> np' = nfp_prog_push np i)"

text \<open>The 16-bit operand of an immediate instruction, and what the instruction does to a register
  that holds \<open>old\<close>: the operand is shifted by whole bytes and, at full width, replaces the register,
  inverted if the flag says so; at half width it replaces 16 bits.\<close>

definition immed_operand :: "u64 \<Rightarrow> u16" where
  "immed_operand insn =
     (let a = ucast (FIELD_GET OP_IMMED_A_SRC insn) :: u16;
          reg = (if unreg_is_imm a then a else ucast (FIELD_GET OP_IMMED_B_SRC insn))
      in (reg AND 0xff) OR push_bit 8 (ucast (FIELD_GET OP_IMMED_IMM insn)))"

definition immed_apply :: "u64 \<Rightarrow> u32 \<Rightarrow> u32" where
  "immed_apply insn old =
     (let n = 8 * unat (FIELD_GET OP_IMMED_SHIFT insn);
          r = push_bit n (ucast (immed_operand insn)) in
      if FIELD_GET OP_IMMED_WIDTH insn = immed_width_val IMMED_WIDTH_ALL then
        (if FIELD_GET OP_IMMED_INV insn = 0 then r else NOT r)
      else (old AND NOT (push_bit n 0xffff)) OR r)"

text \<open>An empty program with room for eight instructions.\<close>

definition sample_prog :: nfp_prog where
  "sample_prog = \<lparr> prog = [], prog_alloc_len = 64, tgt_out = 0, tgt_abort = 0, tgt_call_push_regs = 0,
     tgt_call_pop_regs = 0, np_error = None, helpers_map_lookup = 0, helpers_map_update = 0,
     helpers_map_delete = 0, helpers_perf_event_output = 0, prog_oob = False \<rparr>"

definition relo_shape :: "nfp_prog \<Rightarrow> nfp_prog \<Rightarrow> bool" where
  "relo_shape np np' \<longleftrightarrow> (\<exists>r. np' = prog_or_last np (FIELD_PREP OP_RELO_TYPE r))"

section \<open>Well-formed programs\<close>

lemma or45 [intro]: "a < 2 ^ NFP_USTORE_OP_BITS \<Longrightarrow> b < 2 ^ NFP_USTORE_OP_BITS \<Longrightarrow> (a :: u64) OR b < 2 ^ NFP_USTORE_OP_BITS"
  by (rule word_or_less_exp) (simp_all add: NFP_USTORE_OP_BITS_def)

lemma prep45 [intro]: "m < 2 ^ NFP_USTORE_OP_BITS \<Longrightarrow> FIELD_PREP m v < 2 ^ NFP_USTORE_OP_BITS"
  unfolding FIELD_PREP_def by (rule le_less_trans [OF word_and_le1])

lemma push_shape_error [intro!, simp]: "push_shape np (prog_set_error np e)"
  by (auto simp: push_shape_def)

lemma push_shape_push [intro]: "i < 2 ^ NFP_USTORE_OP_BITS \<Longrightarrow> push_shape np (nfp_prog_push np i)"
  by (auto simp: push_shape_def)

lemma push_shape_if: "push_shape np a \<Longrightarrow> push_shape np b \<Longrightarrow> push_shape np (if c then a else b)"
  by simp

lemma insn45:
  "br_insn msk ev css addr defr < 2 ^ NFP_USTORE_OP_BITS"
  "br_bit_insn areg breg addr defr st lm < 2 ^ NFP_USTORE_OP_BITS"
  "immed_insn areg breg hi w iv sh wb dl sl < 2 ^ NFP_USTORE_OP_BITS"
  "alu_insn dst ab areg op breg sw wb dl sl < 2 ^ NFP_USTORE_OP_BITS"
  unfolding br_insn_def br_bit_insn_def immed_insn_def alu_insn_def Let_def
  by ((intro or45 prep45; simp add: asm_op_defs NFP_USTORE_OP_BITS_def)+)

lemma raw_shapes:
  "push_shape np (raw_emit_cmd np op mode xfer areg breg sz ctx indir)"
  "push_shape np (raw_emit_br np msk ev css addr defr)"
  "push_shape np (raw_emit_br_bit np areg' breg' addr defr st lm)"
  "push_shape np (raw_emit_br_alu np areg' breg' hi defr dl sl)"
  "push_shape np (raw_emit_immed np areg' breg' hi w iv sh wb dl sl)"
  "push_shape np (raw_emit_shf np dst ab sc amount areg' sop breg' i8 sw wb dl sl)"
  "push_shape np (raw_emit_alu np dst ab areg' aop breg' sw wb dl sl)"
  "push_shape np (raw_emit_mul np ab areg' type step breg' sw wb dl sl)"
  "push_shape np (raw_emit_ld_field np sc areg bmask breg amount i8 zero sw wb dl sl)"
  "push_shape np (raw_emit_lcsr np areg' breg' wr addr dl sl)"
  unfolding raw_emit_cmd_def raw_emit_br_def raw_emit_br_bit_def raw_emit_br_alu_def raw_emit_immed_def
    raw_emit_shf_def raw_emit_alu_def raw_emit_mul_def raw_emit_ld_field_def raw_emit_lcsr_def
  by (intro push_shape_if push_shape_error push_shape_push or45 prep45 insn45;
      simp add: asm_op_defs NFP_USTORE_OP_BITS_def)+

lemma emit_shapes [simp, intro!]:
  "push_shape np (emit_cmd_any np op mode xfer lreg rreg sz ctx indir)"
  "push_shape np (emit_rtn np base defr)"
  "push_shape np (emit_immed np dst imm width invert shift)"
  "push_shape np (emit_shf np dst lreg sop rreg sc amount)"
  "push_shape np (emit_shf_indir np dst lreg sop rreg sc)"
  "push_shape np (emit_alu np dst lreg aop rreg)"
  "push_shape np (emit_mul np lreg type step rreg)"
  "push_shape np (emit_ld_field_any np dst bmask src sc amount zero)"
  "push_shape np (emit_csr_wr np src addr)"
  "push_shape np (raw_emit_csr_rd np addr)"
  "push_shape np (emit_nop np)"
  unfolding emit_cmd_any_def emit_rtn_def emit_immed_def emit_shf_indir_def emit_shf_def emit_alu_def
    emit_mul_def emit_ld_field_any_def emit_csr_wr_def raw_emit_csr_rd_def emit_nop_def Let_def
  by (auto intro: raw_shapes split: sum.split)

lemma emit_step_shape:
  "emit_step np np' \<Longrightarrow> \<exists>np1. push_shape np np1 \<and> (np' = np1 \<or> push_shape np1 np' \<or> relo_shape np1 np')"
proof (induction rule: emit_step.induct)
  case (br np msk addr defr relo)
  show ?case unfolding emit_br_relo_def relo_shape_def using raw_shapes(2) push_shape_error by metis
next
  case (br_bit np src b addr defr st relo)
  show ?case unfolding emit_br_bit_relo_def relo_shape_def using raw_shapes(3) push_shape_error 
    by (auto split: sum.split) blast
next
  case (wrp_immed np dst imm)
  show ?case unfolding wrp_immed_def by (auto split: option.split)
next
  case (immed_relo np dst imm relo)
  show ?case unfolding wrp_immed_relo_def relo_shape_def using emit_shapes(3) push_shape_error by metis
qed (blast intro: emit_shapes)+

lemma FIELD_PREP_RELO_clear: "FIELD_PREP OP_RELO_TYPE r AND NOT OP_RELO_TYPE = 0"
  by (rule FIELD_PREP_within)

lemma insn_ok_relo: "insn_ok i \<Longrightarrow> insn_ok (i OR FIELD_PREP OP_RELO_TYPE r)"
  by (simp add: insn_ok_def bit.conj_disj_distrib2 FIELD_PREP_RELO_clear)

lemma insn_ok_45: "i < 2 ^ NFP_USTORE_OP_BITS \<Longrightarrow> insn_ok i"
  unfolding insn_ok_def by (rule le_less_trans [OF word_and_le2])

lemma push_shape_ok: "push_shape np np' \<Longrightarrow> prog_ok np \<Longrightarrow> prog_ok np'"
  by (auto simp: push_shape_def prog_ok_def nfp_prog_push_def prog_set_error_def insn_ok_45)

lemma relo_shape_ok: "relo_shape np np' \<Longrightarrow> prog_ok np \<Longrightarrow> prog_ok np'"
  by (cases "prog np" rule: rev_cases)
    (auto simp: relo_shape_def prog_ok_def prog_or_last_def insn_ok_relo)

lemma emit_step_ok: "emit_step np np' \<Longrightarrow> prog_ok np \<Longrightarrow> prog_ok np'"
  using emit_step_shape push_shape_ok relo_shape_ok by metis

lemma push_shape_grows:
  "push_shape np np' \<Longrightarrow> np_error np' = None \<Longrightarrow> np_error np = None \<and> (\<exists>i. prog np' = prog np @ [i])"
  by (auto simp: push_shape_def nfp_prog_push_def prog_set_error_def split: if_splits)

lemma relo_shape_grows:
  "relo_shape np np' \<Longrightarrow> np_error np' = None \<Longrightarrow> prog np = xs @ [i] \<Longrightarrow> np_error np = None \<and> (\<exists>i. prog np' = xs @ [i])"
  by (auto simp: relo_shape_def prog_or_last_def)

lemma emit_step_grows:
  "emit_step np np' \<Longrightarrow> np_error np' = None \<Longrightarrow> np_error np = None \<and> (\<exists>is. is \<noteq> [] \<and> prog np' = prog np @ is)"
proof -
  assume s: "emit_step np np'" and e: "np_error np' = None"
  obtain np1 where 1: "push_shape np np1" "np' = np1 \<or> push_shape np1 np' \<or> relo_shape np1 np'"
    using emit_step_shape [OF s] by blast
  then have e1: "np_error np1 = None" using e push_shape_grows
    by (auto simp: relo_shape_def prog_or_last_def split: if_splits)
  from push_shape_grows [OF 1(1) e1] obtain i where i: "np_error np = None" "prog np1 = prog np @ [i]" by blast
  from 1(2) show ?thesis
    using i e push_shape_grows [of np1 np'] relo_shape_grows [of np1 np' "prog np" i] by fastforce
qed

lemma push_shape_keeps: "push_shape np np' \<Longrightarrow> prog np \<noteq> [] \<Longrightarrow> prog np' \<noteq> [] \<and> prog_oob np' = prog_oob np"
  by (auto simp: push_shape_def nfp_prog_push_def prog_set_error_def split: if_splits)

lemma relo_shape_keeps: "relo_shape np np' \<Longrightarrow> prog np \<noteq> [] \<Longrightarrow> prog np' \<noteq> [] \<and> prog_oob np' = prog_oob np"
  by (auto simp: relo_shape_def prog_or_last_def)

lemma emit_step_keeps:
  "emit_step np np' \<Longrightarrow> prog np \<noteq> [] \<Longrightarrow> prog np' \<noteq> [] \<and> prog_oob np' = prog_oob np"
  using emit_step_shape [of np np'] push_shape_keeps [of np] push_shape_keeps [of _ np']
    relo_shape_keeps [of _ np'] by fastforce

text \<open>C9. Every program the emitters build, in any order and number of calls, stays within its
  buffer and holds only 45-bit instructions with a relocation byte; an error once recorded stays, and
  while none is recorded nothing emitted earlier is lost or changed; and once the first instruction is
  in the buffer no emitter writes outside it.\<close>

theorem emit_steps_invariant:
  assumes "emit_step\<^sup>*\<^sup>* np np'" "prog_ok np"
  shows "prog_ok np' \<and>
    (np_error np' = None \<longrightarrow> np_error np = None \<and> (\<exists>is. prog np' = prog np @ is)) \<and>
    (prog np \<noteq> [] \<longrightarrow> prog np' \<noteq> [] \<and> prog_oob np' = prog_oob np)"
  using assms(1)
proof (induction rule: rtranclp_induct)
  case base
  then show ?case using assms(2) by auto
next
  case (step np1 np2)
  then show ?case using emit_step_ok [OF step.hyps(2)] emit_step_grows [OF step.hyps(2)]
      emit_step_keeps [OF step.hyps(2)] by auto
qed

theorem emit_steps_invariant_witness:
  "\<exists>np np'. emit_step\<^sup>*\<^sup>* np np' \<and> prog_ok np \<and> prog np' = [OP_LCSR_BASE] \<and> prog_ok np'"
proof -
  let ?np' = "raw_emit_csr_rd sample_prog 0"
  have "emit_step\<^sup>*\<^sup>* sample_prog ?np'" by (rule r_into_rtranclp) (rule emit_step.csr_rd)
  moreover have "prog_ok sample_prog" by (simp add: prog_ok_def sample_prog_def)
  moreover have "prog ?np' = [OP_LCSR_BASE]"
    by (simp add: raw_emit_csr_rd_def raw_emit_lcsr_def nfp_prog_push_def sample_prog_def)
  ultimately show ?thesis using emit_steps_invariant by blast
qed

section \<open>Immediates\<close>

lemma pack_windows:
  fixes imm :: u32
  shows "imm AND 0xffff0000 = 0 \<Longrightarrow> ucast (ucast imm :: u16) = imm"
    "imm AND 0xff0000ff = 0 \<Longrightarrow> push_bit 8 (ucast (ucast (drop_bit 8 imm) :: u16)) = imm"
    "imm AND 0xffff = 0 \<Longrightarrow> push_bit 16 (ucast (ucast (drop_bit 16 imm) :: u16)) = imm"
  by (simp_all add: word_bits_eval bit_simps)

lemma pack_windows_conv:
  fixes v :: u16
  shows "(ucast v :: u32) AND 0xffff0000 = 0"
    "push_bit 8 (ucast v :: u32) AND 0xff0000ff = 0"
    "push_bit 16 (ucast v :: u32) AND 0xffff = 0"
proof -
  have "\<not> bit v n" if "16 \<le> n" for n
    using that bit_imp_le_length [of v n] by auto
  then show "(ucast v :: u32) AND 0xffff0000 = 0"
    "push_bit 8 (ucast v :: u32) AND 0xff0000ff = 0"
    "push_bit 16 (ucast v :: u32) AND 0xffff = 0"
  by (simp_all add: word_bits_eval bit_simps)
qed

lemma pack_immed_sound:
  "pack_immed imm = Some (v, sh) \<Longrightarrow> push_bit (8 * unat (immed_shift_val sh)) (ucast v) = imm"
  using pack_windows [of imm] by (auto simp: pack_immed_def split: if_splits)

lemma pack_immed_complete:
  "pack_immed (push_bit (8 * unat (immed_shift_val sh)) (ucast (v :: u16))) \<noteq> None"
  using pack_windows_conv [of v] by (cases sh) (simp_all add: pack_immed_def)

lemma swreg_value_hi: "8 \<le> n \<Longrightarrow> \<not> bit (swreg_value r) n"
  by (simp add: bit_swreg_value)

lemma immed_insn_fields:
  "FIELD_GET OP_IMMED_A_SRC (immed_insn a b hi w iv sh wb dl sl) = take_bit 10 (ucast a)"
  "FIELD_GET OP_IMMED_B_SRC (immed_insn a b hi w iv sh wb dl sl) = take_bit 10 (ucast b)"
  "FIELD_GET OP_IMMED_IMM (immed_insn a b hi w iv sh wb dl sl) = take_bit 8 (ucast hi)"
  "FIELD_GET OP_IMMED_WIDTH (immed_insn a b hi w iv sh wb dl sl) = immed_width_val w"
  "FIELD_GET OP_IMMED_SHIFT (immed_insn a b hi w iv sh wb dl sl) = immed_shift_val sh"
  "FIELD_GET OP_IMMED_INV (immed_insn a b hi w iv sh wb dl sl) = of_bool iv"
  unfolding immed_insn_def
  by (cases w; cases sh; simp add: asm_op_defs nfp_field asm_get_prep)+

lemma immed_operand_insn:
  assumes "a < 0x400" "b < 0x400" "hi < 0x100"
  shows "immed_operand (immed_insn a b hi w iv sh wb dl sl) =
    ((if unreg_is_imm a then a else b) AND 0xff) OR push_bit 8 hi"
proof -
  have "take_bit 10 a = a" "take_bit 10 b = b" "take_bit 8 hi = hi"
    using word_less_exp_take [of a 10] word_less_exp_take [of b 10] word_less_exp_take [of hi 8] assms by simp_all
  then have "ucast (take_bit 10 (ucast a :: u64)) = a" "ucast (take_bit 10 (ucast b :: u64)) = b"
    "ucast (take_bit 8 (ucast hi :: u64)) = hi"
    by (simp_all add: unsigned_ucast_eq take_bit_word_eq_self flip: unsigned_take_bit_eq)
  then show ?thesis
    by (simp add: immed_operand_def immed_insn_fields Let_def)
qed


lemma unreg_gpr:
  "swreg_type r \<in> {NN_REG_GPR_A, NN_REG_GPR_B, NN_REG_GPR_BOTH} \<Longrightarrow> nfp_swreg_to_unreg r d = swreg_value r"
  by (auto simp: nfp_swreg_to_unreg_def Let_def)

lemma unreg_imm: "v < 0x100 \<Longrightarrow> nfp_swreg_to_unreg (reg_imm v) d = 0x300 OR v"
proof -
  assume "v < 0x100"
  then have "\<not> bit v n" if "8 \<le> n" for n
    using word_less_exp_bit [of v 8 n] that by simp
  then have "take_bit 8 v = v" "v AND NOT 0xff = 0"
    by (simp_all add: take_bit_self_iff word_bits_eval bit_simps)
  then show ?thesis
    unfolding nfp_swreg_to_unreg_def Let_def reg_imm_type
    by (simp add: reg_imm_def swreg_type_defs UR_REG_IMM_encode_def UR_REG_IMM_def)
qed

lemma emit_immed_gpr:
  assumes "swreg_type dst \<in> {NN_REG_GPR_A, NN_REG_GPR_B, NN_REG_GPR_BOTH}"
  shows "\<exists>i. emit_immed np dst v w iv sh = nfp_prog_push np i \<and>
    immed_operand i = v \<and> FIELD_GET OP_IMMED_WIDTH i = immed_width_val w \<and>
    FIELD_GET OP_IMMED_SHIFT i = immed_shift_val sh \<and> FIELD_GET OP_IMMED_INV i = of_bool iv"
proof -
  let ?swap = "swreg_type dst = NN_REG_GPR_B"
  let ?imm = "0x300 OR (v AND 0xff)"
  let ?a = "if ?swap then ?imm else swreg_value dst" and ?b = "if ?swap then swreg_value dst else ?imm"
  have lo: "v AND 0xff < 0x100"
    by (rule le_less_trans [OF word_and_le1]) simp
  have hi: "drop_bit 8 v < 0x100"
  proof -
    have "unat v < 2 ^ LENGTH(16)" by (rule unsigned_less)
    then show ?thesis unfolding word_less_nat_alt unat_drop_bit_eq by (simp add: drop_bit_eq_div)
  qed
  have "v AND 0xff < 0x400" using lo by (rule less_trans) simp
  then have lt: "?imm < 0x400" using word_or_less_exp [of 10 "0x300" "v AND 0xff"] by simp
  have imm: "unreg_is_imm ?imm" "\<not> unreg_is_imm (swreg_value dst)"
    by (simp_all add: unreg_is_imm_iff bit_swreg_value bit_simps)
  have val: "swreg_value dst < 0x400" using swreg_value_less [of dst] by (rule less_trans) simp
  have ne: "swreg_type dst \<noteq> NN_REG_IMM" "swreg_type dst \<noteq> NN_REG_NONE" 
    using assms by (auto simp: swreg_type_defs)
  have "\<exists>wb dl sl. emit_immed np dst v w iv sh = nfp_prog_push np (immed_insn ?a ?b (drop_bit 8 v) w iv sh wb dl sl)"
    using ne unfolding emit_immed_def swreg_to_unrestricted_def raw_emit_immed_def Let_def reg_imm_type
    by (simp add: unreg_gpr [OF assms] unreg_imm [OF lo] swreg_type_defs) blast
  then obtain wb dl sl where "emit_immed np dst v w iv sh = nfp_prog_push np (immed_insn ?a ?b (drop_bit 8 v) w iv sh wb dl sl)"
    by blast
  moreover have "immed_operand (immed_insn ?a ?b (drop_bit 8 v) w iv sh wb dl sl) = v"
    using imm lt val hi by (subst immed_operand_insn) (auto simp: word_bits_eval bit_simps)
  ultimately show ?thesis by (intro exI conjI) (assumption | rule immed_insn_fields)+
qed

lemma emit_immed_apply:
  assumes "swreg_type dst \<in> {NN_REG_GPR_A, NN_REG_GPR_B, NN_REG_GPR_BOTH}"
  shows "\<exists>i. emit_immed np dst v w iv sh = nfp_prog_push np i \<and>
    (\<forall>old. immed_apply i old =
      (let n = 8 * unat (immed_shift_val sh); r = push_bit n (ucast v) in
       if w = IMMED_WIDTH_ALL then (if iv then NOT r else r)
       else (old AND NOT (push_bit n 0xffff)) OR r))"
proof -
  obtain i where "emit_immed np dst v w iv sh = nfp_prog_push np i" "immed_operand i = v"
    "FIELD_GET OP_IMMED_WIDTH i = immed_width_val w"
    "FIELD_GET OP_IMMED_SHIFT i = immed_shift_val sh" "FIELD_GET OP_IMMED_INV i = of_bool iv"
    using emit_immed_gpr [OF assms] by blast
  then show ?thesis by (cases w) (auto simp: immed_apply_def Let_def)
qed

lemma prog_push_ok:
  "np_error (nfp_prog_push np i) = None \<Longrightarrow> prog (nfp_prog_push np i) = prog np @ [i] \<and> np_error np = None"
  by (auto simp: nfp_prog_push_def prog_set_error_def split: if_splits)



text \<open>Every window pack_immed returns shifts back to the immediate, and it returns one whenever
  the immediate is a 16-bit value shifted by zero, one or two bytes.\<close>

theorem pack_immed_correct:
  "(\<forall>v sh. pack_immed imm = Some (v, sh) \<longrightarrow> push_bit (8 * unat (immed_shift_val sh)) (ucast v) = imm) \<and>
   (pack_immed imm = None \<longrightarrow> (\<forall>v :: u16. \<forall>sh. push_bit (8 * unat (immed_shift_val sh)) (ucast v) \<noteq> imm))"
  using pack_immed_sound [of imm] pack_immed_complete by blast

theorem pack_immed_correct_witness:
  "pack_immed 0x00abcd00 = Some (0xabcd, IMMED_SHIFT_1B) \<and> pack_immed 0x12345678 = None \<and>
   push_bit (8 * unat (immed_shift_val IMMED_SHIFT_1B)) (ucast (0xabcd :: u16)) = (0x00abcd00 :: u32)"
proof -
  have "pack_immed 0x00abcd00 = Some (0xabcd, IMMED_SHIFT_1B)" "pack_immed 0x12345678 = None"
    by (simp_all add: pack_immed_def)
  then show ?thesis using pack_immed_correct [of "0x00abcd00"] by blast
qed

section \<open>Relocated programs\<close>

lemmas asm_bit_prep = asm_field_masks [THEN bit_FIELD_PREP]

lemma bit_RELO: "bit (NOT OP_RELO_TYPE) n \<longleftrightarrow> n < 56"
proof -
  have "NOT OP_RELO_TYPE = mask 56" by (simp add: OP_RELO_TYPE_def mask_eq_exp_minus_1)
  then show ?thesis by (auto simp: bit_simps)
qed

lemma less45: "(w :: u64) < 2 ^ NFP_USTORE_OP_BITS \<longleftrightarrow> (\<forall>n\<ge>45. \<not> bit w n)"
  unfolding NFP_USTORE_OP_BITS_def by (rule less_exp45)

lemma insn_ok_iff: "insn_ok i \<longleftrightarrow> (\<forall>n. 45 \<le> n \<and> n < 56 \<longrightarrow> \<not> bit i n)"
  unfolding insn_ok_def less45 by (auto simp: bit_and_iff bit_RELO)

lemma br_set_offset_high: "45 \<le> n \<Longrightarrow> bit (br_set_offset i off) n = bit i n"
  unfolding br_set_offset_def Let_def asm_prep
  by (auto simp: bit_simps asm_bit dest: bit_imp_le_length)

lemma immed_set_value_high: "45 \<le> n \<Longrightarrow> bit (immed_set_value i v) n = bit i n"
  unfolding immed_set_value_def Let_def
  by (auto simp: bit_or_iff bit_and_iff bit_not_iff asm_bit asm_bit_prep dest: bit_imp_le_length)

lemma relo_insn_ok:
  assumes "insn_ok i" "relo_insn ids np bv i = Inr i'" shows "insn_ok i'"
  using assms unfolding relo_insn_def Let_def br_add_offset_def immed_add_value_def
  by (auto simp: insn_ok_iff br_set_offset_high immed_set_value_high split: if_splits sum.splits)

lemma relo_insns_ok:
  "relo_insns ids np bv is = Inr out \<Longrightarrow> list_all insn_ok is \<Longrightarrow>
     list_all (\<lambda>i. i < 2 ^ NFP_USTORE_OP_BITS) out \<and> length out = length is"
proof (induction "is" arbitrary: out)
  case (Cons i "is")
  then show ?case using relo_insn_ok [of i ids np bv] by (auto simp: insn_ok_def split: sum.splits)
qed simp

lemma ustore_calc_valid:
  assumes "list_all (\<lambda>i. i < 2 ^ NFP_USTORE_OP_BITS) is"
  shows "nfp_bpf_ustore_calc is = Inr (map nfp_ustore_calc_ecc_insn is)"
  using assms
proof (induction "is")
  case (Cons i "is")
  then have "\<not> bit i n" if "46 \<le> n" for n using that by (simp add: less45)
  then have "i AND NOT (GENMASK_ULL NFP_USTORE_OP_BITS 0) = 0"
    by (auto simp: NFP_USTORE_OP_BITS_def GENMASK_ULL_def bit_simps bit_eq_iff not_le [symmetric])
  with Cons show ?case by (simp add: nfp_ustore_check_valid_no_ecc_def)
qed simp

text \<open>C10. The image of a well-formed program: relocation fails only in its own error cases; when it
  succeeds, every instruction has 45 bits with the relocation byte cleared, the validity check passes
  and the image is the list of their ECC words, one for each instruction.\<close>

theorem relo_for_vnic_image:
  assumes "prog_ok np" 
  shows "nfp_bpf_relo_for_vnic ids True np bv =
    (case relo_insns ids np bv (prog np) of Inl e \<Rightarrow> Inl e | Inr is \<Rightarrow> Inr (map nfp_ustore_calc_ecc_insn is)) \<and>
    (\<forall>is. relo_insns ids np bv (prog np) = Inr is \<longrightarrow> length is = length (prog np) \<and>
       list_all (\<lambda>i. i < 2 ^ NFP_USTORE_OP_BITS) is)"
  using relo_insns_ok [of ids np bv "prog np"] assms
  by (auto simp: nfp_bpf_relo_for_vnic_def prog_ok_def ustore_calc_valid split: sum.split)

lemma RELO_disjoint: "OP_BR_ADDR_LO AND OP_RELO_TYPE = 0" "OP_BR_ADDR_HI AND OP_RELO_TYPE = 0"
  by (simp_all add: asm_op_defs OP_RELO_TYPE_def)

lemma br_get_offset_relo:
  "br_get_offset (i OR FIELD_PREP OP_RELO_TYPE r) = br_get_offset i"
  "br_get_offset (i AND NOT OP_RELO_TYPE) = br_get_offset i"
  unfolding br_get_offset_def
  by (simp_all add: FIELD_GET_OR FIELD_GET_disjoint FIELD_GET_AND_NOT RELO_disjoint)

lemma relo_field: "field_mask OP_RELO_TYPE 63 56"
  by (simp add: OP_RELO_TYPE_def field_mask_eval)

lemma br_insn_alt:
  "br_insn msk ev css addr defr =
     br_set_offset (OP_BR_BASE OR FIELD_PREP OP_BR_MASK (br_mask_val msk) OR
      FIELD_PREP OP_BR_EV_PIP (br_ev_pip_val ev) OR FIELD_PREP OP_BR_CSS (br_css_val css) OR
      FIELD_PREP OP_BR_DEFBR (ucast defr)) addr"
proof -
  have "OP_BR_BASE AND NOT (OP_BR_ADDR_HI OR OP_BR_ADDR_LO) = OP_BR_BASE"
    by (simp add: asm_op_defs)
  moreover have "FIELD_PREP m v AND NOT (OP_BR_ADDR_HI OR OP_BR_ADDR_LO) = FIELD_PREP m v"
    if "m AND NOT (OP_BR_ADDR_HI OR OP_BR_ADDR_LO) = m" for m v
    unfolding FIELD_PREP_def and.assoc that ..
  ultimately show ?thesis
    unfolding br_insn_def br_set_offset_def Let_def bit.conj_disj_distrib2
    by (simp add: asm_op_defs ac_simps)
qed

lemma FIELD_GET_RELO_45: "i < 2 ^ NFP_USTORE_OP_BITS \<Longrightarrow> FIELD_GET OP_RELO_TYPE i = 0"
  unfolding less45 FIELD_GET_mask [OF relo_field] by (auto intro!: bit_word_eqI simp: bit_simps)

text \<open>A branch emitted to an offset in the program and relocated to a load address branches
  to the sum of the two, as long as it fits the 14 address bits.\<close>

theorem emit_br_relocated:
  assumes "unat addr + unat (start_off bv) < 0x4000"
  shows "\<exists>i. relo_insns ids np bv [br_insn msk ev css addr defr OR FIELD_PREP OP_RELO_TYPE (nfp_relo_type_val RELO_BR_REL)] = Inr [i] \<and>
     unat (br_get_offset i) = unat addr + unat (start_off bv)"
proof -
  let ?r = "FIELD_PREP OP_RELO_TYPE (nfp_relo_type_val RELO_BR_REL)"
  let ?b = "br_insn msk ev css addr defr" and ?off = "addr + ucast (start_off bv)"
  have "FIELD_GET OP_RELO_TYPE (?b OR ?r) = nfp_relo_type_val RELO_BR_REL"
    by (simp add: FIELD_GET_OR FIELD_GET_RELO_45 insn45 FIELD_GET_PREP [OF relo_field])
  moreover have "unat (ucast (start_off bv) :: u16) = unat (start_off bv)"
    using assms by (simp add: unsigned_ucast_eq take_bit_eq_mod)
  then have a: "addr < 0x4000" "unat ?off = unat addr + unat (start_off bv)" "?off < 0x4000"
    using assms by (auto simp: word_less_nat_alt unat_word_ariths)
  then have "br_get_offset (?b OR ?r) = addr"
    by (simp add: br_get_offset_relo br_insn_alt br_get_set_lt)
  ultimately have "relo_insn ids np bv (?b OR ?r) = Inr (br_set_offset (?b OR ?r) ?off)"
    by (simp add: relo_insn_def br_add_offset_def)
  then show ?thesis using a by (simp add: br_get_offset_relo br_get_set_lt)
qed

theorem emit_br_relocated_witness:
  "\<exists>i. relo_insns \<lparr> BPF_FUNC_map_lookup_elem = 1, BPF_FUNC_map_update_elem = 2,
      BPF_FUNC_map_delete_elem = 3, BPF_FUNC_perf_event_output = 25 \<rparr> undefined
      \<lparr> start_off = 0x2000, tgt_done = 0 \<rparr>
      [br_insn BR_UNC BR_EV_PIP_UNCOND BR_CSS_NONE 0x123 0 OR
        FIELD_PREP OP_RELO_TYPE (nfp_relo_type_val RELO_BR_REL)] = Inr [i] \<and>
     unat (br_get_offset i) = 0x2123"
  using emit_br_relocated [of "0x123" "\<lparr> start_off = 0x2000, tgt_done = 0 \<rparr>"] by simp

theorem relo_for_vnic_image_witness:
  "\<exists>np. prog_ok np \<and> prog np \<noteq> [] \<and> (\<forall>ids bv. nfp_bpf_relo_for_vnic ids True np bv =
     Inr (map nfp_ustore_calc_ecc_insn [OP_LCSR_BASE]))"
proof -
  let ?np = "sample_prog\<lparr> prog := [OP_LCSR_BASE] \<rparr>"
  have lt: "OP_LCSR_BASE < 2 ^ NFP_USTORE_OP_BITS"
    by (simp add: OP_LCSR_BASE_def NFP_USTORE_OP_BITS_def)
  then have ok: "prog_ok ?np" by (simp add: prog_ok_def insn_ok_45 sample_prog_def)
  have "relo_insns ids ?np bv [OP_LCSR_BASE] = Inr [OP_LCSR_BASE]" for ids bv
    using FIELD_GET_RELO_45 [OF lt]
    by (simp add: relo_insn_def) (simp add: OP_LCSR_BASE_def OP_RELO_TYPE_def)
  then show ?thesis using ok relo_for_vnic_image [OF ok] by auto
qed

lemma alu_insn_fields:
  "FIELD_GET OP_ALU_A_SRC (alu_insn d ab a op b sw wb dl sl) = take_bit 10 (ucast a)"
  "FIELD_GET OP_ALU_B_SRC (alu_insn d ab a op b sw wb dl sl) = take_bit 10 (ucast b)"
  "FIELD_GET OP_ALU_DST (alu_insn d ab a op b sw wb dl sl) = take_bit 10 (ucast d)"
  "FIELD_GET OP_ALU_SW (alu_insn d ab a op b sw wb dl sl) = of_bool sw"
  "FIELD_GET OP_ALU_OP (alu_insn d ab a op b sw wb dl sl) = alu_op_val op"
  "FIELD_GET OP_ALU_DST_AB (alu_insn d ab a op b sw wb dl sl) = alu_dst_ab_val ab"
  unfolding alu_insn_def
  by (cases op; cases ab; simp add: asm_op_defs nfp_field asm_get_prep)+

lemma ucast_take10: "a < 0x400 \<Longrightarrow> take_bit 10 (ucast (a :: u16) :: u64) = ucast a"
  using word_less_exp_take [of a 10] by (simp flip: unsigned_take_bit_eq)

text \<open>An ALU instruction decodes to what was asked for: when there is room and the operands can be
  encoded, one instruction is appended whose fields are the operator, the three operand encodings, the
  destination bank and the swap flag, none of them truncated.\<close>

theorem emit_alu_decodes:
  assumes "swreg_to_unrestricted dst lreg rreg = Inr reg" "length (prog np) < unat (prog_alloc_len np) div 8"
  shows "\<exists>i. emit_alu np dst lreg op rreg = np\<lparr> prog := prog np @ [i] \<rparr> \<and>
    FIELD_GET OP_ALU_OP i = alu_op_val op \<and>
    FIELD_GET OP_ALU_A_SRC i = ucast (ur_areg reg) \<and>
    FIELD_GET OP_ALU_B_SRC i = ucast (ur_breg reg) \<and>
    FIELD_GET OP_ALU_DST i = ucast (ur_dst reg) \<and>
    FIELD_GET OP_ALU_DST_AB i = alu_dst_ab_val (ur_dst_ab reg) \<and>
    FIELD_GET OP_ALU_SW i = of_bool (ur_swap reg)"
proof -
  have "ur_areg reg < 0x400" "ur_breg reg < 0x400" "ur_dst reg < 0x400"
    using assms(1) unreg_bound by (auto simp: swreg_to_unrestricted_def Let_def split: if_splits)
  then show ?thesis
    using assms by (auto simp: emit_alu_def raw_emit_alu_def nfp_prog_push_def alu_insn_fields ucast_take10)
qed

theorem emit_alu_decodes_witness:
  "\<exists>np i. prog (emit_alu np (reg_a 1) (reg_a 2) ALU_OP_SUB (reg_b 3)) = [i] \<and>
     FIELD_GET OP_ALU_OP i = alu_op_val ALU_OP_SUB"
proof -
  have "\<exists>reg. swreg_to_unrestricted (reg_a 1) (reg_a 2) (reg_b 3) = Inr reg"
    by (simp add: swreg_to_unrestricted_def reg_a_def reg_b_def swreg_type_defs)
  then obtain reg where "swreg_to_unrestricted (reg_a 1) (reg_a 2) (reg_b 3) = Inr reg" ..
  from emit_alu_decodes [OF this, of sample_prog ALU_OP_SUB]
  obtain i where "emit_alu sample_prog (reg_a 1) (reg_a 2) ALU_OP_SUB (reg_b 3) = sample_prog\<lparr> prog := [i] \<rparr>"
    "FIELD_GET OP_ALU_OP i = alu_op_val ALU_OP_SUB"
    by (auto simp: sample_prog_def)
  then show ?thesis by (intro exI [of _ sample_prog] exI [of _ i]) simp
qed

end
