(* ===== verification/NFP_Target.thy ===== *)
theory NFP_Target
  imports NFP_Prelude
begin

text \<open>
  CPP (Command Push/Pull bus) identifiers of \<^verbatim>\<open>src/nfpcore/nfp_cpp.h\<close>, the access widths and the
  island address translation of \<^verbatim>\<open>src/nfpcore/nfp_target.c\<close> and \<^verbatim>\<open>src/nfpcore/nfp6000/nfp6000.h\<close>.
  A C \<open>int\<close> that holds an island, target or mode number is an \<open>int\<close>, a bus address a \<open>u64\<close>.
\<close>

section \<open>CPP identifiers\<close>

definition NFP_CPP_ACTION_RW :: u32 where "NFP_CPP_ACTION_RW = 32"
definition NFP_CPP_TARGET_ID_MASK :: u32 where "NFP_CPP_TARGET_ID_MASK = 0x1f"

definition NFP_CPP_ID :: "u32 \<Rightarrow> u32 \<Rightarrow> u32 \<Rightarrow> u32" where
  "NFP_CPP_ID target action token =
     push_bit 24 (target AND 0x7f) OR push_bit 16 (token AND 0xff) OR push_bit 8 (action AND 0xff)"

definition NFP_CPP_ISLAND_ID :: "u32 \<Rightarrow> u32 \<Rightarrow> u32 \<Rightarrow> u32 \<Rightarrow> u32" where
  "NFP_CPP_ISLAND_ID target action token island =
     push_bit 24 (target AND 0x7f) OR push_bit 16 (token AND 0xff) OR push_bit 8 (action AND 0xff) OR
     push_bit 0 (island AND 0xff)"

definition NFP_CPP_ATOMIC_RD :: "u32 \<Rightarrow> u32 \<Rightarrow> u32" where
  "NFP_CPP_ATOMIC_RD target island = NFP_CPP_ISLAND_ID target 3 0 island"

definition NFP_CPP_ATOMIC_WR :: "u32 \<Rightarrow> u32 \<Rightarrow> u32" where
  "NFP_CPP_ATOMIC_WR target island = NFP_CPP_ISLAND_ID target 4 0 island"

definition NFP_CPP_ID_TARGET_of :: "u32 \<Rightarrow> u8" where
  "NFP_CPP_ID_TARGET_of cpp_id = ucast (drop_bit 24 cpp_id AND NFP_CPP_TARGET_ID_MASK)"

definition NFP_CPP_ID_TOKEN_of :: "u32 \<Rightarrow> u8" where
  "NFP_CPP_ID_TOKEN_of cpp_id = ucast (drop_bit 16 cpp_id AND 0xff)"

definition NFP_CPP_ID_ACTION_of :: "u32 \<Rightarrow> u8" where
  "NFP_CPP_ID_ACTION_of cpp_id = ucast (drop_bit 8 cpp_id AND 0xff)"

definition NFP_CPP_ID_ISLAND_of :: "u32 \<Rightarrow> u8" where
  "NFP_CPP_ID_ISLAND_of cpp_id = ucast (drop_bit 0 cpp_id AND 0xff)"

definition NFP_CPP_INTERFACE :: "u16 \<Rightarrow> u16 \<Rightarrow> u16 \<Rightarrow> u16" where
  "NFP_CPP_INTERFACE type unit channel =
     push_bit 12 (type AND 0xf) OR push_bit 8 (unit AND 0xf) OR push_bit 0 (channel AND 0xff)"

definition NFP_CPP_INTERFACE_TYPE_of :: "u16 \<Rightarrow> u16" where
  "NFP_CPP_INTERFACE_TYPE_of interface = drop_bit 12 interface AND 0xf"

definition NFP_CPP_INTERFACE_UNIT_of :: "u16 \<Rightarrow> u16" where
  "NFP_CPP_INTERFACE_UNIT_of interface = drop_bit 8 interface AND 0xf"

definition NFP_CPP_INTERFACE_CHANNEL_of :: "u16 \<Rightarrow> u16" where
  "NFP_CPP_INTERFACE_CHANNEL_of interface = drop_bit 0 interface AND 0xff"

definition NFP_CPP_TARGET_NBI :: int where "NFP_CPP_TARGET_NBI = 1"
definition NFP_CPP_TARGET_QDR :: int where "NFP_CPP_TARGET_QDR = 2"
definition NFP_CPP_TARGET_ILA :: int where "NFP_CPP_TARGET_ILA = 6"
definition NFP_CPP_TARGET_MU :: int where "NFP_CPP_TARGET_MU = 7"
definition NFP_CPP_TARGET_PCIE :: int where "NFP_CPP_TARGET_PCIE = 9"
definition NFP_CPP_TARGET_ARM :: int where "NFP_CPP_TARGET_ARM = 10"
definition NFP_CPP_TARGET_CRYPTO :: int where "NFP_CPP_TARGET_CRYPTO = 12"
definition NFP_CPP_TARGET_CT_XPB :: int where "NFP_CPP_TARGET_CT_XPB = 14"
definition NFP_CPP_TARGET_CLS :: int where "NFP_CPP_TARGET_CLS = 15"

lemmas cpp_target_defs = NFP_CPP_TARGET_NBI_def NFP_CPP_TARGET_QDR_def NFP_CPP_TARGET_ILA_def
  NFP_CPP_TARGET_MU_def NFP_CPP_TARGET_PCIE_def NFP_CPP_TARGET_ARM_def NFP_CPP_TARGET_CRYPTO_def
  NFP_CPP_TARGET_CT_XPB_def NFP_CPP_TARGET_CLS_def

section \<open>Access widths\<close>

definition P32 :: nat where "P32 = 1"
definition P64 :: nat where "P64 = 2"

definition PUSHPULL :: "nat \<Rightarrow> nat \<Rightarrow> nat" where
  "PUSHPULL pull push = push_bit 4 pull OR push_bit 0 push"

definition pushpull_width :: "nat \<Rightarrow> nat result" where
  "pushpull_width pp = (let pp = pp AND 0xf in if pp = 0 then Inl EINVAL else Inr (push_bit pp 2))"

definition PUSH_WIDTH :: "nat \<Rightarrow> nat result" where
  "PUSH_WIDTH pushpull = pushpull_width (drop_bit 0 pushpull)"

definition PULL_WIDTH :: "nat \<Rightarrow> nat result" where
  "PULL_WIDTH pushpull = pushpull_width (drop_bit 4 pushpull)"

text \<open>The \<open>switch\<close> with one \<open>AT(action, token, pull, push)\<close> line for each row.\<close>

fun AT_switch :: "u32 \<Rightarrow> (u32 \<times> u32 \<times> nat \<times> nat) list \<Rightarrow> nat option" where
  "AT_switch cpp_id [] = None"
| "AT_switch cpp_id ((action, token, pull, push) # rows) =
     (if cpp_id AND NFP_CPP_ID 0 (NOT 0) (NOT 0) = NFP_CPP_ID 0 action token
      then Some (PUSHPULL pull push) else AT_switch cpp_id rows)"

definition AT_default :: "u32 \<Rightarrow> (u32 \<times> u32 \<times> nat \<times> nat) list \<Rightarrow> nat result \<Rightarrow> nat result" where
  "AT_default cpp_id rows dflt = (case AT_switch cpp_id rows of Some pp \<Rightarrow> Inr pp | None \<Rightarrow> dflt)"

definition target_rw :: "u32 \<Rightarrow> nat \<Rightarrow> nat result" where
  "target_rw cpp_id pp =
     AT_default cpp_id [(0, 0, 0, pp), (1, 0, pp, 0), (NFP_CPP_ACTION_RW, 0, pp, pp)] (Inl EINVAL)"

definition nfp6000_nbi_dma :: "u32 \<Rightarrow> nat result" where
  "nfp6000_nbi_dma cpp_id =
     AT_default cpp_id [(0, 0, 0, P64), (1, 0, P64, 0), (NFP_CPP_ACTION_RW, 0, P64, P64)] (Inl EINVAL)"

definition nfp6000_nbi_stats :: "u32 \<Rightarrow> nat result" where
  "nfp6000_nbi_stats cpp_id =
     AT_default cpp_id [(0, 0, 0, P32), (1, 0, P32, 0), (NFP_CPP_ACTION_RW, 0, P32, P32)] (Inl EINVAL)"

definition nfp6000_nbi_tm :: "u32 \<Rightarrow> nat result" where
  "nfp6000_nbi_tm cpp_id =
     AT_default cpp_id [(0, 0, 0, P64), (1, 0, P64, 0), (NFP_CPP_ACTION_RW, 0, P64, P64)] (Inl EINVAL)"

definition nfp6000_nbi_ppc :: "u32 \<Rightarrow> nat result" where
  "nfp6000_nbi_ppc cpp_id =
     AT_default cpp_id [(0, 0, 0, P64), (1, 0, P64, 0), (NFP_CPP_ACTION_RW, 0, P64, P64)] (Inl EINVAL)"

definition nfp6000_nbi :: "u32 \<Rightarrow> u64 \<Rightarrow> nat result" where
  "nfp6000_nbi cpp_id address =
     (let rel_addr = address AND 0x3fFFFF in
      if rel_addr < push_bit 20 1 then nfp6000_nbi_dma cpp_id
      else if rel_addr < push_bit 20 2 then nfp6000_nbi_stats cpp_id
      else if rel_addr < push_bit 20 3 then nfp6000_nbi_tm cpp_id
      else nfp6000_nbi_ppc cpp_id)"

definition nfp6000_mu_common :: "u32 \<Rightarrow> nat result" where
  "nfp6000_mu_common cpp_id =
     AT_default cpp_id
       [(NFP_CPP_ACTION_RW, 0, P64, P64), (NFP_CPP_ACTION_RW, 1, P64, P64),
        (NFP_CPP_ACTION_RW, 2, P64, P64), (NFP_CPP_ACTION_RW, 3, P64, P64),
        (0, 0, 0, P64), (0, 1, 0, P64), (0, 2, 0, P64), (0, 3, 0, P64),
        (1, 0, P64, 0), (1, 1, P64, 0), (1, 2, P64, 0), (1, 3, P64, 0),
        (3, 0, 0, P32), (3, 2, P32, 0),
        (4, 0, P32, 0), (4, 2, 0, 0), (4, 3, 0, P32),
        (5, 0, P32, 0), (5, 3, 0, P32),
        (6, 0, P32, 0), (6, 3, 0, P32),
        (7, 0, P32, 0), (7, 3, 0, P32),
        (8, 0, P32, 0), (8, 3, 0, P32),
        (9, 0, P32, 0), (9, 3, 0, P32),
        (10, 0, P32, 0), (10, 3, 0, P32),
        (13, 0, 0, P32), (13, 1, 0, P32), (13, 2, P32, 0),
        (15, 0, P32, 0), (15, 3, 0, P32),
        (28, 0, 0, P32), (28, 1, 0, P32), (28, 2, 0, P32), (28, 3, 0, P32),
        (31, 0, P32, 0), (31, 1, P32, 0), (31, 2, P32, 0), (31, 3, P32, 0)]
       (Inl EINVAL)"

definition nfp6000_mu_ctm :: "u32 \<Rightarrow> nat result" where
  "nfp6000_mu_ctm cpp_id =
     AT_default cpp_id
       [(16, 1, 0, P32), (17, 1, 0, P32), (17, 3, 0, P64), (18, 2, 0, P64), (18, 3, 0, P64),
        (21, 0, 0, P64), (21, 1, 0, P64), (21, 2, 0, P64), (21, 3, 0, P64)]
       (nfp6000_mu_common cpp_id)"

definition nfp6000_mu_emu :: "u32 \<Rightarrow> nat result" where
  "nfp6000_mu_emu cpp_id =
     AT_default cpp_id
       [(18, 0, 0, P32), (18, 1, 0, P32), (18, 2, P32, 0), (18, 3, P32, 0), (20, 2, P32, 0),
        (21, 0, 0, P32), (21, 1, 0, P32), (21, 2, 0, P32),
        (22, 0, 0, P32), (22, 1, 0, P32), (22, 2, 0, P32)]
       (nfp6000_mu_common cpp_id)"

definition nfp6000_mu_imu :: "u32 \<Rightarrow> nat result" where
  "nfp6000_mu_imu cpp_id = nfp6000_mu_common cpp_id"

definition nfp6000_mu :: "u32 \<Rightarrow> u64 \<Rightarrow> nat result" where
  "nfp6000_mu cpp_id address =
     (if address < 0x2000000000 then nfp6000_mu_ctm cpp_id
      else if address < 0x8000000000 then nfp6000_mu_emu cpp_id
      else if address < 0x9800000000 then nfp6000_mu_ctm cpp_id
      else if address < 0x9C00000000 then nfp6000_mu_emu cpp_id
      else if address < 0xA000000000 then nfp6000_mu_imu cpp_id
      else nfp6000_mu_ctm cpp_id)"

definition nfp6000_ila :: "u32 \<Rightarrow> nat result" where
  "nfp6000_ila cpp_id =
     AT_default cpp_id [(0, 1, 0, P32), (2, 0, 0, P32), (3, 0, P32, 0)] (target_rw cpp_id P32)"

definition nfp6000_pci :: "u32 \<Rightarrow> nat result" where
  "nfp6000_pci cpp_id = AT_default cpp_id [(2, 0, 0, P32), (3, 0, P32, 0)] (target_rw cpp_id P32)"

definition nfp6000_crypto :: "u32 \<Rightarrow> nat result" where
  "nfp6000_crypto cpp_id = AT_default cpp_id [(2, 0, P64, 0)] (target_rw cpp_id P64)"

definition nfp6000_cap_xpb :: "u32 \<Rightarrow> nat result" where
  "nfp6000_cap_xpb cpp_id =
     AT_default cpp_id
       [(0, 1, 0, P32), (0, 2, P32, 0), (1, 1, P32, 0), (1, 2, P32, 0),
        (2, 0, 0, P32), (2, 1, 0, P32), (2, 2, 0, P32), (2, 3, 0, P32),
        (3, 0, P32, 0), (3, 1, P32, 0), (3, 2, P32, 0), (3, 3, P32, 0),
        (NFP_CPP_ACTION_RW, 1, P32, P32)]
       (target_rw cpp_id P32)"

definition nfp6000_cls :: "u32 \<Rightarrow> nat result" where
  "nfp6000_cls cpp_id =
     AT_default cpp_id
       [(0, 3, P32, 0), (2, 0, P32, 0), (2, 1, P32, 0), (4, 0, P32, 0), (4, 1, P32, 0),
        (6, 0, P32, 0), (6, 1, P32, 0), (6, 2, P32, 0), (8, 2, P32, 0), (8, 3, P32, 0),
        (9, 0, 0, P32), (9, 1, 0, P32), (9, 2, 0, P32), (9, 3, 0, P32),
        (10, 0, P32, 0), (10, 2, P32, 0), (14, 0, P32, 0), (15, 1, 0, P32), (17, 2, P32, 0),
        (24, 0, 0, P32), (24, 1, P32, 0), (25, 0, 0, P32), (25, 1, P32, 0)]
       (target_rw cpp_id P32)"

definition nfp_target_pushpull :: "u32 \<Rightarrow> u64 \<Rightarrow> nat result" where
  "nfp_target_pushpull cpp_id address =
     (let target = uint (NFP_CPP_ID_TARGET_of cpp_id) in
      if target = NFP_CPP_TARGET_NBI then nfp6000_nbi cpp_id address
      else if target = NFP_CPP_TARGET_QDR then target_rw cpp_id P32
      else if target = NFP_CPP_TARGET_ILA then nfp6000_ila cpp_id
      else if target = NFP_CPP_TARGET_MU then nfp6000_mu cpp_id address
      else if target = NFP_CPP_TARGET_PCIE then nfp6000_pci cpp_id
      else if target = NFP_CPP_TARGET_ARM then
        (if address < 0x10000 then target_rw cpp_id P64 else target_rw cpp_id P32)
      else if target = NFP_CPP_TARGET_CRYPTO then nfp6000_crypto cpp_id
      else if target = NFP_CPP_TARGET_CT_XPB then nfp6000_cap_xpb cpp_id
      else if target = NFP_CPP_TARGET_CLS then nfp6000_cls cpp_id
      else if target = 0 then target_rw cpp_id P32
      else Inl EINVAL)"

section \<open>Island address translation\<close>

definition NIC_NFP6000_MU_LOCALITY_DIRECT :: u64 where "NIC_NFP6000_MU_LOCALITY_DIRECT = 2"

text \<open>The decoder returns the destination island of a bus address.\<close>

definition nfp_decode_basic :: "u64 \<Rightarrow> int \<Rightarrow> int \<Rightarrow> bool \<Rightarrow> int \<Rightarrow> int \<Rightarrow> int result" where
  "nfp_decode_basic addr cpp_tgt mode addr40 isld1 isld0 =
     (if cpp_tgt = NFP_CPP_TARGET_MU \<or> cpp_tgt = NFP_CPP_TARGET_CT_XPB then Inl EINVAL
      else if mode = 0 then
        (let iid_lsb = (if addr40 then 34 else 26) in Inr (uint (drop_bit iid_lsb addr AND 0x3F)))
      else if mode = 1 then
        (let idx_lsb = (if addr40 then 39 else 31) in
         Inr (if addr AND BIT_ULL idx_lsb \<noteq> 0 then isld1 else isld0))
      else if mode = 2 then
        (let isld0 = isld0 AND NOT 1; isld1 = isld1 AND NOT 1;
             idx_lsb = (if addr40 then 39 else 31); iid_lsb = idx_lsb - 1 in
         Inr (if addr AND BIT_ULL idx_lsb \<noteq> 0 then isld1 OR uint (drop_bit iid_lsb addr AND 1)
              else isld0 OR uint (drop_bit iid_lsb addr AND 1)))
      else if mode = 3 then
        (let isld0 = isld0 AND NOT 3; isld1 = isld1 AND NOT 3;
             idx_lsb = (if addr40 then 39 else 31); iid_lsb = idx_lsb - 2 in
         Inr (if addr AND BIT_ULL idx_lsb \<noteq> 0 then isld1 OR uint (drop_bit iid_lsb addr AND 3)
              else isld0 OR uint (drop_bit iid_lsb addr AND 3)))
      else Inl EINVAL)"

definition nfp_encode_basic_qdr ::
  "u64 \<Rightarrow> int \<Rightarrow> int \<Rightarrow> int \<Rightarrow> bool \<Rightarrow> int \<Rightarrow> int \<Rightarrow> unit result" where
  "nfp_encode_basic_qdr addr dest_island cpp_tgt mode addr40 isld1 isld0 =
     (case nfp_decode_basic addr cpp_tgt mode addr40 isld1 isld0 of
        Inl ret \<Rightarrow> Inl ret
      | Inr v \<Rightarrow> if dest_island \<noteq> -1 \<and> dest_island \<noteq> v then Inl EINVAL else Inr ())"

text \<open>The encoders return the new address.  The search tries the pairs \<open>(i, v)\<close> in the order of
  the two nested loops.\<close>

definition nfp_encode_basic_search ::
  "u64 \<Rightarrow> int \<Rightarrow> int list \<Rightarrow> nat \<Rightarrow> nat \<Rightarrow> nat \<Rightarrow> u64 result" where
  "nfp_encode_basic_search addr dest_island isld iid_lsb idx_lsb v_max =
     (case List.find (\<lambda>(i, v). dest_island = isld ! i OR int v) (List.product [0, 1] [0..<v_max]) of
        None \<Rightarrow> Inl ENODEV
      | Some (i, v) \<Rightarrow>
          Inr ((addr AND NOT (GENMASK_ULL idx_lsb iid_lsb)) OR push_bit idx_lsb (of_nat i) OR
               push_bit iid_lsb (of_nat v)))"

text \<open>In the QDR cases the source passes the target where the callee expects the island, and the
  island where it expects the target.\<close>

definition encode_qdr_call :: "u64 \<Rightarrow> int \<Rightarrow> int \<Rightarrow> int \<Rightarrow> bool \<Rightarrow> int \<Rightarrow> int \<Rightarrow> u64 result" where
  "encode_qdr_call addr dest_island cpp_tgt mode addr40 isld1 isld0 =
     (case nfp_encode_basic_qdr addr cpp_tgt dest_island mode addr40 isld1 isld0 of
        Inl ret \<Rightarrow> Inl ret
      | Inr _ \<Rightarrow> Inr addr)"

definition set_island_field :: "u64 \<Rightarrow> int \<Rightarrow> nat \<Rightarrow> u64" where
  "set_island_field addr dest_island iid_lsb =
     (let v64 = GENMASK_ULL (iid_lsb + 5) iid_lsb in
      (addr AND NOT v64) OR (push_bit iid_lsb (word_of_int dest_island) AND v64))"

definition set_index_bit :: "u64 \<Rightarrow> int \<Rightarrow> int \<Rightarrow> int \<Rightarrow> nat \<Rightarrow> u64 result" where
  "set_index_bit addr dest_island isld1 isld0 idx_lsb =
     (if dest_island = isld0 then Inr (addr AND NOT (BIT_ULL idx_lsb))
      else if dest_island = isld1 then Inr (addr OR BIT_ULL idx_lsb)
      else Inl ENODEV)"

definition nfp_encode_basic :: "u64 \<Rightarrow> int \<Rightarrow> int \<Rightarrow> int \<Rightarrow> bool \<Rightarrow> int \<Rightarrow> int \<Rightarrow> u64 result" where
  "nfp_encode_basic addr dest_island cpp_tgt mode addr40 isld1 isld0 =
     (let qdr = (cpp_tgt = NFP_CPP_TARGET_QDR \<and> \<not> addr40) in
      if cpp_tgt = NFP_CPP_TARGET_MU \<or> cpp_tgt = NFP_CPP_TARGET_CT_XPB then Inl EINVAL
      else if mode = 0 then
        (if qdr then encode_qdr_call addr dest_island cpp_tgt mode addr40 isld1 isld0
         else Inr (set_island_field addr dest_island (if addr40 then 34 else 26)))
      else if mode = 1 then
        (if qdr then encode_qdr_call addr dest_island cpp_tgt mode addr40 isld1 isld0
         else set_index_bit addr dest_island isld1 isld0 (if addr40 then 39 else 31))
      else if mode = 2 then
        (if qdr then encode_qdr_call addr dest_island cpp_tgt mode addr40 isld1 isld0
         else
           let idx_lsb = (if addr40 then 39 else 31); iid_lsb = idx_lsb - 1 in
           nfp_encode_basic_search addr dest_island [isld0 AND NOT 1, isld1 AND NOT 1] iid_lsb idx_lsb 2)
      else if mode = 3 then
        (if qdr then encode_qdr_call addr dest_island cpp_tgt mode addr40 isld1 isld0
         else
           let idx_lsb = (if addr40 then 39 else 31); iid_lsb = idx_lsb - 2 in
           nfp_encode_basic_search addr dest_island [isld0 AND NOT 3, isld1 AND NOT 3] iid_lsb idx_lsb 4)
      else Inl EINVAL)"

definition nfp_cppat_mu_locality_lsb :: "int \<Rightarrow> bool \<Rightarrow> nat result" where
  "nfp_cppat_mu_locality_lsb mode addr40 =
     (if 0 \<le> mode \<and> mode \<le> 3 then Inr (if addr40 then 38 else 30) else Inl EINVAL)"

text \<open>For a mode without a locality field the C code shifts by a negative amount before it rejects
  the mode; the test it computes is not used then.\<close>

definition nfp_encode_mu :: "u64 \<Rightarrow> int \<Rightarrow> int \<Rightarrow> bool \<Rightarrow> int \<Rightarrow> int \<Rightarrow> u64 result" where
  "nfp_encode_mu addr dest_island mode addr40 isld1 isld0 =
     (case nfp_cppat_mu_locality_lsb mode addr40 of
        Inl _ \<Rightarrow> Inl EINVAL
      | Inr locality_lsb \<Rightarrow>
          let da = (drop_bit locality_lsb addr AND 3 = NIC_NFP6000_MU_LOCALITY_DIRECT);
              direct = (\<lambda>addr. Inr (set_island_field addr dest_island (if addr40 then 32 else 24)));
              idx_lsb = (if addr40 then 37 else 29) in
          if mode = 0 then direct addr
          else if mode = 1 then
            (if da then direct addr else set_index_bit addr dest_island isld1 isld0 idx_lsb)
          else if mode = 2 then
            (if da then direct addr
             else nfp_encode_basic_search addr dest_island [isld0 AND NOT 1, isld1 AND NOT 1]
                    (idx_lsb - 1) idx_lsb 2)
          else
            let force = (dest_island > 0 \<and> (dest_island < 24 \<or> dest_island > 26));
                addr = (if force then addr OR push_bit locality_lsb NIC_NFP6000_MU_LOCALITY_DIRECT else addr);
                da = (force \<or> da) in
            if da then direct addr
            else nfp_encode_basic_search addr dest_island [isld0 AND NOT 3, isld1 AND NOT 3]
                   (idx_lsb - 2) idx_lsb 4)"

definition nfp_cppat_addr_encode ::
  "u64 \<Rightarrow> int \<Rightarrow> int \<Rightarrow> int \<Rightarrow> bool \<Rightarrow> int \<Rightarrow> int \<Rightarrow> u64 result" where
  "nfp_cppat_addr_encode addr dest_island cpp_tgt mode addr40 isld1 isld0 =
     (if cpp_tgt \<in> {NFP_CPP_TARGET_NBI, NFP_CPP_TARGET_QDR, NFP_CPP_TARGET_ILA, NFP_CPP_TARGET_PCIE,
                    NFP_CPP_TARGET_ARM, NFP_CPP_TARGET_CRYPTO, NFP_CPP_TARGET_CLS} then
        nfp_encode_basic addr dest_island cpp_tgt mode addr40 isld1 isld0
      else if cpp_tgt = NFP_CPP_TARGET_MU then nfp_encode_mu addr dest_island mode addr40 isld1 isld0
      else if cpp_tgt = NFP_CPP_TARGET_CT_XPB then
        (if mode \<noteq> 1 \<or> addr40 then Inl EINVAL
         else
           Inr ((addr AND NOT (GENMASK_ULL 29 24)) OR
                (push_bit 24 (word_of_int dest_island) AND GENMASK_ULL 29 24)))
      else Inl EINVAL)"

text \<open>\<open>imb_table\<close> is \<open>None\<close> for a null pointer.\<close>

definition nfp_target_cpp :: "u32 \<Rightarrow> u64 \<Rightarrow> (int \<Rightarrow> u32) option \<Rightarrow> (u32 \<times> u64) result" where
  "nfp_target_cpp cpp_island_id cpp_island_address imb_table =
     (let island = uint (NFP_CPP_ID_ISLAND_of cpp_island_id);
          target = uint (NFP_CPP_ID_TARGET_of cpp_island_id) in
      if target < 0 \<or> target \<ge> 16 then Inl EINVAL
      else if island = 0 then Inr (cpp_island_id, cpp_island_address)
      else
        case imb_table of
          None \<Rightarrow> Inl EINVAL
        | Some tab \<Rightarrow>
            (let imb = tab target in
             case nfp_cppat_addr_encode cpp_island_address island target
                    (uint (drop_bit 13 imb AND 7)) (drop_bit 12 imb AND 1 \<noteq> 0)
                    (uint (drop_bit 6 imb AND 0x3f)) (uint (drop_bit 0 imb AND 0x3f)) of
               Inl err \<Rightarrow> Inl err
             | Inr addr \<Rightarrow>
                 Inr (NFP_CPP_ID (word_of_int target) (ucast (NFP_CPP_ID_ACTION_of cpp_island_id))
                        (ucast (NFP_CPP_ID_TOKEN_of cpp_island_id)), addr)))"

text \<open>The island a memory unit address goes to under a translation mode: the island field of
  a direct address, else the island the index bit selects, with the low bits of its number replaced
  by the address bits below the index.\<close>

definition mu_island :: "u64 \<Rightarrow> int \<Rightarrow> bool \<Rightarrow> int \<Rightarrow> int \<Rightarrow> int" where
  "mu_island addr mode addr40 isld1 isld0 =
     (let lsb = (if addr40 then 8 else 0); isld = (if bit addr (29 + lsb) then isld1 else isld0) in
      if mode = 0 \<or> drop_bit (30 + lsb) addr AND 3 = 2 then uint (drop_bit (24 + lsb) addr AND 0x3f)
      else if mode = 1 then isld
      else if mode = 2 then (isld AND NOT 1) OR uint (drop_bit (28 + lsb) addr AND 1)
      else (isld AND NOT 3) OR uint (drop_bit (27 + lsb) addr AND 3))"

text \<open>A pair of access widths as the tables have them.\<close>

definition pp_ok :: "nat \<Rightarrow> bool" where
  "pp_ok pp \<longleftrightarrow> (\<exists>p q. p \<le> 2 \<and> q \<le> 2 \<and> pp = PUSHPULL p q)"

text \<open>The position of the island fields of a memory unit address for the two address sizes.\<close>

abbreviation mu_lsb :: "bool \<Rightarrow> nat" where "mu_lsb addr40 \<equiv> (if addr40 then 8 else 0)"

section \<open>Properties of identifiers and widths\<close>

lemma cpp_id_fields:
  assumes "t < 0x20" "a < 0x100" "k < 0x100" "i < 0x100"
  shows "NFP_CPP_ID_TARGET_of (NFP_CPP_ISLAND_ID t a k i) = ucast t \<and>
    NFP_CPP_ID_ACTION_of (NFP_CPP_ISLAND_ID t a k i) = ucast a \<and>
    NFP_CPP_ID_TOKEN_of (NFP_CPP_ISLAND_ID t a k i) = ucast k \<and>
    NFP_CPP_ID_ISLAND_of (NFP_CPP_ISLAND_ID t a k i) = ucast i"
proof -
  have "\<not> bit t n" if "5 \<le> n" for n using word_less_exp_bit [of t 5 n] assms that by simp
  then show ?thesis
    unfolding NFP_CPP_ID_TARGET_of_def NFP_CPP_ID_ACTION_of_def NFP_CPP_ID_TOKEN_of_def
      NFP_CPP_ID_ISLAND_of_def NFP_CPP_ISLAND_ID_def NFP_CPP_TARGET_ID_MASK_def
    by (simp add: word_bits_eval bit_simps)
qed

lemma AT_switch_mem: "AT_switch cpp_id rows = Some v \<Longrightarrow> \<exists>(a, t, p, q) \<in> set rows. v = PUSHPULL p q"
  by (induction rows) (auto split: if_splits)

lemma AT_default_ok:
  assumes "AT_default cpp_id rows dflt = Inr pp" "list_all (\<lambda>(a, t, p, q). p \<le> 2 \<and> q \<le> 2) rows"
    and "\<And>pp. dflt = Inr pp \<Longrightarrow> pp_ok pp"
  shows "pp_ok pp"
proof (cases "AT_switch cpp_id rows")
  case (Some v)
  then obtain a t p q where pq: "(a, t, p, q) \<in> set rows" "v = PUSHPULL p q" using AT_switch_mem by blast
  then have "p \<le> 2 \<and> q \<le> 2" using assms(2) by (force simp: list_all_iff)
  with Some assms(1) pq(2) show ?thesis unfolding AT_default_def pp_ok_def by auto
qed (use assms in \<open>simp add: AT_default_def\<close>)

lemma target_rw_ok: "target_rw cpp_id p = Inr pp \<Longrightarrow> p \<le> 2 \<Longrightarrow> pp_ok pp"
  unfolding target_rw_def by (erule AT_default_ok) simp_all

lemma mu_common_ok: "nfp6000_mu_common cpp_id = Inr pp \<Longrightarrow> pp_ok pp"
  unfolding nfp6000_mu_common_def by (erule AT_default_ok) (simp_all add: P32_def P64_def)

lemma nbi_ok:
  "nfp6000_nbi_dma cpp_id = Inr pp \<Longrightarrow> pp_ok pp"
  "nfp6000_nbi_stats cpp_id = Inr pp \<Longrightarrow> pp_ok pp"
  "nfp6000_nbi_tm cpp_id = Inr pp \<Longrightarrow> pp_ok pp"
  "nfp6000_nbi_ppc cpp_id = Inr pp \<Longrightarrow> pp_ok pp"
  unfolding nfp6000_nbi_dma_def nfp6000_nbi_stats_def nfp6000_nbi_tm_def nfp6000_nbi_ppc_def
  by (erule AT_default_ok; simp add: P32_def P64_def)+

lemma mu_ok:
  "nfp6000_mu_ctm cpp_id = Inr pp \<Longrightarrow> pp_ok pp"
  "nfp6000_mu_emu cpp_id = Inr pp \<Longrightarrow> pp_ok pp"
  "nfp6000_mu_imu cpp_id = Inr pp \<Longrightarrow> pp_ok pp"
  unfolding nfp6000_mu_ctm_def nfp6000_mu_emu_def nfp6000_mu_imu_def
  by (erule AT_default_ok mu_common_ok; simp add: P32_def P64_def mu_common_ok)+

lemma others_ok:
  "nfp6000_ila cpp_id = Inr pp \<Longrightarrow> pp_ok pp"
  "nfp6000_pci cpp_id = Inr pp \<Longrightarrow> pp_ok pp"
  "nfp6000_crypto cpp_id = Inr pp \<Longrightarrow> pp_ok pp"
  "nfp6000_cap_xpb cpp_id = Inr pp \<Longrightarrow> pp_ok pp"
  "nfp6000_cls cpp_id = Inr pp \<Longrightarrow> pp_ok pp"
  unfolding nfp6000_ila_def nfp6000_pci_def nfp6000_crypto_def nfp6000_cap_xpb_def nfp6000_cls_def
  by (erule AT_default_ok; simp add: P32_def P64_def target_rw_ok)+

lemma pushpull_ok: "nfp_target_pushpull cpp_id address = Inr pp \<Longrightarrow> pp_ok pp"
  unfolding nfp_target_pushpull_def nfp6000_nbi_def nfp6000_mu_def Let_def
  by (auto simp: P32_def P64_def split: if_splits dest: target_rw_ok nbi_ok mu_ok others_ok)

lemma pp_widths: "p \<le> 2 \<Longrightarrow> q \<le> 2 \<Longrightarrow>
   PUSH_WIDTH (PUSHPULL p q) = (if q = 0 then Inl EINVAL else Inr (2 * 2 ^ q)) \<and>
   PULL_WIDTH (PUSHPULL p q) = (if p = 0 then Inl EINVAL else Inr (2 * 2 ^ p))"
proof -
  assume "p \<le> 2" "q \<le> 2"
  then have "p \<in> {0, 1, 2}" "q \<in> {0, 1, 2}" by auto
  then show ?thesis by (auto simp: PUSH_WIDTH_def PULL_WIDTH_def PUSHPULL_def pushpull_width_def)
qed

text \<open>Every access the width tables admit moves words of 4 or 8 bytes in each direction it has.\<close>

theorem pushpull_widths:
  assumes "nfp_target_pushpull cpp_id address = Inr pp"
  shows "PUSH_WIDTH pp \<in> {Inl EINVAL, Inr 4, Inr 8} \<and> PULL_WIDTH pp \<in> {Inl EINVAL, Inr 4, Inr 8}"
proof -
  obtain p q where "p \<le> 2" "q \<le> 2" "pp = PUSHPULL p q"
    using pushpull_ok [OF assms] by (auto simp: pp_ok_def)
  then have "p \<in> {0, 1, 2}" "q \<in> {0, 1, 2}" by auto
  then show ?thesis using pp_widths [of p q] \<open>pp = _\<close> by auto
qed

theorem pushpull_widths_witness:
  "\<exists>pp. nfp_target_pushpull (NFP_CPP_ID 7 3 0) 0 = Inr pp \<and> PUSH_WIDTH pp = Inr 4 \<and>
     PULL_WIDTH pp \<in> {Inl EINVAL, Inr 4, Inr 8}"
proof -
  have "nfp_target_pushpull (NFP_CPP_ID 7 3 0) 0 = Inr (PUSHPULL 0 1)"
    by code_simp
  moreover have "PUSH_WIDTH (PUSHPULL 0 1) = Inr 4" by code_simp
  ultimately show ?thesis using pushpull_widths [of "NFP_CPP_ID 7 3 0" 0] by auto
qed

section \<open>Encoding and decoding island addresses\<close>

lemma mask_numerals: "(0x3f :: 'a::len word) = mask 6" "(3 :: 'a word) = mask 2" "(1 :: 'a word) = mask 1"
  by (simp_all add: mask_eq_exp_minus_1)

lemma and_BIT_ULL: "k < 64 \<Longrightarrow> a AND BIT_ULL k \<noteq> 0 \<longleftrightarrow> bit a k"
  using bit_and_iff [of a "BIT_ULL k" k]
  by (auto simp: nfp_bits intro!: bit_word_eqI) (auto simp: bit_simps nfp_bits)

lemma bit_set_island_field:
  "iid < 58 \<Longrightarrow> n < 64 \<Longrightarrow> bit (set_island_field a d iid) n =
     (if iid \<le> n \<and> n \<le> iid + 5 then bit (word_of_int d :: u64) (n - iid) else bit a n)"
  unfolding set_island_field_def Let_def by (auto simp: bit_simps nfp_bits)

lemma island_field:
  assumes "iid < 58" "0 \<le> d" "d < 64"
  shows "uint (drop_bit iid (set_island_field a d iid) AND 0x3f) = d"
proof -
  have "drop_bit iid (set_island_field a d iid) AND 0x3f = take_bit 6 (word_of_int d)"
    unfolding mask_numerals take_bit_eq_mask [symmetric]
    using assms by (intro bit_word_eqI) (auto simp: bit_simps bit_set_island_field)
  also have "uint \<dots> = d"
    using assms by (simp add: unsigned_take_bit_eq uint_word_of_int_eq take_bit_int_eq_self)
  finally show ?thesis .
qed

lemma find_pair:
  assumes "List.find (\<lambda>(i, v). d = isld ! i OR int v) (List.product [0, 1] [0..<m]) = Some (i, v)"
  shows "i \<in> {0, 1} \<and> v < m \<and> d = isld ! i OR int v"
  using find_SomeD [OF assms] by auto

lemma search_bits:
  assumes "nfp_encode_basic_search a d isld iid (iid + k) (2 ^ k) = Inr a'" "k = 1 \<or> k = 2" "iid + k < 64"
  shows "d = isld ! of_bool (bit a' (iid + k)) OR uint (take_bit k (drop_bit iid a'))"
    and "\<not> (iid \<le> n \<and> n \<le> iid + k) \<Longrightarrow> bit a' n = bit a n"
proof -
  obtain i v where find: "List.find (\<lambda>(i, v). d = isld ! i OR int v) (List.product [0, 1] [0..<2 ^ k]) = Some (i, v)"
    and a': "a' = (a AND NOT (GENMASK_ULL (iid + k) iid)) OR push_bit (iid + k) (of_nat i) OR push_bit iid (of_nat v)"
    using assms(1) by (auto simp: nfp_encode_basic_search_def split: option.splits)
  have iv: "i = 0 \<or> i = 1" "v < 2 ^ k" "d = isld ! i OR int v"
    using find_pair [OF find] by auto
  have "take_bit k v = v" using iv(2) by (simp add: take_bit_nat_eq_self)
  then have vb: "m < k" if "bit v m" for m using that bit_take_bit_iff [of k v m] by simp
  have bits: "bit a' n = (if iid \<le> n \<and> n < iid + k then bit (of_nat v :: u64) (n - iid)
      else if n = iid + k then i = 1 else bit a n)" if "n < 64" for n
    unfolding a' using that iv(1) assms(3)
    by (auto simp: bit_simps nfp_bits dest: vb)
  have "take_bit k (drop_bit iid a') = (of_nat v :: u64)"
  proof (rule bit_word_eqI)
    fix n assume "n < LENGTH(64)"
    then show "bit (take_bit k (drop_bit iid a')) n = bit (of_nat v :: u64) n"
      using assms(3) by (cases "n < k") (auto simp: bit_simps bits dest: vb)
  qed
  moreover have "v < 4" using iv(2) assms(2) by auto
  ultimately have "uint (take_bit k (drop_bit iid a')) = int v"
    by (simp add: unsigned_of_nat take_bit_nat_eq_self)
  moreover have "i = of_bool (bit a' (iid + k))" using iv(1) assms(2,3) by (auto simp: bits)
  ultimately show "d = isld ! of_bool (bit a' (iid + k)) OR uint (take_bit k (drop_bit iid a'))"
    using iv(3) by simp
  show "bit a' n = bit a n" if "\<not> (iid \<le> n \<and> n \<le> iid + k)"
    using bits [of n] that by (cases "n < 64") (auto dest: bit_imp_le_length)
qed

lemma isld_nth: "[x, y] ! of_bool b = (if b then y else x)"
  by simp

lemma index_bit:
  assumes "set_index_bit a d isld1 isld0 idx = Inr a'" "idx < 64"
  shows "d = (if bit a' idx then isld1 else isld0)" "n \<noteq> idx \<Longrightarrow> bit a' n = bit a n"
  using assms bit_imp_le_length [of a n] by (auto simp: set_index_bit_def bit_simps nfp_bits split: if_splits)





lemma direct_iff: "k < 63 \<Longrightarrow> drop_bit k a AND 3 = 2 \<longleftrightarrow> bit a (Suc k) \<and> \<not> bit a k" for a :: u64
proof
  assume k: "k < 63" and e: "drop_bit k a AND 3 = 2"
  have "bit (drop_bit k a AND 3) 1" "\<not> bit (drop_bit k a AND 3) 0" unfolding e by simp_all
  then show "bit a (Suc k) \<and> \<not> bit a k" by (simp_all add: bit_simps)
next
  assume k: "k < 63" and b: "bit a (Suc k) \<and> \<not> bit a k"
  have "take_bit 2 (drop_bit k a) = push_bit 1 1"
  proof (rule bit_word_eqI)
    fix n assume "n < LENGTH(64)"
    then show "bit (take_bit 2 (drop_bit k a)) n = bit (push_bit 1 1 :: u64) n"
      using b by (cases "n = 0 \<or> n = 1") (auto simp: bit_simps)
  qed
  then show "drop_bit k a AND 3 = 2"
    by (simp add: take_bit_eq_mask mask_numerals(2) [symmetric])
qed

lemma mu_direct_iff:
  "drop_bit (30 + mu_lsb addr40) x AND 3 = 2 \<longleftrightarrow>
     bit x (31 + mu_lsb addr40) \<and> \<not> bit x (30 + mu_lsb addr40)" for x :: u64
  using direct_iff [of "30 + mu_lsb addr40" x] by auto

lemma mu_island_direct:
  assumes "mode = 0 \<or> bit x (31 + mu_lsb addr40) \<and> \<not> bit x (30 + mu_lsb addr40)" "0 \<le> d" "d < 64"
  shows "mu_island (set_island_field x d (24 + mu_lsb addr40)) mode addr40 isld1 isld0 = d \<and>
      (\<forall>n < 24 + mu_lsb addr40. bit (set_island_field x d (24 + mu_lsb addr40)) n = bit x n)"
  using assms unfolding mu_island_def Let_def mu_direct_iff
  by (auto simp: island_field bit_set_island_field)

lemma encode_mu_island_012:
  assumes enc: "nfp_encode_mu a d mode addr40 isld1 isld0 = Inr a'" and d: "0 \<le> d" "d < 64"
    and mode: "mode = 0 \<or> mode = 1 \<or> mode = 2"
  shows "mu_island a' mode addr40 isld1 isld0 = d \<and> (\<forall>n < 24 + mu_lsb addr40. bit a' n = bit a n)"
proof -
  let ?da = "bit a (31 + mu_lsb addr40) \<and> \<not> bit a (30 + mu_lsb addr40)"
  note enc' = enc [unfolded nfp_encode_mu_def nfp_cppat_mu_locality_lsb_def]
  from mode consider "mode = 0 \<or> mode = 1 \<and> ?da \<or> mode = 2 \<and> ?da"
    | "mode = 1" "\<not> ?da" | "mode = 2" "\<not> ?da" by blast
  then show ?thesis
  proof cases
    case 1
    then have "a' = set_island_field a d (24 + mu_lsb addr40)"
      using enc' mu_direct_iff [of addr40 a] by (auto simp: NIC_NFP6000_MU_LOCALITY_DIRECT_def)
    with mu_island_direct [of mode a addr40 d isld1 isld0] d 1 show ?thesis by auto
  next
    case 2
    then have "set_index_bit a d isld1 isld0 (29 + mu_lsb addr40) = Inr a'"
      using enc' mu_direct_iff [of addr40 a] by (auto simp: NIC_NFP6000_MU_LOCALITY_DIRECT_def)
    from index_bit [OF this] 2 show ?thesis unfolding mu_island_def Let_def mu_direct_iff by auto
  next
    case 3
    then have "nfp_encode_basic_search a d [isld0 AND NOT 1, isld1 AND NOT 1]
        (28 + mu_lsb addr40) ((28 + mu_lsb addr40) + 1) (2 ^ 1) = Inr a'"
      using enc' mu_direct_iff [of addr40 a] by (auto simp: NIC_NFP6000_MU_LOCALITY_DIRECT_def)
    from search_bits [OF this] 3 show ?thesis
      unfolding isld_nth mu_island_def Let_def mu_direct_iff
      by (auto simp: take_bit_eq_mask mask_numerals [symmetric])
  qed
qed

lemma encode_mu_island_3:
  assumes enc: "nfp_encode_mu a d 3 addr40 isld1 isld0 = Inr a'" and d: "0 \<le> d" "d < 64"
    and loc: "\<not> bit a (30 + mu_lsb addr40)"
  shows "mu_island a' 3 addr40 isld1 isld0 = d \<and> (\<forall>n < 24 + mu_lsb addr40. bit a' n = bit a n)"
proof -
  let ?force = "d > 0 \<and> (d < 24 \<or> d > 26)"
  let ?x = "if ?force then a OR push_bit (30 + mu_lsb addr40) 2 else a"
  note enc' = enc [unfolded nfp_encode_mu_def nfp_cppat_mu_locality_lsb_def]
  have x: "bit ?x n = (bit a n \<or> ?force \<and> n = 31 + mu_lsb addr40)" for n
    using bit_push_bit_iff [of "30 + mu_lsb addr40" "2::u64" n]
      bit_exp_iff [of 1 "n - (30 + mu_lsb addr40)", where 'a = "64 word"]
    by (auto simp: bit_simps)
  show ?thesis
  proof (cases "?force \<or> bit a (31 + mu_lsb addr40)")
    case True
    then have "a' = set_island_field ?x d (24 + mu_lsb addr40)"
      using enc' loc mu_direct_iff [of addr40 a] by (auto simp: NIC_NFP6000_MU_LOCALITY_DIRECT_def)
    with mu_island_direct [of 3 ?x addr40 d isld1 isld0] d x True loc show ?thesis by auto
  next
    case False
    then have "nfp_encode_basic_search a d [isld0 AND NOT 3, isld1 AND NOT 3]
        (27 + mu_lsb addr40) ((27 + mu_lsb addr40) + 2) (2 ^ 2) = Inr a'"
      using enc' mu_direct_iff [of addr40 a] by (auto simp: NIC_NFP6000_MU_LOCALITY_DIRECT_def)
    from search_bits [OF this] False show ?thesis
      unfolding isld_nth mu_island_def Let_def mu_direct_iff
      by (auto simp: take_bit_eq_mask mask_numerals [symmetric])
  qed
qed



section \<open>Translation of a bus transaction\<close>

lemma cpp_id_of_parts:
  "NFP_CPP_ID_ISLAND_of (NFP_CPP_ID t a k) = 0"
  "NFP_CPP_ID_TARGET_of (NFP_CPP_ID t a k) = ucast (t AND 0x1f)"
  "NFP_CPP_ID_ACTION_of (NFP_CPP_ID t a k) = ucast a"
  "NFP_CPP_ID_TOKEN_of (NFP_CPP_ID t a k) = ucast k"
  unfolding NFP_CPP_ID_TARGET_of_def NFP_CPP_ID_ACTION_of_def NFP_CPP_ID_TOKEN_of_def
    NFP_CPP_ID_ISLAND_of_def NFP_CPP_ID_def NFP_CPP_TARGET_ID_MASK_def
  by (simp_all add: word_bits_eval bit_simps)

lemma ucast_target: "uint (t :: u8) < 16 \<Longrightarrow> ucast (word_of_int (uint t) AND 0x1f :: u32) = t"
proof -
  assume "uint t < 16"
  then have "t < 2 ^ 4" by (simp add: word_less_def)
  then have "\<not> bit t n" if "4 \<le> n" for n using word_less_exp_bit that by blast
  then show ?thesis by (simp add: word_bits_eval bit_simps)
qed

text \<open>Translating an island transaction keeps its target, action and token, clears the island,
  and is final: translating the result again, with any table or none, changes nothing.\<close>

theorem target_cpp_final:
  assumes "nfp_target_cpp cpp_id addr tab = Inr (cpp_id', addr')"
  shows "NFP_CPP_ID_ISLAND_of cpp_id' = 0 \<and> NFP_CPP_ID_TARGET_of cpp_id' = NFP_CPP_ID_TARGET_of cpp_id \<and>
    NFP_CPP_ID_ACTION_of cpp_id' = NFP_CPP_ID_ACTION_of cpp_id \<and>
    NFP_CPP_ID_TOKEN_of cpp_id' = NFP_CPP_ID_TOKEN_of cpp_id \<and>
    nfp_target_cpp cpp_id' addr' tab' = Inr (cpp_id', addr')"
proof -
  have t: "uint (NFP_CPP_ID_TARGET_of cpp_id) < 16"
    using assms by (auto simp: nfp_target_cpp_def Let_def split: if_splits)
  have "NFP_CPP_ID_ISLAND_of cpp_id' = 0 \<and> NFP_CPP_ID_TARGET_of cpp_id' = NFP_CPP_ID_TARGET_of cpp_id \<and>
    NFP_CPP_ID_ACTION_of cpp_id' = NFP_CPP_ID_ACTION_of cpp_id \<and>
    NFP_CPP_ID_TOKEN_of cpp_id' = NFP_CPP_ID_TOKEN_of cpp_id"
    using assms ucast_target [OF t]
    by (auto simp: nfp_target_cpp_def Let_def cpp_id_of_parts unsigned_eq_0_iff
        split: if_splits option.splits sum.splits)
  then show ?thesis using t by (simp add: nfp_target_cpp_def)
qed

theorem target_cpp_final_witness:
  "nfp_target_cpp (NFP_CPP_ISLAND_ID 7 3 0 24) 0x10 (Some (\<lambda>_. 0)) = Inr (NFP_CPP_ID 7 3 0, 0x18000010) \<and>
   nfp_target_cpp (NFP_CPP_ID 7 3 0) 0x18000010 None = Inr (NFP_CPP_ID 7 3 0, 0x18000010)"
proof -
  have "nfp_target_cpp (NFP_CPP_ISLAND_ID 7 3 0 24) 0x10 (Some (\<lambda>_. 0)) = Inr (NFP_CPP_ID 7 3 0, 0x18000010)"
    by code_simp
  with target_cpp_final [OF this] show ?thesis by simp
qed

end
