(* ===== verification/NFP_Bus.thy ===== *)
theory NFP_Bus
  imports NFP_Target
begin

text \<open>
  Programs that access the device over the CPP bus.  A C function that calls \<open>nfp_cpp_read\<close> and
  \<open>nfp_cpp_write\<close> is a tree of bus accesses with continuations, so that it can be run alone against
  a device (\<open>run\<close>) or interleaved with other clients access by access (\<open>bus_step\<close>).  The device is a
  parameter: a pair of functions on a state of its own.  On top of it the word accessors of
  \<^verbatim>\<open>src/nfpcore/nfp_cpplib.c\<close>, and the access windows of \<open>nfp_cpp_read\<close> and \<open>nfp_cpp_write\<close> of
  \<^verbatim>\<open>src/nfpcore/nfp_cppcore.c\<close>.
\<close>

section \<open>Byte order\<close>

text \<open>Little-endian words of a byte list; the list has at least as many bytes as the word.\<close>

definition get_unaligned_le16 :: "u8 list \<Rightarrow> u16" where
  "get_unaligned_le16 p = ucast (p ! 0) OR push_bit 8 (ucast (p ! 1))"

definition get_unaligned_le32 :: "u8 list \<Rightarrow> u32" where
  "get_unaligned_le32 p =
     ucast (p ! 0) OR push_bit 8 (ucast (p ! 1)) OR push_bit 16 (ucast (p ! 2)) OR push_bit 24 (ucast (p ! 3))"

definition get_unaligned_le64 :: "u8 list \<Rightarrow> u64" where
  "get_unaligned_le64 p =
     ucast (get_unaligned_le32 p) OR push_bit 32 (ucast (get_unaligned_le32 (drop 4 p)))"

definition put_unaligned_le32 :: "u32 \<Rightarrow> u8 list" where
  "put_unaligned_le32 v = [ucast v, ucast (drop_bit 8 v), ucast (drop_bit 16 v), ucast (drop_bit 24 v)]"

definition put_unaligned_le64 :: "u64 \<Rightarrow> u8 list" where
  "put_unaligned_le64 v = put_unaligned_le32 (ucast v) @ put_unaligned_le32 (ucast (drop_bit 32 v))"

section \<open>Bus programs\<close>

text \<open>A read returns the bytes read, a write the number of bytes written; \<open>Fault\<close> is the use of a
  null pointer.\<close>

datatype 'a cppm =
    Return 'a
  | Cpp_read u32 u64 nat "u8 list result \<Rightarrow> 'a cppm"
  | Cpp_write u32 u64 "u8 list" "nat result \<Rightarrow> 'a cppm"
  | Fault

primrec cpp_bind :: "'a cppm \<Rightarrow> ('a \<Rightarrow> 'b cppm) \<Rightarrow> 'b cppm" where
  "cpp_bind (Return x) f = f x"
| "cpp_bind (Cpp_read cpp_id addr len k) f = Cpp_read cpp_id addr len (\<lambda>r. cpp_bind (k r) f)"
| "cpp_bind (Cpp_write cpp_id addr bs k) f = Cpp_write cpp_id addr bs (\<lambda>r. cpp_bind (k r) f)"
| "cpp_bind Fault f = Fault"

record 's device =
  dev_read :: "u32 \<Rightarrow> u64 \<Rightarrow> nat \<Rightarrow> 's \<Rightarrow> u8 list result \<times> 's"
  dev_write :: "u32 \<Rightarrow> u64 \<Rightarrow> u8 list \<Rightarrow> 's \<Rightarrow> nat result \<times> 's"

primrec run :: "'s device \<Rightarrow> 'a cppm \<Rightarrow> 's \<Rightarrow> ('a \<times> 's) option" where
  "run D (Return x) = (\<lambda>s. Some (x, s))"
| "run D (Cpp_read cpp_id addr len k) = (\<lambda>s. case dev_read D cpp_id addr len s of (r, s') \<Rightarrow> run D (k r) s')"
| "run D (Cpp_write cpp_id addr bs k) = (\<lambda>s. case dev_write D cpp_id addr bs s of (r, s') \<Rightarrow> run D (k r) s')"
| "run D Fault = (\<lambda>s. None)"

text \<open>One bus access of a program.\<close>

inductive bus_step :: "'s device \<Rightarrow> 'a cppm \<times> 's \<Rightarrow> 'a cppm \<times> 's \<Rightarrow> bool" for D where
  bus_read: "dev_read D cpp_id addr len s = (r, s') \<Longrightarrow> bus_step D (Cpp_read cpp_id addr len k, s) (k r, s')"
| bus_write: "dev_write D cpp_id addr bs s = (r, s') \<Longrightarrow> bus_step D (Cpp_write cpp_id addr bs k, s) (k r, s')"

inductive_cases bus_stepE: "bus_step D (p, s) (p', s')"

section \<open>Word accessors\<close>

definition nfp_cpp_readl :: "u32 \<Rightarrow> u64 \<Rightarrow> (u32 result \<Rightarrow> 'a cppm) \<Rightarrow> 'a cppm" where
  "nfp_cpp_readl cpp_id address k =
     Cpp_read cpp_id address 4
       (\<lambda>r. case r of
          Inl err \<Rightarrow> k (Inl err)
        | Inr tmp \<Rightarrow> if length tmp \<noteq> 4 then k (Inl EIO) else k (Inr (get_unaligned_le32 tmp)))"

definition nfp_cpp_writel :: "u32 \<Rightarrow> u64 \<Rightarrow> u32 \<Rightarrow> (unit result \<Rightarrow> 'a cppm) \<Rightarrow> 'a cppm" where
  "nfp_cpp_writel cpp_id address value k =
     Cpp_write cpp_id address (put_unaligned_le32 value)
       (\<lambda>r. case r of
          Inl err \<Rightarrow> k (Inl err)
        | Inr n \<Rightarrow> if n = 4 then k (Inr ()) else k (Inl EIO))"

definition nfp_cpp_readq :: "u32 \<Rightarrow> u64 \<Rightarrow> (u64 result \<Rightarrow> 'a cppm) \<Rightarrow> 'a cppm" where
  "nfp_cpp_readq cpp_id address k =
     Cpp_read cpp_id address 8
       (\<lambda>r. case r of
          Inl err \<Rightarrow> k (Inl err)
        | Inr tmp \<Rightarrow> if length tmp \<noteq> 8 then k (Inl EIO) else k (Inr (get_unaligned_le64 tmp)))"

definition nfp_cpp_writeq :: "u32 \<Rightarrow> u64 \<Rightarrow> u64 \<Rightarrow> (unit result \<Rightarrow> 'a cppm) \<Rightarrow> 'a cppm" where
  "nfp_cpp_writeq cpp_id address value k =
     Cpp_write cpp_id address (put_unaligned_le64 value)
       (\<lambda>r. case r of
          Inl err \<Rightarrow> k (Inl err)
        | Inr n \<Rightarrow> if n = 8 then k (Inr ()) else k (Inl EIO))"

definition nfp_bytemask :: "int \<Rightarrow> u64 \<Rightarrow> u8" where
  "nfp_bytemask width addr =
     (if width = 8 then 0xff
      else if width = 4 then push_bit (unat (addr AND 4)) 0x0f
      else if width = 2 then push_bit (unat (addr AND 6)) 0x03
      else if width = 1 then push_bit (unat (addr AND 7)) 0x01
      else 0)"

section \<open>Access windows\<close>

definition NFP_CPP_SAFE_AREA_SIZE :: nat where "NFP_CPP_SAFE_AREA_SIZE = 2 * 1024 * 1024"

text \<open>The kernel macro \<open>ALIGN(x, a)\<close> for a power of two \<open>a\<close>.\<close>

definition ALIGN :: "nat \<Rightarrow> nat \<Rightarrow> nat" where
  "ALIGN x a = (x + (a - 1)) div a * a"

definition access_chunk :: "nat \<Rightarrow> nat \<Rightarrow> nat \<Rightarrow> nat" where
  "access_chunk address offset len =
     min (len - offset) (ALIGN (address + offset + 1) NFP_CPP_SAFE_AREA_SIZE - (address + offset))"

lemma access_chunk_pos: "offset < len \<Longrightarrow> 0 < access_chunk address offset len"
proof -
  assume "offset < len"
  moreover have "address + offset < ALIGN (address + offset + 1) NFP_CPP_SAFE_AREA_SIZE"
    unfolding ALIGN_def NFP_CPP_SAFE_AREA_SIZE_def by simp
  ultimately show ?thesis by (simp add: access_chunk_def)
qed

text \<open>The loop of \<open>nfp_cpp_read\<close> and \<open>nfp_cpp_write\<close>: \<open>raw\<close> is the access to one area
  (\<open>__nfp_cpp_read\<close> or \<open>__nfp_cpp_write\<close>), which returns a byte count; the result is what the C
  function returns together with the accesses made.\<close>

function nfp_cpp_rw_loop ::
  "(nat \<Rightarrow> nat \<Rightarrow> nat result) \<Rightarrow> nat \<Rightarrow> nat \<Rightarrow> nat \<Rightarrow> nat result \<times> (nat \<times> nat) list" where
  "nfp_cpp_rw_loop raw address len offset =
     (if offset < len then
        let n = access_chunk address offset len in
        case raw (address + offset) n of
          Inl err \<Rightarrow> (Inl err, [(address + offset, n)])
        | Inr ret \<Rightarrow>
            if ret \<noteq> n then (Inr (offset + n), [(address + offset, n)])
            else
              case nfp_cpp_rw_loop raw address len (offset + n) of
                (res, log) \<Rightarrow> (res, (address + offset, n) # log)
      else (Inr len, []))"
  by pat_completeness auto

termination
  by (relation "measure (\<lambda>(raw, address, len, offset). len - offset)")
    (auto intro!: diff_less_mono2 simp: access_chunk_pos)

declare nfp_cpp_rw_loop.simps [simp del]

definition nfp_cpp_rw :: "(nat \<Rightarrow> nat \<Rightarrow> nat result) \<Rightarrow> nat \<Rightarrow> nat \<Rightarrow> nat result \<times> (nat \<times> nat) list" where
  "nfp_cpp_rw raw address len = nfp_cpp_rw_loop raw address len 0"

text \<open>An access that stays within one window.\<close>

definition in_window :: "nat \<times> nat \<Rightarrow> bool" where
  "in_window w \<longleftrightarrow>
     snd w > 0 \<and> fst w div NFP_CPP_SAFE_AREA_SIZE = (fst w + snd w - 1) div NFP_CPP_SAFE_AREA_SIZE"

text \<open>Accesses that follow each other without a gap, from one address to another.\<close>

fun contiguous :: "nat \<Rightarrow> (nat \<times> nat) list \<Rightarrow> nat \<Rightarrow> bool" where
  "contiguous a [] b \<longleftrightarrow> a = b"
| "contiguous a ((x, n) # ws) b \<longleftrightarrow> x = a \<and> contiguous (x + n) ws b"

section \<open>Lemmas\<close>

lemma run_bind: "run D (cpp_bind p f) s = (case run D p s of None \<Rightarrow> None | Some (x, s') \<Rightarrow> run D (f x) s')"
  by (induction p arbitrary: s) (auto split: prod.splits)

lemma le32_roundtrip [simp]: "get_unaligned_le32 (put_unaligned_le32 v) = v"
  unfolding get_unaligned_le32_def put_unaligned_le32_def
  by (simp add: word_bits_eval bit_simps)

lemma length_put_le32 [simp]: "length (put_unaligned_le32 v) = 4"
  by (simp add: put_unaligned_le32_def)

lemma get_le32_append [simp]: "length p = 4 \<Longrightarrow> get_unaligned_le32 (p @ q) = get_unaligned_le32 p"
  by (simp add: get_unaligned_le32_def nth_append)

lemma le64_roundtrip [simp]: "get_unaligned_le64 (put_unaligned_le64 v) = v"
proof -
  have "ucast (ucast v :: u32) OR push_bit 32 (ucast (ucast (drop_bit 32 v) :: u32)) = v"
    by (rule bit_word_eqI) (auto simp: bit_simps)
  then show ?thesis by (simp add: get_unaligned_le64_def put_unaligned_le64_def)
qed

lemma access_chunk_window:
  assumes "offset < len"
  shows "in_window (address + offset, access_chunk address offset len)"
proof -
  let ?S = NFP_CPP_SAFE_AREA_SIZE and ?a = "address + offset"
  have S: "0 < ?S" by (simp add: NFP_CPP_SAFE_AREA_SIZE_def)
  have "ALIGN (?a + 1) ?S = (?a div ?S + 1) * ?S"
    using S by (simp add: ALIGN_def div_add_self2)
  moreover have "?a < (?a div ?S + 1) * ?S"
    using S by (simp add: dividend_less_div_times)
  ultimately have hi: "?a + access_chunk address offset len \<le> (?a div ?S + 1) * ?S"
    unfolding access_chunk_def by linarith
  have pos: "0 < access_chunk address offset len" by (rule access_chunk_pos [OF assms])
  have lo: "?S * (?a div ?S) \<le> ?a + access_chunk address offset len - 1"
    using times_div_less_eq_dividend [of ?S ?a] pos by linarith
  have hi': "?a + access_chunk address offset len - 1 < ?S * Suc (?a div ?S)"
    using hi pos by (simp add: mult.commute)
  have "(?a + access_chunk address offset len - 1) div ?S = ?a div ?S"
    using lo hi' by (rule div_nat_eqI)
  with pos show ?thesis unfolding in_window_def by simp
qed

lemma rw_loop_props:
  "nfp_cpp_rw_loop raw address len offset = (res, log) \<Longrightarrow> offset \<le> len \<Longrightarrow>
     list_all in_window log \<and>
     ((\<forall>a n. raw a n = Inr n) \<longrightarrow> res = Inr len \<and> contiguous (address + offset) log (address + len))"
proof (induction raw address len offset arbitrary: res log rule: nfp_cpp_rw_loop.induct)
  case (1 raw address len offset)
  let ?n = "access_chunk address offset len"
  have le: "offset + ?n \<le> len" if "offset < len" using that by (simp add: access_chunk_def)
  show ?case
  proof (cases "offset < len \<and> raw (address + offset) ?n = Inr ?n")
    case True
    obtain res' log' where rec: "nfp_cpp_rw_loop raw address len (offset + ?n) = (res', log')" by fastforce
    from True rec "1.prems"(1) have "res = res'" "log = (address + offset, ?n) # log'"
      by (auto simp: nfp_cpp_rw_loop.simps [of raw address len offset] Let_def)
    with "1.IH" [of ?n ?n res' log'] rec True le access_chunk_window [of offset len address] show ?thesis
      by (auto simp: add.assoc)
  next
    case False
    with "1.prems" access_chunk_window [of offset len address] show ?thesis
      by (auto simp: nfp_cpp_rw_loop.simps [of raw address len offset] Let_def split: if_splits sum.splits prod.splits)
  qed
qed



lemma access_chunk_single: "in_window (address, len) \<Longrightarrow> access_chunk address 0 len = len"
proof -
  let ?S = NFP_CPP_SAFE_AREA_SIZE
  assume w: "in_window (address, len)"
  have S: "0 < ?S" by (simp add: NFP_CPP_SAFE_AREA_SIZE_def)
  have "address + len - 1 < (address div ?S + 1) * ?S"
    using w S dividend_less_div_times [of ?S "address + len - 1"] by (simp add: in_window_def)
  moreover have "ALIGN (address + 1) ?S = (address div ?S + 1) * ?S"
    using S by (simp add: ALIGN_def div_add_self2)
  ultimately show ?thesis using w by (simp add: access_chunk_def in_window_def)
qed

text \<open>A short access is reported as a complete one: whatever count the access to the last window
  returns, the caller gets the full length, and with it the bytes that were never transferred.\<close>

theorem cpp_rw_short_count:
  assumes "in_window (address, len)" "raw address len = Inr ret"
  shows "fst (nfp_cpp_rw raw address len) = Inr len"
proof -
  have "0 < len" using assms(1) by (simp add: in_window_def)
  then show ?thesis
    using assms access_chunk_single [OF assms(1)]
    by (simp add: nfp_cpp_rw_def nfp_cpp_rw_loop.simps [of raw address len 0]
        nfp_cpp_rw_loop.simps [of raw address len len])
qed

theorem cpp_rw_short_count_witness:
  "in_window (0, 4) \<and> fst (nfp_cpp_rw (\<lambda>a n. Inr 0) 0 4) = Inr 4"
proof -
  have "in_window (0, 4)" by (simp add: in_window_def NFP_CPP_SAFE_AREA_SIZE_def)
  moreover from this have "fst (nfp_cpp_rw (\<lambda>a n. Inr 0) 0 4) = Inr 4"
    by (rule cpp_rw_short_count) (rule refl)
  ultimately show ?thesis ..
qed

end
