(* ===== verification/NFP_Mutex.thy ===== *)
theory NFP_Mutex
  imports NFP_Bus
begin

text \<open>
  The inter-processor mutex of \<^verbatim>\<open>src/nfpcore/nfp_mutex.c\<close>: a 64-bit location of device memory holding
  a lock word (owner interface and state) and a key, taken with the memory unit's atomic test-and-set.
  A handle is local to one client; \<open>interface\<close> is the result of \<open>nfp_cpp_interface(cpp)\<close>.  The
  operations are bus programs, so that mutual exclusion can be stated for clients that are interleaved
  access by access.
\<close>

section \<open>Handles and lock words\<close>

record nfp_cpp_mutex =
  mutex_target :: int
  mutex_depth :: u16
  mutex_address :: u64
  mutex_key :: u32

definition nfp_mutex_locked :: "u16 \<Rightarrow> u32" where
  "nfp_mutex_locked interface = push_bit 16 (ucast interface) OR 0x000f"

definition nfp_mutex_unlocked :: "u16 \<Rightarrow> u32" where
  "nfp_mutex_unlocked interface = push_bit 16 (ucast interface) OR 0x0000"

definition nfp_mutex_owner :: "u32 \<Rightarrow> u32" where
  "nfp_mutex_owner val = drop_bit 16 val"

definition nfp_mutex_is_locked :: "u32 \<Rightarrow> bool" where
  "nfp_mutex_is_locked val \<longleftrightarrow> val AND 0xffff = 0x000f"

definition nfp_mutex_is_unlocked :: "u32 \<Rightarrow> bool" where
  "nfp_mutex_is_unlocked val \<longleftrightarrow> val AND 0xffff = 0"

definition NFP_MUTEX_DEPTH_MAX :: u16 where "NFP_MUTEX_DEPTH_MAX = 0xffff"

definition NFP_CPP_INTERFACE_TYPE_INVALID :: u16 where "NFP_CPP_INTERFACE_TYPE_INVALID = 0x0"

definition nfp_cpp_mutex_validate :: "u16 \<Rightarrow> int \<Rightarrow> u64 \<Rightarrow> unit result" where
  "nfp_cpp_mutex_validate interface target address =
     (if NFP_CPP_INTERFACE_TYPE_of interface = NFP_CPP_INTERFACE_TYPE_INVALID then Inl EINVAL
      else if address AND 7 \<noteq> 0 then Inl EINVAL
      else if target \<noteq> NFP_CPP_TARGET_MU then Inl EINVAL
      else Inr ())"

section \<open>Operations\<close>

definition atomic_read_id :: "int \<Rightarrow> u32" where
  "atomic_read_id target = NFP_CPP_ID (word_of_int target) 3 0"

definition atomic_write_id :: "int \<Rightarrow> u32" where
  "atomic_write_id target = NFP_CPP_ID (word_of_int target) 4 0"

definition test_set_imm_id :: "int \<Rightarrow> u32" where
  "test_set_imm_id target = NFP_CPP_ID (word_of_int target) 5 3"

definition nfp_cpp_mutex_init :: "u16 \<Rightarrow> int \<Rightarrow> u64 \<Rightarrow> u32 \<Rightarrow> unit result cppm" where
  "nfp_cpp_mutex_init interface target address key =
     (let muw = atomic_write_id target in
      case nfp_cpp_mutex_validate interface target address of
        Inl err \<Rightarrow> Return (Inl err)
      | Inr _ \<Rightarrow>
          nfp_cpp_writel muw (address + 4) key
            (\<lambda>r. case r of
               Inl err \<Rightarrow> Return (Inl err)
             | Inr _ \<Rightarrow> nfp_cpp_writel muw address (nfp_mutex_locked interface) Return))"

text \<open>The result \<open>None\<close> is the null pointer; \<open>alloc_ok\<close> is whether the kernel has memory for the handle.\<close>

definition nfp_cpp_mutex_alloc :: "bool \<Rightarrow> u16 \<Rightarrow> int \<Rightarrow> u64 \<Rightarrow> u32 \<Rightarrow> nfp_cpp_mutex option cppm" where
  "nfp_cpp_mutex_alloc alloc_ok interface target address key =
     (case nfp_cpp_mutex_validate interface target address of
        Inl _ \<Rightarrow> Return None
      | Inr _ \<Rightarrow>
          nfp_cpp_readl (atomic_read_id target) (address + 4)
            (\<lambda>r. case r of
               Inl _ \<Rightarrow> Return None
             | Inr tmp \<Rightarrow>
                 if tmp \<noteq> key then Return None
                 else if \<not> alloc_ok then Return None
                 else Return (Some \<lparr> mutex_target = target, mutex_depth = 0,
                                     mutex_address = address, mutex_key = key \<rparr>)))"

definition nfp_cpp_mutex_unlock :: "u16 \<Rightarrow> nfp_cpp_mutex \<Rightarrow> (unit result \<times> nfp_cpp_mutex) cppm" where
  "nfp_cpp_mutex_unlock interface mutex =
     (let muw = atomic_write_id (mutex_target mutex); mur = atomic_read_id (mutex_target mutex) in
      if mutex_depth mutex > 1 then
        Return (Inr (), mutex\<lparr> mutex_depth := mutex_depth mutex - 1 \<rparr>)
      else
        nfp_cpp_readl mur (mutex_address mutex + 4)
          (\<lambda>r. case r of
             Inl err \<Rightarrow> Return (Inl err, mutex)
           | Inr key \<Rightarrow>
               if key \<noteq> mutex_key mutex then Return (Inl EPERM, mutex)
               else
                 nfp_cpp_readl mur (mutex_address mutex)
                   (\<lambda>r. case r of
                      Inl err \<Rightarrow> Return (Inl err, mutex)
                    | Inr val \<Rightarrow>
                        if val \<noteq> nfp_mutex_locked interface then Return (Inl EACCES, mutex)
                        else
                          nfp_cpp_writel muw (mutex_address mutex) (nfp_mutex_unlocked interface)
                            (\<lambda>r. case r of
                               Inl err \<Rightarrow> Return (Inl err, mutex)
                             | Inr _ \<Rightarrow> Return (Inr (), mutex\<lparr> mutex_depth := 0 \<rparr>)))))"

definition nfp_cpp_mutex_trylock :: "u16 \<Rightarrow> nfp_cpp_mutex \<Rightarrow> (unit result \<times> nfp_cpp_mutex) cppm" where
  "nfp_cpp_mutex_trylock interface mutex =
     (let muw = atomic_write_id (mutex_target mutex); mus = test_set_imm_id (mutex_target mutex);
          mur = atomic_read_id (mutex_target mutex) in
      if mutex_depth mutex > 0 then
        (if mutex_depth mutex = NFP_MUTEX_DEPTH_MAX then Return (Inl E2BIG, mutex)
         else Return (Inr (), mutex\<lparr> mutex_depth := mutex_depth mutex + 1 \<rparr>))
      else
        nfp_cpp_readl mur (mutex_address mutex + 4)
          (\<lambda>r. case r of
             Inl err \<Rightarrow> Return (Inl err, mutex)
           | Inr key \<Rightarrow>
               if key \<noteq> mutex_key mutex then Return (Inl EPERM, mutex)
               else
                 nfp_cpp_readl mus (mutex_address mutex)
                   (\<lambda>r. case r of
                      Inl err \<Rightarrow> Return (Inl err, mutex)
                    | Inr tmp \<Rightarrow>
                        if nfp_mutex_is_unlocked tmp then
                          nfp_cpp_writel muw (mutex_address mutex) (nfp_mutex_locked interface)
                            (\<lambda>r. case r of
                               Inl err \<Rightarrow> Return (Inl err, mutex)
                             | Inr _ \<Rightarrow> Return (Inr (), mutex\<lparr> mutex_depth := 1 \<rparr>))
                        else Return (Inl (if nfp_mutex_is_locked tmp then EBUSY else EINVAL), mutex))))"

text \<open>The waiting loop: the list has one flag for each sleep until the deadline, which says whether
  a signal interrupted it.\<close>

fun nfp_cpp_mutex_lock :: "bool list \<Rightarrow> u16 \<Rightarrow> nfp_cpp_mutex \<Rightarrow> (unit result \<times> nfp_cpp_mutex) cppm" where
  "nfp_cpp_mutex_lock sleeps interface mutex =
     cpp_bind (nfp_cpp_mutex_trylock interface mutex)
       (\<lambda>(r, mutex).
          if r \<noteq> Inl EBUSY then Return (r, mutex)
          else
            case sleeps of
              [] \<Rightarrow> Return (Inl EBUSY, mutex)
            | interrupted # sleeps' \<Rightarrow>
                if interrupted then Return (Inl ERESTARTSYS, mutex)
                else if sleeps' = [] then Return (Inl EBUSY, mutex)
                else nfp_cpp_mutex_lock sleeps' interface mutex)"

text \<open>The result tells whether the lock was broken.\<close>

definition nfp_cpp_mutex_reclaim :: "u16 \<Rightarrow> int \<Rightarrow> u64 \<Rightarrow> bool result cppm" where
  "nfp_cpp_mutex_reclaim interface target address =
     (case nfp_cpp_mutex_validate interface target address of
        Inl err \<Rightarrow> Return (Inl err)
      | Inr _ \<Rightarrow>
          nfp_cpp_readl (atomic_read_id target) address
            (\<lambda>r. case r of
               Inl err \<Rightarrow> Return (Inl err)
             | Inr tmp \<Rightarrow>
                 if nfp_mutex_is_unlocked tmp \<or> nfp_mutex_owner tmp \<noteq> ucast interface then Return (Inr False)
                 else
                   nfp_cpp_writel (atomic_write_id target) address (nfp_mutex_unlocked interface)
                     (\<lambda>r. case r of
                        Inl err \<Rightarrow> Return (Inl err)
                      | Inr _ \<Rightarrow> Return (Inr True))))"

section \<open>The memory unit's atomic engine\<close>

text \<open>What the code relies on of the device, for the 32-bit words \<open>word s a\<close> of a state \<open>s\<close>: an atomic
  read changes nothing and a complete one returns the word; a test-and-set returns the word and sets the
  low four bits, and one that fails may or may not have set them; a write that reports four bytes has
  stored the word, any other has stored nothing.\<close>

definition atomic_engine :: "'s device \<Rightarrow> ('s \<Rightarrow> u64 \<Rightarrow> u32) \<Rightarrow> bool" where
  "atomic_engine D word \<longleftrightarrow>
     (\<forall>a s r s'. dev_read D (atomic_read_id NFP_CPP_TARGET_MU) a 4 s = (r, s') \<longrightarrow>
        word s' = word s \<and> (\<forall>bs. r = Inr bs \<and> length bs = 4 \<longrightarrow> get_unaligned_le32 bs = word s a)) \<and>
     (\<forall>a s r s'. dev_read D (test_set_imm_id NFP_CPP_TARGET_MU) a 4 s = (r, s') \<longrightarrow>
        word s' \<in> {word s, (word s)(a := word s a OR 0xf)} \<and>
        (\<forall>bs. r = Inr bs \<and> length bs = 4 \<longrightarrow>
           word s' = (word s)(a := word s a OR 0xf) \<and> get_unaligned_le32 bs = word s a)) \<and>
     (\<forall>a v s r s'. dev_write D (atomic_write_id NFP_CPP_TARGET_MU) a (put_unaligned_le32 v) s = (r, s') \<longrightarrow>
        word s' = (if r = Inr 4 then (word s)(a := v) else word s))"

text \<open>A device that answers every word access completely.\<close>

definition responsive :: "'s device \<Rightarrow> bool" where
  "responsive D \<longleftrightarrow>
     (\<forall>cpp_id a s. \<exists>bs s'. dev_read D cpp_id a 4 s = (Inr bs, s') \<and> length bs = 4) \<and>
     (\<forall>cpp_id a v s. \<exists>s'. dev_write D cpp_id a (put_unaligned_le32 v) s = (Inr 4, s'))"

text \<open>A memory that behaves so: the state is the words, and an access moves consecutive ones.\<close>

definition mu_memory :: "(u64 \<Rightarrow> u32) device" where
  "mu_memory =
     \<lparr> dev_read = (\<lambda>cpp_id a len m.
         (Inr (concat (map (\<lambda>j. put_unaligned_le32 (m (a + 4 * of_nat j))) [0..<len div 4])),
          if cpp_id = test_set_imm_id NFP_CPP_TARGET_MU then m(a := m a OR 0xf) else m)),
       dev_write = (\<lambda>cpp_id a bs m. (Inr 4, m(a := get_unaligned_le32 bs))) \<rparr>"

section \<open>Clients of one mutex\<close>

record client =
  cl_mutex :: nfp_cpp_mutex
  cl_run :: "(unit result \<times> nfp_cpp_mutex) cppm option"

text \<open>A system state is the device state and the clients; a step starts an operation, makes one bus
  access of a running one, or ends it.  A client unlocks only what it has locked.\<close>

type_synonym 's mutex_sys = "'s \<times> (nat \<Rightarrow> client)"

inductive mutex_step :: "'s device \<Rightarrow> (nat \<Rightarrow> u16) \<Rightarrow> 's mutex_sys \<Rightarrow> 's mutex_sys \<Rightarrow> bool" for D iface where
  start_trylock: "cl_run (cs i) = None \<Longrightarrow>
     mutex_step D iface (s, cs)
       (s, cs(i := (cs i)\<lparr> cl_run := Some (nfp_cpp_mutex_trylock (iface i) (cl_mutex (cs i))) \<rparr>))"
| start_unlock: "cl_run (cs i) = None \<Longrightarrow> mutex_depth (cl_mutex (cs i)) > 0 \<Longrightarrow>
     mutex_step D iface (s, cs)
       (s, cs(i := (cs i)\<lparr> cl_run := Some (nfp_cpp_mutex_unlock (iface i) (cl_mutex (cs i))) \<rparr>))"
| access: "cl_run (cs i) = Some p \<Longrightarrow> bus_step D (p, s) (p', s') \<Longrightarrow>
     mutex_step D iface (s, cs) (s', cs(i := (cs i)\<lparr> cl_run := Some p' \<rparr>))"
| finish: "cl_run (cs i) = Some (Return (r, mutex)) \<Longrightarrow>
     mutex_step D iface (s, cs) (s, cs(i := \<lparr> cl_mutex = mutex, cl_run = None \<rparr>))"

section \<open>Ownership of bus programs\<close>

definition handle_at :: "u64 \<Rightarrow> nfp_cpp_mutex \<Rightarrow> bool" where
  "handle_at A mutex \<longleftrightarrow> mutex_target mutex = NFP_CPP_TARGET_MU \<and> mutex_address mutex = A"

text \<open>\<open>lock_prog A held p\<close>: the program \<open>p\<close>, of a client that owns the lock word at \<open>A\<close> if
  \<open>held\<close>, writes it only while it owns it, and ends with a handle of non-zero depth exactly if it owns
  it then.  A test-and-set that returns an unlocked word acquires ownership; a completed write of an
  unlocked word gives it up.\<close>

inductive lock_prog :: "u64 \<Rightarrow> bool \<Rightarrow> (unit result \<times> nfp_cpp_mutex) cppm \<Rightarrow> bool" for A where
  lp_return: "handle_at A mutex \<Longrightarrow> mutex_depth mutex > 0 \<longleftrightarrow> held \<Longrightarrow> lock_prog A held (Return (r, mutex))"
| lp_read: "(\<And>r. lock_prog A held (k r)) \<Longrightarrow>
     lock_prog A held (Cpp_read (atomic_read_id NFP_CPP_TARGET_MU) a 4 k)"
| lp_test_set: "(\<And>r. (\<nexists>bs. r = Inr bs \<and> length bs = 4) \<Longrightarrow> lock_prog A False (k r)) \<Longrightarrow>
     (\<And>bs. length bs = 4 \<Longrightarrow>
        lock_prog A (nfp_mutex_is_unlocked (get_unaligned_le32 bs)) (k (Inr bs))) \<Longrightarrow>
     lock_prog A False (Cpp_read (test_set_imm_id NFP_CPP_TARGET_MU) A 4 k)"
| lp_write_locked: "nfp_mutex_is_locked v \<Longrightarrow> lock_prog A True (k (Inr 4)) \<Longrightarrow>
     (\<And>r. r \<noteq> Inr 4 \<Longrightarrow> lock_prog A False (k r)) \<Longrightarrow>
     lock_prog A True (Cpp_write (atomic_write_id NFP_CPP_TARGET_MU) A (put_unaligned_le32 v) k)"
| lp_write_unlocked: "lock_prog A False (k (Inr 4)) \<Longrightarrow>
     (\<And>r. r \<noteq> Inr 4 \<Longrightarrow> lock_prog A True (k r)) \<Longrightarrow>
     lock_prog A True (Cpp_write (atomic_write_id NFP_CPP_TARGET_MU) A (put_unaligned_le32 v) k)"

inductive_cases lock_prog_returnE: "lock_prog A held (Return x)"
inductive_cases lock_prog_readE: "lock_prog A held (Cpp_read cpp_id a len k)"
inductive_cases lock_prog_writeE: "lock_prog A held (Cpp_write cpp_id a bs k)"

text \<open>A system state is consistent if ownership can be assigned to at most one client such that
  every client's program respects it and an owned lock word is in the locked state.\<close>

definition client_prog :: "u64 \<Rightarrow> bool \<Rightarrow> client \<Rightarrow> bool" where
  "client_prog A held c \<longleftrightarrow>
     (case cl_run c of
        None \<Rightarrow> handle_at A (cl_mutex c) \<and> (mutex_depth (cl_mutex c) > 0 \<longleftrightarrow> held)
      | Some p \<Rightarrow> lock_prog A held p)"

definition mutex_inv :: "('s \<Rightarrow> u64 \<Rightarrow> u32) \<Rightarrow> u64 \<Rightarrow> 's mutex_sys \<Rightarrow> bool" where
  "mutex_inv word A sys \<longleftrightarrow>
     (\<exists>owner. (\<forall>i. client_prog A (owner = Some i) (snd sys i)) \<and>
        (owner \<noteq> None \<longrightarrow> nfp_mutex_is_locked (word (fst sys) A)))"

section \<open>Mutual exclusion\<close>

lemma is_locked_locked [simp]: "nfp_mutex_is_locked (nfp_mutex_locked i)"
  unfolding nfp_mutex_is_locked_def nfp_mutex_locked_def by (simp add: word_bits_eval bit_simps)

lemma is_unlocked_unlocked [simp]: "nfp_mutex_is_unlocked (nfp_mutex_unlocked i)"
  unfolding nfp_mutex_is_unlocked_def nfp_mutex_unlocked_def by (simp add: word_bits_eval bit_simps)

lemma unlocked_not_locked: "nfp_mutex_is_unlocked v \<Longrightarrow> \<not> nfp_mutex_is_locked v"
  by (simp add: nfp_mutex_is_unlocked_def nfp_mutex_is_locked_def)

lemma test_set_locks:
  "nfp_mutex_is_unlocked v \<Longrightarrow> nfp_mutex_is_locked (v OR 0xf)"
  "nfp_mutex_is_locked v \<Longrightarrow> nfp_mutex_is_locked (v OR 0xf)"
  unfolding nfp_mutex_is_unlocked_def nfp_mutex_is_locked_def
  by (simp_all add: bit.conj_disj_distrib2)

lemma lock_prog_readl:
  "(\<And>r. lock_prog A held (k r)) \<Longrightarrow>
     lock_prog A held (nfp_cpp_readl (atomic_read_id NFP_CPP_TARGET_MU) a k)"
  unfolding nfp_cpp_readl_def by (rule lp_read) (auto split: sum.split)

lemma lock_prog_test_set:
  "(\<And>e. lock_prog A False (k (Inl e))) \<Longrightarrow>
   (\<And>v. lock_prog A (nfp_mutex_is_unlocked v) (k (Inr v))) \<Longrightarrow>
     lock_prog A False (nfp_cpp_readl (test_set_imm_id NFP_CPP_TARGET_MU) A k)"
  unfolding nfp_cpp_readl_def by (rule lp_test_set) (auto split: sum.split)

lemma lock_prog_writel_locked:
  "nfp_mutex_is_locked v \<Longrightarrow> lock_prog A True (k (Inr ())) \<Longrightarrow> (\<And>e. lock_prog A False (k (Inl e))) \<Longrightarrow>
     lock_prog A True (nfp_cpp_writel (atomic_write_id NFP_CPP_TARGET_MU) A v k)"
  unfolding nfp_cpp_writel_def by (rule lp_write_locked) (auto split: sum.split)

lemma lock_prog_writel_unlocked:
  "lock_prog A False (k (Inr ())) \<Longrightarrow> (\<And>e. lock_prog A True (k (Inl e))) \<Longrightarrow>
     lock_prog A True (nfp_cpp_writel (atomic_write_id NFP_CPP_TARGET_MU) A v k)"
  unfolding nfp_cpp_writel_def by (rule lp_write_unlocked) (auto split: sum.split)

lemma u16_succ_pos: "d \<noteq> 0xffff \<Longrightarrow> 0 < d + 1" for d :: u16
proof -
  assume "d \<noteq> 0xffff"
  moreover have "(0xffff :: u16) = - 1" by (simp add: word_bits_eval)
  ultimately have "d + 1 \<noteq> 0" by (simp add: eq_neg_iff_add_eq_0)
  then show ?thesis by (simp add: word_gt_0)
qed

lemma trylock_prog:
  assumes "handle_at A mutex"
  shows "lock_prog A (mutex_depth mutex > 0) (nfp_cpp_mutex_trylock interface mutex)"
proof (cases "mutex_depth mutex > 0")
  case True
  moreover have "mutex_depth mutex \<noteq> NFP_MUTEX_DEPTH_MAX \<Longrightarrow> mutex_depth mutex + 1 > 0"
    using u16_succ_pos [of "mutex_depth mutex"] by (simp add: NFP_MUTEX_DEPTH_MAX_def)
  ultimately show ?thesis
    using assms by (auto simp: nfp_cpp_mutex_trylock_def Let_def handle_at_def intro!: lp_return)
next
  case False
  then show ?thesis
    using assms unfolding handle_at_def
    by (auto simp: nfp_cpp_mutex_trylock_def Let_def handle_at_def
        intro!: lock_prog_readl lock_prog_test_set lock_prog_writel_locked lp_return split: sum.split)
qed

lemma u16_pred_pos: "1 < d \<Longrightarrow> 0 < d - 1" for d :: u16
  by (auto simp: word_gt_0)

lemma unlock_prog:
  assumes "handle_at A mutex" "mutex_depth mutex > 0"
  shows "lock_prog A True (nfp_cpp_mutex_unlock interface mutex)"
  using assms unfolding handle_at_def
  by (auto simp: nfp_cpp_mutex_unlock_def Let_def handle_at_def u16_pred_pos
      intro!: lock_prog_readl lock_prog_writel_unlocked lp_return split: sum.split)

lemma engine_read:
  "atomic_engine D word \<Longrightarrow> dev_read D (atomic_read_id NFP_CPP_TARGET_MU) a 4 s = (r, s') \<Longrightarrow> word s' = word s"
  unfolding atomic_engine_def by (drule conjunct1) blast

lemma engine_test_set:
  assumes "atomic_engine D word" "dev_read D (test_set_imm_id NFP_CPP_TARGET_MU) a 4 s = (r, s')"
  shows "word s' a \<in> {word s a, word s a OR 0xf}"
    and "r = Inr bs \<Longrightarrow> length bs = 4 \<Longrightarrow> word s' a = word s a OR 0xf \<and> get_unaligned_le32 bs = word s a"
proof -
  have *: "word s' \<in> {word s, (word s)(a := word s a OR 0xf)} \<and>
      (\<forall>bs. r = Inr bs \<and> length bs = 4 \<longrightarrow>
         word s' = (word s)(a := word s a OR 0xf) \<and> get_unaligned_le32 bs = word s a)"
    using assms(1) [unfolded atomic_engine_def, THEN conjunct2, THEN conjunct1, rule_format, OF assms(2)]
    by blast
  then show "word s' a \<in> {word s a, word s a OR 0xf}" by auto
  show "r = Inr bs \<Longrightarrow> length bs = 4 \<Longrightarrow> word s' a = word s a OR 0xf \<and> get_unaligned_le32 bs = word s a"
    using * by simp
qed

lemma engine_write:
  "atomic_engine D word \<Longrightarrow>
   dev_write D (atomic_write_id NFP_CPP_TARGET_MU) a (put_unaligned_le32 v) s = (r, s') \<Longrightarrow>
     word s' = (if r = Inr 4 then (word s)(a := v) else word s)"
  unfolding atomic_engine_def by (drule conjunct2, drule conjunct2) blast

text \<open>One bus access of a program that respects ownership: what it does to the lock word, and the
  ownership after it.\<close>

lemma lock_prog_step:
  assumes "atomic_engine D word" "lock_prog A held p" "bus_step D (p, s) (p', s')"
  obtains (keep) "lock_prog A held p'" "nfp_mutex_is_locked (word s A) \<longrightarrow> nfp_mutex_is_locked (word s' A)"
  | (take_lock) "\<not> held" "lock_prog A True p'" "\<not> nfp_mutex_is_locked (word s A)" "nfp_mutex_is_locked (word s' A)"
  | (drop_lock) "held" "lock_prog A False p'"
  using assms(3)
proof (cases rule: bus_step.cases)
  case (bus_read cpp_id addr len r k)
  with assms(2) have "lock_prog A held (Cpp_read cpp_id addr len k)" by simp
  then show thesis
  proof (cases rule: lock_prog.cases)
    case lp_read
    with bus_read engine_read [OF assms(1)] show thesis by (intro keep) auto
  next
    case lp_test_set
    show thesis
    proof (cases "\<exists>bs. r = Inr bs \<and> length bs = 4 \<and> nfp_mutex_is_unlocked (get_unaligned_le32 bs)")
      case True
      then obtain bs where bs: "r = Inr bs" "length bs = 4" "nfp_mutex_is_unlocked (get_unaligned_le32 bs)"
        by blast
      with lp_test_set bus_read engine_test_set(2) [OF assms(1), of A s r s' bs]
      have w: "word s' A = word s A OR 0xf" "get_unaligned_le32 bs = word s A" by auto
      have "lock_prog A (nfp_mutex_is_unlocked (get_unaligned_le32 bs)) (k (Inr bs))"
        using lp_test_set bs(2) by blast
      with lp_test_set bus_read bs w show thesis
        by (intro take_lock) (auto simp: test_set_locks dest: unlocked_not_locked)
    next
      case False
      have "lock_prog A False (k r)"
      proof (cases "\<exists>bs. r = Inr bs \<and> length bs = 4")
        case True
        then obtain bs where bs: "r = Inr bs" "length bs = 4" by blast
        then have "lock_prog A (nfp_mutex_is_unlocked (get_unaligned_le32 bs)) (k (Inr bs))"
          using lp_test_set by blast
        with False bs show ?thesis by auto
      qed (use lp_test_set in blast)
      with lp_test_set bus_read engine_test_set(1) [OF assms(1), of A s r s'] show thesis
        by (intro keep) (auto simp: test_set_locks)
    qed
  qed
next
  case (bus_write cpp_id addr bs r k)
  with assms(2) have "lock_prog A held (Cpp_write cpp_id addr bs k)" by simp
  then show thesis
  proof (cases rule: lock_prog.cases)
    case (lp_write_locked v)
    with bus_write engine_write [OF assms(1), of A v s r s'] show thesis
      by (cases "r = Inr 4") (auto intro: keep drop_lock)
  next
    case (lp_write_unlocked v)
    with bus_write engine_write [OF assms(1), of A v s r s'] show thesis
      by (cases "r = Inr 4") (auto intro: keep drop_lock)
  qed
qed

lemma mutex_invI:
  assumes "\<forall>i. client_prog A (owner = Some i) (cs i)" "client_prog A (owner' = Some i) c"
    and "\<And>j. j \<noteq> i \<Longrightarrow> owner = Some j \<longleftrightarrow> owner' = Some j"
    and "owner' \<noteq> None \<Longrightarrow> nfp_mutex_is_locked (word s A)"
  shows "mutex_inv word A (s, cs(i := c))"
  unfolding mutex_inv_def fst_conv snd_conv
proof (intro exI [of _ owner'] conjI allI impI)
  fix j
  have "client_prog A (owner = Some j) (cs j)" using assms(1) by blast
  then show "client_prog A (owner' = Some j) ((cs(i := c)) j)"
    using assms(2) assms(3) [of j] by (cases "j = i") auto
qed (use assms(4) in blast)

lemma mutex_inv_step:
  assumes "atomic_engine D word" "mutex_step D iface sys sys'" "mutex_inv word A sys"
  shows "mutex_inv word A sys'"
proof -
  obtain owner where
    o: "\<forall>i. client_prog A (owner = Some i) (snd sys i)"
    and lk: "owner \<noteq> None \<Longrightarrow> nfp_mutex_is_locked (word (fst sys) A)"
    using assms(3) by (auto simp: mutex_inv_def)
  from assms(2) show ?thesis
  proof (cases rule: mutex_step.cases)
    case (access cs i p s p' s')
    from o access have "lock_prog A (owner = Some i) p"
      by (auto simp: client_prog_def dest: spec [of _ i])
    from assms(1) this access(4) show ?thesis
    proof (cases rule: lock_prog_step)
      case keep
      then show ?thesis unfolding access(2)
        using o lk access by (intro mutex_invI [of A owner cs owner]) (auto simp: client_prog_def)
    next
      case take_lock
      then show ?thesis unfolding access(2)
        using o lk access by (intro mutex_invI [of A owner cs "Some i"]) (auto simp: client_prog_def)
    next
      case drop_lock
      then show ?thesis unfolding access(2)
        using o lk access by (intro mutex_invI [of A owner cs None]) (auto simp: client_prog_def)
    qed
  next
    case (start_trylock cs i s)
    have "client_prog A (owner = Some i) (cs i)" using o start_trylock(1) by auto
    with start_trylock(3) trylock_prog [of A "cl_mutex (cs i)" "iface i"] show ?thesis
      unfolding start_trylock(2) using o lk start_trylock(1)
      by (intro mutex_invI [of A owner cs owner]) (auto simp: client_prog_def)
  next
    case (start_unlock cs i s)
    have "client_prog A (owner = Some i) (cs i)" using o start_unlock(1) by auto
    with start_unlock(3,4) unlock_prog [of A "cl_mutex (cs i)" "iface i"] show ?thesis
      unfolding start_unlock(2) using o lk start_unlock(1)
      by (intro mutex_invI [of A owner cs owner]) (auto simp: client_prog_def)
  next
    case (finish cs i r mutex s)
    have "client_prog A (owner = Some i) (cs i)" using o finish(1) by auto
    with finish(3) show ?thesis
      unfolding finish(2) using o lk finish(1)
      by (intro mutex_invI [of A owner cs owner]) (auto simp: client_prog_def elim: lock_prog_returnE)
  qed
qed

text \<open>C1. Mutual exclusion: whatever number of clients lock and unlock the mutex, interleaved access by
  access in any order and with any bus errors, at most one of them holds it at a time, and while one does
  the lock word in device memory is in the locked state.\<close>

theorem mutex_exclusion:
  assumes "atomic_engine D word" "(mutex_step D iface)\<^sup>*\<^sup>* (s0, cs0) (s, cs)"
    and "\<forall>i. cl_run (cs0 i) = None \<and> handle_at A (cl_mutex (cs0 i)) \<and> mutex_depth (cl_mutex (cs0 i)) = 0"
    and "cl_run (cs i) = None" "mutex_depth (cl_mutex (cs i)) > 0"
  shows "nfp_mutex_is_locked (word s A) \<and>
    (cl_run (cs j) = None \<longrightarrow> mutex_depth (cl_mutex (cs j)) > 0 \<longrightarrow> i = j)"
proof -
  have "mutex_inv word A (s0, cs0)"
    unfolding mutex_inv_def using assms(3) by (intro exI [of _ None]) (auto simp: client_prog_def)
  with assms(2) have "mutex_inv word A (s, cs)"
    by (induction rule: rtranclp_induct) (use mutex_inv_step [OF assms(1)] in blast)+
  then obtain owner where "\<forall>i. client_prog A (owner = Some i) (cs i)"
    "owner \<noteq> None \<longrightarrow> nfp_mutex_is_locked (word s A)"
    by (auto simp: mutex_inv_def)
  moreover from this have "client_prog A (owner = Some i) (cs i)" "client_prog A (owner = Some j) (cs j)"
    by blast+
  ultimately show ?thesis
    using assms(4,5) by (auto simp: client_prog_def)
qed

section \<open>Operations run alone\<close>

lemma mutex_ids_distinct:
  "atomic_read_id NFP_CPP_TARGET_MU \<noteq> test_set_imm_id NFP_CPP_TARGET_MU"
  by (simp add: atomic_read_id_def test_set_imm_id_def NFP_CPP_ID_def NFP_CPP_TARGET_MU_def)

lemma mu_memory_engine: "atomic_engine mu_memory (\<lambda>s. s)" "responsive mu_memory"
  using mutex_ids_distinct by (auto simp: atomic_engine_def responsive_def mu_memory_def)

lemma run_bus_steps: "run D p s = Some (x, s') \<Longrightarrow> (bus_step D)\<^sup>*\<^sup>* (p, s) (Return x, s')"
proof (induction p arbitrary: s)
  case (Cpp_read cpp_id a len k)
  obtain r t where r: "dev_read D cpp_id a len s = (r, t)" by fastforce
  with Cpp_read have "(bus_step D)\<^sup>*\<^sup>* (k r, t) (Return x, s')" by auto
  with bus_read [of D cpp_id a len s r t k] r show ?case by (auto intro: converse_rtranclp_into_rtranclp)
next
  case (Cpp_write cpp_id a bs k)
  obtain r t where r: "dev_write D cpp_id a bs s = (r, t)" by fastforce
  with Cpp_write have "(bus_step D)\<^sup>*\<^sup>* (k r, t) (Return x, s')" by auto
  with bus_write [of D cpp_id a bs s r t k] r show ?case by (auto intro: converse_rtranclp_into_rtranclp)
qed auto

lemma bus_steps_access:
  assumes "(bus_step D)\<^sup>*\<^sup>* (p, s) (p', s')" "cl_run (cs i) = Some p"
  shows "(mutex_step D iface)\<^sup>*\<^sup>* (s, cs) (s', cs(i := (cs i)\<lparr> cl_run := Some p' \<rparr>))"
  using assms(1)
proof (induction rule: rtranclp_induct2)
  case refl
  have "(cs i)\<lparr> cl_run := Some p \<rparr> = cs i" using assms(2) by (cases "cs i") simp
  then show ?case by (simp only: fun_upd_triv rtranclp.rtrancl_refl)
next
  case (step q t q' t')
  have "mutex_step D iface (t, cs(i := (cs i)\<lparr> cl_run := Some q \<rparr>)) (t', cs(i := (cs i)\<lparr> cl_run := Some q' \<rparr>))"
    using mutex_step.access [of "cs(i := (cs i)\<lparr> cl_run := Some q \<rparr>)" i q D t q' t' iface] step.hyps(2) by simp
  with step.IH show ?case by (rule rtranclp.rtrancl_into_rtrancl)
qed

lemma run_trylock_steps:
  assumes "run D (nfp_cpp_mutex_trylock (iface i) (cl_mutex (cs i))) s = Some ((r, mutex), s')" "cl_run (cs i) = None"
  shows "(mutex_step D iface)\<^sup>*\<^sup>* (s, cs) (s', cs(i := \<lparr> cl_mutex = mutex, cl_run = None \<rparr>))"
proof -
  let ?p = "nfp_cpp_mutex_trylock (iface i) (cl_mutex (cs i))"
  let ?cs1 = "cs(i := (cs i)\<lparr> cl_run := Some ?p \<rparr>)"
  have "mutex_step D iface (s, cs) (s, ?cs1)" by (rule start_trylock) (rule assms(2))
  also have "(mutex_step D iface)\<^sup>*\<^sup>* (s, ?cs1) (s', cs(i := (cs i)\<lparr> cl_run := Some (Return (r, mutex)) \<rparr>))"
    using bus_steps_access [OF run_bus_steps [OF assms(1)], of ?cs1 i iface] by simp
  also have "mutex_step D iface (s', cs(i := (cs i)\<lparr> cl_run := Some (Return (r, mutex)) \<rparr>))
      (s', cs(i := \<lparr> cl_mutex = mutex, cl_run = None \<rparr>))"
    using mutex_step.finish [of "cs(i := (cs i)\<lparr> cl_run := Some (Return (r, mutex)) \<rparr>)" i r mutex D iface s'] by simp
  finally show ?thesis .
qed

lemma readl_run:
  assumes "atomic_engine D word" "responsive D"
  obtains s' where "word s' = word s"
    "\<And>k. run D (nfp_cpp_readl (atomic_read_id NFP_CPP_TARGET_MU) a k) s = run D (k (Inr (word s a))) s'"
proof -
  obtain bs s' where r: "dev_read D (atomic_read_id NFP_CPP_TARGET_MU) a 4 s = (Inr bs, s')" "length bs = 4"
    using assms(2) unfolding responsive_def by blast
  moreover have "word s' = word s \<and> get_unaligned_le32 bs = word s a"
    using assms(1) [unfolded atomic_engine_def, THEN conjunct1, rule_format, OF r(1)] r(2) by simp
  ultimately show thesis by (intro that [of s']) (auto simp: nfp_cpp_readl_def)
qed

lemma test_set_run:
  assumes "atomic_engine D word" "responsive D"
  obtains s' where "word s' = (word s)(a := word s a OR 0xf)"
    "\<And>k. run D (nfp_cpp_readl (test_set_imm_id NFP_CPP_TARGET_MU) a k) s = run D (k (Inr (word s a))) s'"
proof -
  obtain bs s' where r: "dev_read D (test_set_imm_id NFP_CPP_TARGET_MU) a 4 s = (Inr bs, s')" "length bs = 4"
    using assms(2) unfolding responsive_def by blast
  moreover have "word s' = (word s)(a := word s a OR 0xf) \<and> get_unaligned_le32 bs = word s a"
    using assms(1) [unfolded atomic_engine_def, THEN conjunct2, THEN conjunct1, rule_format, OF r(1)] r(2) by simp
  ultimately show thesis by (intro that [of s']) (auto simp: nfp_cpp_readl_def)
qed

lemma writel_run:
  assumes "atomic_engine D word" "responsive D"
  obtains s' where "word s' = (word s)(a := v)"
    "\<And>k. run D (nfp_cpp_writel (atomic_write_id NFP_CPP_TARGET_MU) a v k) s = run D (k (Inr ())) s'"
proof -
  obtain s' where r: "dev_write D (atomic_write_id NFP_CPP_TARGET_MU) a (put_unaligned_le32 v) s = (Inr 4, s')"
    using assms(2) unfolding responsive_def by blast
  with engine_write [OF assms(1) r] show thesis by (intro that [of s']) (auto simp: nfp_cpp_writel_def)
qed

lemma word_add4_neq: "(a :: u64) + 4 \<noteq> a"
  by simp

lemma trylock_run:
  assumes "atomic_engine D word" "responsive D" "handle_at A mutex" "mutex_depth mutex = 0"
    and "word s (A + 4) = mutex_key mutex"
  obtains s' where "run D (nfp_cpp_mutex_trylock interface mutex) s =
      Some (if nfp_mutex_is_unlocked (word s A) then (Inr (), mutex\<lparr> mutex_depth := 1 \<rparr>)
            else (Inl (if nfp_mutex_is_locked (word s A) then EBUSY else EINVAL), mutex), s')"
    "word s' = (word s)(A := if nfp_mutex_is_unlocked (word s A) then nfp_mutex_locked interface else word s A OR 0xf)"
proof -
  obtain s1 where s1: "word s1 = word s" "\<And>k :: _ \<Rightarrow> (unit result \<times> nfp_cpp_mutex) cppm.
      run D (nfp_cpp_readl (atomic_read_id NFP_CPP_TARGET_MU) (A + 4) k) s = run D (k (Inr (word s (A + 4)))) s1"
    using readl_run [OF assms(1,2)] by metis
  obtain s2 where s2: "word s2 = (word s1)(A := word s1 A OR 0xf)" "\<And>k :: _ \<Rightarrow> (unit result \<times> nfp_cpp_mutex) cppm.
      run D (nfp_cpp_readl (test_set_imm_id NFP_CPP_TARGET_MU) A k) s1 = run D (k (Inr (word s1 A))) s2"
    using test_set_run [OF assms(1,2)] by metis
  obtain s3 where s3: "word s3 = (word s2)(A := nfp_mutex_locked interface)" "\<And>k :: _ \<Rightarrow> (unit result \<times> nfp_cpp_mutex) cppm.
      run D (nfp_cpp_writel (atomic_write_id NFP_CPP_TARGET_MU) A (nfp_mutex_locked interface) k) s2 = run D (k (Inr ())) s3"
    using writel_run [OF assms(1,2)] by metis
  show thesis
    using assms(3-5) s1(1) s2(1) s3(1)
    by (intro that [of "if nfp_mutex_is_unlocked (word s A) then s3 else s2"])
      (simp_all add: nfp_cpp_mutex_trylock_def Let_def handle_at_def s1(2) s2(2) s3(2))
qed

lemma trylock_free_run:
  assumes "atomic_engine D word" "responsive D" "handle_at A mutex" "mutex_depth mutex = 0"
    and "word s (A + 4) = mutex_key mutex" "nfp_mutex_is_unlocked (word s A)"
  obtains s' where "run D (nfp_cpp_mutex_trylock interface mutex) s = Some ((Inr (), mutex\<lparr> mutex_depth := 1 \<rparr>), s')"
    "word s' = (word s)(A := nfp_mutex_locked interface)"
  by (rule trylock_run [OF assms(1-5), of interface]) (use assms(6) that in auto)

lemma unlock_held_run:
  assumes "atomic_engine D word" "responsive D" "handle_at A mutex" "mutex_depth mutex = 1"
    and "word s (A + 4) = mutex_key mutex" "word s A = nfp_mutex_locked interface"
  obtains s' where "run D (nfp_cpp_mutex_unlock interface mutex) s = Some ((Inr (), mutex\<lparr> mutex_depth := 0 \<rparr>), s')"
    "word s' = (word s)(A := nfp_mutex_unlocked interface)"
proof -
  obtain s1 where s1: "word s1 = word s" "\<And>k :: _ \<Rightarrow> (unit result \<times> nfp_cpp_mutex) cppm.
      run D (nfp_cpp_readl (atomic_read_id NFP_CPP_TARGET_MU) (A + 4) k) s = run D (k (Inr (word s (A + 4)))) s1"
    using readl_run [OF assms(1,2)] by metis
  obtain s2 where s2: "word s2 = word s1" "\<And>k :: _ \<Rightarrow> (unit result \<times> nfp_cpp_mutex) cppm.
      run D (nfp_cpp_readl (atomic_read_id NFP_CPP_TARGET_MU) A k) s1 = run D (k (Inr (word s1 A))) s2"
    using readl_run [OF assms(1,2)] by metis
  obtain s3 where s3: "word s3 = (word s2)(A := nfp_mutex_unlocked interface)" "\<And>k :: _ \<Rightarrow> (unit result \<times> nfp_cpp_mutex) cppm.
      run D (nfp_cpp_writel (atomic_write_id NFP_CPP_TARGET_MU) A (nfp_mutex_unlocked interface) k) s2 = run D (k (Inr ())) s3"
    using writel_run [OF assms(1,2)] by metis
  show thesis
    using assms(3-6) s1(1) s2(1) s3(1)
    by (intro that [of s3]) (simp_all add: nfp_cpp_mutex_unlock_def Let_def handle_at_def s1(2) s2(2) s3(2))
qed

text \<open>On a responsive device, taking a free mutex and releasing it again both succeed; in between
  the lock word names the owner, and afterwards the word is unlocked and nothing else has changed.\<close>

theorem mutex_lock_unlock:
  assumes "atomic_engine D word" "responsive D" "handle_at A mutex" "mutex_depth mutex = 0"
    and "word s (A + 4) = mutex_key mutex" "nfp_mutex_is_unlocked (word s A)"
  shows "\<exists>s' s''. run D (nfp_cpp_mutex_trylock interface mutex) s = Some ((Inr (), mutex\<lparr> mutex_depth := 1 \<rparr>), s') \<and>
    word s' = (word s)(A := nfp_mutex_locked interface) \<and>
    run D (nfp_cpp_mutex_unlock interface (mutex\<lparr> mutex_depth := 1 \<rparr>)) s' = Some ((Inr (), mutex), s'') \<and>
    word s'' = (word s)(A := nfp_mutex_unlocked interface)"
proof -
  obtain s' where s': "run D (nfp_cpp_mutex_trylock interface mutex) s = Some ((Inr (), mutex\<lparr> mutex_depth := 1 \<rparr>), s')"
    "word s' = (word s)(A := nfp_mutex_locked interface)"
    using trylock_free_run [OF assms] .
  have h: "handle_at A (mutex\<lparr> mutex_depth := 1 \<rparr>)" using assms(3) by (simp add: handle_at_def)
  have eq: "mutex\<lparr> mutex_depth := 0 \<rparr> = mutex" using assms(4) by (cases mutex) simp
  obtain s'' where "run D (nfp_cpp_mutex_unlock interface (mutex\<lparr> mutex_depth := 1 \<rparr>)) s' = Some ((Inr (), mutex), s'')"
    "word s'' = (word s')(A := nfp_mutex_unlocked interface)"
    by (rule unlock_held_run [OF assms(1,2) h, of s' interface]) (use s' assms(5) eq in auto)
  with s' show ?thesis by auto
qed

lemma locked_or_low: "nfp_mutex_is_locked v \<Longrightarrow> v OR 0xf = v"
  unfolding nfp_mutex_is_locked_def by (simp add: word_bits_eval bit_simps)

lemma trylock_busy_run:
  assumes "atomic_engine D word" "responsive D" "handle_at A mutex" "mutex_depth mutex = 0"
    and "word s (A + 4) = mutex_key mutex" "nfp_mutex_is_locked (word s A)"
  obtains s' where "run D (nfp_cpp_mutex_trylock interface mutex) s = Some ((Inl EBUSY, mutex), s')"
    "word s' = word s"
proof -
  have nu: "\<not> nfp_mutex_is_unlocked (word s A)" using assms(6) unlocked_not_locked by blast
  obtain s' where s': "run D (nfp_cpp_mutex_trylock interface mutex) s =
      Some (if nfp_mutex_is_unlocked (word s A) then (Inr (), mutex\<lparr> mutex_depth := 1 \<rparr>)
            else (Inl (if nfp_mutex_is_locked (word s A) then EBUSY else EINVAL), mutex), s')"
    "word s' = (word s)(A := if nfp_mutex_is_unlocked (word s A) then nfp_mutex_locked interface else word s A OR 0xf)"
    by (rule trylock_run [OF assms(1-5)])
  show thesis
    by (rule that [of s']) (use s' nu assms(6) locked_or_low [OF assms(6)] in \<open>simp_all add: fun_upd_idem\<close>)
qed


definition owned_by :: "u16 \<Rightarrow> u32 \<Rightarrow> bool" where
  "owned_by interface v \<longleftrightarrow> \<not> nfp_mutex_is_unlocked v \<and> nfp_mutex_owner v = ucast interface"

lemma reclaim_run:
  assumes "atomic_engine D word" "responsive D" "nfp_cpp_mutex_validate interface target A = Inr ()"
  obtains s' where "run D (nfp_cpp_mutex_reclaim interface target A) s = Some (Inr (owned_by interface (word s A)), s')"
    "word s' = (if owned_by interface (word s A) then (word s)(A := nfp_mutex_unlocked interface) else word s)"
proof -
  have t: "target = NFP_CPP_TARGET_MU"
    using assms(3) by (auto simp: nfp_cpp_mutex_validate_def split: if_splits)
  obtain s1 where s1: "word s1 = word s" "\<And>k :: _ \<Rightarrow> bool result cppm.
      run D (nfp_cpp_readl (atomic_read_id NFP_CPP_TARGET_MU) A k) s = run D (k (Inr (word s A))) s1"
    using readl_run [OF assms(1,2)] by metis
  obtain s2 where s2: "word s2 = (word s1)(A := nfp_mutex_unlocked interface)" "\<And>k :: _ \<Rightarrow> bool result cppm.
      run D (nfp_cpp_writel (atomic_write_id NFP_CPP_TARGET_MU) A (nfp_mutex_unlocked interface) k) s1 = run D (k (Inr ())) s2"
    using writel_run [OF assms(1,2)] by metis
  show thesis
    by (rule that [of "if owned_by interface (word s A) then s2 else s1"])
      (use s1(1) s2(1) assms(3) t in \<open>simp_all add: nfp_cpp_mutex_reclaim_def owned_by_def s1(2) s2(2)\<close>)
qed

text \<open>Reclaiming a mutex releases it exactly when this interface is its owner and it is not
  already unlocked.\<close>

theorem mutex_reclaim_correct:
  assumes "atomic_engine D word" "responsive D" "nfp_cpp_mutex_validate interface target A = Inr ()"
  shows "\<exists>s'. run D (nfp_cpp_mutex_reclaim interface target A) s =
      Some (Inr (\<not> nfp_mutex_is_unlocked (word s A) \<and> nfp_mutex_owner (word s A) = ucast interface), s') \<and>
    word s' = (if \<not> nfp_mutex_is_unlocked (word s A) \<and> nfp_mutex_owner (word s A) = ucast interface
               then (word s)(A := nfp_mutex_unlocked interface) else word s)"
  using reclaim_run [OF assms] unfolding owned_by_def by metis

section \<open>Witnesses\<close>

text \<open>A memory of zeros: one free mutex with key 0 at address 0.\<close>

lemma zero_memory:
  "handle_at 0 \<lparr> mutex_target = NFP_CPP_TARGET_MU, mutex_depth = 0, mutex_address = 0, mutex_key = 0 \<rparr>"
  by (simp add: handle_at_def)

theorem mutex_lock_unlock_witness:
  "\<exists>s' s''. run mu_memory (nfp_cpp_mutex_trylock 0x1000
       \<lparr> mutex_target = NFP_CPP_TARGET_MU, mutex_depth = 0, mutex_address = 0, mutex_key = 0 \<rparr>) (\<lambda>_. 0) =
     Some ((Inr (), \<lparr> mutex_target = NFP_CPP_TARGET_MU, mutex_depth = 1, mutex_address = 0, mutex_key = 0 \<rparr>), s') \<and>
     s' 0 = 0x1000000f \<and>
   run mu_memory (nfp_cpp_mutex_unlock 0x1000
       \<lparr> mutex_target = NFP_CPP_TARGET_MU, mutex_depth = 1, mutex_address = 0, mutex_key = 0 \<rparr>) s' =
     Some ((Inr (), \<lparr> mutex_target = NFP_CPP_TARGET_MU, mutex_depth = 0, mutex_address = 0, mutex_key = 0 \<rparr>), s'') \<and>
     s'' 0 = 0x10000000"
  using mutex_lock_unlock [OF mu_memory_engine zero_memory, of "\<lambda>_. 0" "0x1000"]
  by (auto simp: nfp_mutex_is_unlocked_def nfp_mutex_locked_def nfp_mutex_unlocked_def)


theorem mutex_reclaim_correct_witness:
  "\<exists>s'. run mu_memory (nfp_cpp_mutex_reclaim 0x1000 NFP_CPP_TARGET_MU 8) ((\<lambda>_. 0)(8 := 0x1000000f)) =
     Some (Inr True, s') \<and> s' 8 = 0x10000000"
proof -
  have "nfp_cpp_mutex_validate 0x1000 NFP_CPP_TARGET_MU 8 = Inr ()"
    by (simp add: nfp_cpp_mutex_validate_def NFP_CPP_INTERFACE_TYPE_of_def NFP_CPP_INTERFACE_TYPE_INVALID_def)
  from mutex_reclaim_correct [OF mu_memory_engine this, of "(\<lambda>_. 0)(8 := 0x1000000f)"] show ?thesis
    by (auto simp: nfp_mutex_is_unlocked_def nfp_mutex_owner_def nfp_mutex_unlocked_def)
qed

theorem mutex_exclusion_witness:
  "\<exists>s cs. (mutex_step mu_memory (\<lambda>i. 0x1000 + of_nat i))\<^sup>*\<^sup>*
      (\<lambda>_. 0, \<lambda>_. \<lparr> cl_mutex = \<lparr> mutex_target = NFP_CPP_TARGET_MU, mutex_depth = 0, mutex_address = 0,
                      mutex_key = 0 \<rparr>, cl_run = None \<rparr>) (s, cs) \<and>
    mutex_depth (cl_mutex (cs 3)) = 1 \<and> nfp_mutex_is_locked (s 0) \<and> mutex_depth (cl_mutex (cs 4)) = 0"
proof -
  let ?m = "\<lparr> mutex_target = NFP_CPP_TARGET_MU, mutex_depth = 0, mutex_address = 0, mutex_key = 0 \<rparr>"
  let ?cs = "\<lambda>_ :: nat. \<lparr> cl_mutex = ?m, cl_run = None \<rparr>" and ?if = "\<lambda>i. 0x1000 + of_nat i :: u16"
  obtain s' where s': "run mu_memory (nfp_cpp_mutex_trylock (?if 3) ?m) (\<lambda>_. 0) =
      Some ((Inr (), ?m\<lparr> mutex_depth := 1 \<rparr>), s')"
    using trylock_free_run [OF mu_memory_engine zero_memory, of "\<lambda>_. 0" "?if 3"]
    by (auto simp: nfp_mutex_is_unlocked_def)
  let ?cs' = "?cs(3 := \<lparr> cl_mutex = ?m\<lparr> mutex_depth := 1 \<rparr>, cl_run = None \<rparr>)"
  have steps: "(mutex_step mu_memory ?if)\<^sup>*\<^sup>* (\<lambda>_. 0, ?cs) (s', ?cs')"
    by (rule run_trylock_steps) (use s' in simp_all)
  have "nfp_mutex_is_locked (s' 0)"
    using mutex_exclusion [OF mu_memory_engine(1) steps, of 0 3 4] zero_memory by simp
  with steps show ?thesis by (intro exI [of _ s'] exI [of _ ?cs']) simp
qed

end
