(* ===== verification/NFP_Resource.thy ===== *)
theory NFP_Resource
  imports NFP_Mutex
begin

text \<open>
  The device resource table (\<^verbatim>\<open>src/nfpcore/nfp_resource.c\<close>, \<^verbatim>\<open>src/nfpcore/crc32.h\<close>): 128 entries of
  32 bytes in the memory unit, each with a mutex of its own, found by the checksum of its name while
  the mutex of entry 0 is held.  The operations are bus programs over the mutex operations.

  The kernel's \<open>crc32_be\<close> is a parameter.  Sleeps and memory allocations have their outcomes as
  arguments.  The structures are read in the byte order of the device, as on a little-endian host.
\<close>

section \<open>Checksums\<close>

text \<open>\<open>while (total_len != 0)\<close>: the bytes of the length, lowest first.\<close>

fun crc32_posix_end :: "(u32 \<Rightarrow> u8 list \<Rightarrow> u32) \<Rightarrow> u32 \<Rightarrow> nat \<Rightarrow> u32" where
  "crc32_posix_end crc32_be crc total_len =
     (if total_len \<noteq> 0
      then crc32_posix_end crc32_be (crc32_be crc [of_nat (total_len mod 256)]) (total_len div 256)
      else NOT crc)"

declare crc32_posix_end.simps [simp del]

definition crc32_posix :: "(u32 \<Rightarrow> u8 list \<Rightarrow> u32) \<Rightarrow> u8 list \<Rightarrow> nat \<Rightarrow> u32" where
  "crc32_posix crc32_be buff len = crc32_posix_end crc32_be (crc32_be 0 (take len buff)) len"

section \<open>Table entries and resource handles\<close>

definition NFP_RESOURCE_TBL_BASE :: u64 where "NFP_RESOURCE_TBL_BASE = 0x8100000000"

abbreviation NFP_RESOURCE_TBL_TARGET :: int where "NFP_RESOURCE_TBL_TARGET \<equiv> NFP_CPP_TARGET_MU"

text \<open>The bytes of \<open>"nfp.res"\<close>.\<close>

definition NFP_RESOURCE_TBL_NAME :: "u8 list" where
  "NFP_RESOURCE_TBL_NAME = [0x6e, 0x66, 0x70, 0x2e, 0x72, 0x65, 0x73]"

definition NFP_RESOURCE_TBL_KEY :: u32 where "NFP_RESOURCE_TBL_KEY = 0"

definition NFP_RESOURCE_ENTRY_NAME_SZ :: nat where "NFP_RESOURCE_ENTRY_NAME_SZ = 8"

definition NFP_RESOURCE_TBL_SIZE :: nat where "NFP_RESOURCE_TBL_SIZE = 4096"

record nfp_resource_entry_mutex =
  entry_owner :: u32
  entry_key :: u32

record nfp_resource_entry_region =
  region_name :: "u8 list"
  region_cpp_action :: u8
  region_cpp_token :: u8
  region_cpp_target :: u8
  region_page_offset :: u32
  region_page_size :: u32

record nfp_resource_entry =
  entry_mutex :: nfp_resource_entry_mutex
  entry_region :: nfp_resource_entry_region

text \<open>\<open>sizeof(struct nfp_resource_entry)\<close> and the layout of the structure; bytes 16 to 20 are reserved.\<close>

definition sizeof_entry :: nat where "sizeof_entry = 32"

definition entry_of_bytes :: "u8 list \<Rightarrow> nfp_resource_entry" where
  "entry_of_bytes bs =
     \<lparr> entry_mutex = \<lparr> entry_owner = get_unaligned_le32 bs, entry_key = get_unaligned_le32 (drop 4 bs) \<rparr>,
       entry_region =
         \<lparr> region_name = take NFP_RESOURCE_ENTRY_NAME_SZ (drop 8 bs),
           region_cpp_action = bs ! 21, region_cpp_token = bs ! 22, region_cpp_target = bs ! 23,
           region_page_offset = get_unaligned_le32 (drop 24 bs),
           region_page_size = get_unaligned_le32 (drop 28 bs) \<rparr> \<rparr>"

definition NFP_RESOURCE_TBL_ENTRIES :: nat where
  "NFP_RESOURCE_TBL_ENTRIES = NFP_RESOURCE_TBL_SIZE div sizeof_entry"

definition entry_addr :: "nat \<Rightarrow> u64" where
  "entry_addr i = NFP_RESOURCE_TBL_BASE + of_nat sizeof_entry * of_nat i"

record nfp_resource =
  res_name :: "u8 list"
  res_cpp_id :: u32
  res_addr :: u64
  res_size :: u64
  res_mutex :: "nfp_cpp_mutex option"

text \<open>The name buffer of nine bytes after \<open>strscpy\<close> into zeroed memory, and the string it holds.\<close>

definition strscpy_name :: "u8 list \<Rightarrow> u8 list" where
  "strscpy_name name =
     (let n = take NFP_RESOURCE_ENTRY_NAME_SZ name in n @ replicate (NFP_RESOURCE_ENTRY_NAME_SZ + 1 - length n) 0)"

definition c_str :: "u8 list \<Rightarrow> u8 list" where
  "c_str bs = takeWhile (\<lambda>c. c \<noteq> 0) bs"

section \<open>Operations\<close>

text \<open>The search loop over entry indices.  The handle of a found entry may be null: the code stores
  what \<open>nfp_cpp_mutex_alloc\<close> returned without a check.\<close>

primrec resource_scan :: "bool \<Rightarrow> u16 \<Rightarrow> u32 \<Rightarrow> nfp_resource \<Rightarrow> nat list \<Rightarrow> (unit result \<times> nfp_resource) cppm" where
  "resource_scan alloc_ok interface key res [] = Return (Inl ENOENT, res)"
| "resource_scan alloc_ok interface key res (i # is) =
     Cpp_read (atomic_read_id NFP_RESOURCE_TBL_TARGET) (entry_addr i) sizeof_entry
       (\<lambda>r. case r of
          Inl _ \<Rightarrow> Return (Inl EIO, res)
        | Inr bs \<Rightarrow>
            if length bs \<noteq> sizeof_entry then Return (Inl EIO, res)
            else
              let entry = entry_of_bytes bs; region = entry_region entry in
              if entry_key (entry_mutex entry) \<noteq> key then resource_scan alloc_ok interface key res is
              else
                cpp_bind (nfp_cpp_mutex_alloc alloc_ok interface NFP_RESOURCE_TBL_TARGET (entry_addr i) key)
                  (\<lambda>m. Return (Inr (),
                     res\<lparr> res_mutex := m,
                          res_cpp_id := NFP_CPP_ID (ucast (region_cpp_target region))
                            (ucast (region_cpp_action region)) (ucast (region_cpp_token region)),
                          res_addr := push_bit 8 (ucast (region_page_offset region)),
                          res_size := push_bit 8 (ucast (region_page_size region)) \<rparr>)))"

definition nfp_cpp_resource_find ::
  "(u32 \<Rightarrow> u8 list \<Rightarrow> u32) \<Rightarrow> bool \<Rightarrow> u16 \<Rightarrow> nfp_resource \<Rightarrow> (unit result \<times> nfp_resource) cppm" where
  "nfp_cpp_resource_find crc32_be alloc_ok interface res =
     (if c_str (res_name res) = NFP_RESOURCE_TBL_NAME then Return (Inl EOPNOTSUPP, res)
      else
        let key = crc32_posix crc32_be (res_name res) NFP_RESOURCE_ENTRY_NAME_SZ in
        resource_scan alloc_ok interface key res [0..<NFP_RESOURCE_TBL_ENTRIES])"

text \<open>What one attempt meets: the sleeps while waiting for the table mutex, whether the handle of the
  entry can be allocated, and whether the sleep after the attempt is interrupted.\<close>

record attempt =
  at_sleeps :: "bool list"
  at_alloc :: bool
  at_interrupted :: bool

text \<open>\<open>nfp_cpp_mutex_trylock\<close> of a null handle is a fault.  A handle that is freed on an error path is
  \<open>None\<close> afterwards.\<close>

definition nfp_resource_try_acquire ::
  "(u32 \<Rightarrow> u8 list \<Rightarrow> u32) \<Rightarrow> attempt \<Rightarrow> u16 \<Rightarrow> nfp_resource \<Rightarrow> nfp_cpp_mutex \<Rightarrow>
   (unit result \<times> nfp_resource \<times> nfp_cpp_mutex) cppm" where
  "nfp_resource_try_acquire crc32_be a interface res dev_mutex =
     cpp_bind (nfp_cpp_mutex_lock (at_sleeps a) interface dev_mutex)
       (\<lambda>(r, dev_mutex).
          if r \<noteq> Inr () then Return (Inl EINVAL, res, dev_mutex)
          else
            cpp_bind (nfp_cpp_resource_find crc32_be (at_alloc a) interface res)
              (\<lambda>(r, res).
                 case r of
                   Inl err \<Rightarrow>
                     cpp_bind (nfp_cpp_mutex_unlock interface dev_mutex)
                       (\<lambda>(_, dev_mutex). Return (Inl err, res, dev_mutex))
                 | Inr _ \<Rightarrow>
                     (case res_mutex res of
                        None \<Rightarrow> Fault
                      | Some m \<Rightarrow>
                          cpp_bind (nfp_cpp_mutex_trylock interface m)
                            (\<lambda>(r, m).
                               cpp_bind (nfp_cpp_mutex_unlock interface dev_mutex)
                                 (\<lambda>(_, dev_mutex).
                                    Return (r, res\<lparr> res_mutex := if r = Inr () then Some m else None \<rparr>,
                                            dev_mutex))))))"

text \<open>The waiting loop: one attempt for each pass until the deadline.\<close>

fun resource_acquire_loop ::
  "(u32 \<Rightarrow> u8 list \<Rightarrow> u32) \<Rightarrow> attempt list \<Rightarrow> u16 \<Rightarrow> nfp_resource \<Rightarrow> nfp_cpp_mutex \<Rightarrow> nfp_resource result cppm" where
  "resource_acquire_loop crc32_be [] interface res dev_mutex = Return (Inl EBUSY)"
| "resource_acquire_loop crc32_be (a # as) interface res dev_mutex =
     cpp_bind (nfp_resource_try_acquire crc32_be a interface res dev_mutex)
       (\<lambda>(r, res, dev_mutex).
          case r of
            Inr _ \<Rightarrow> Return (Inr res)
          | Inl err \<Rightarrow>
              if err \<noteq> EBUSY then Return (Inl err)
              else if at_interrupted a then Return (Inl ERESTARTSYS)
              else resource_acquire_loop crc32_be as interface res dev_mutex)"

text \<open>What a call of \<open>nfp_resource_acquire\<close> meets: the two allocations, the first attempt and the
  later ones before the deadline.\<close>

record acquire_env =
  env_res_alloc :: bool
  env_mutex_alloc :: bool
  env_first :: attempt
  env_rest :: "attempt list"

definition nfp_resource_acquire ::
  "(u32 \<Rightarrow> u8 list \<Rightarrow> u32) \<Rightarrow> acquire_env \<Rightarrow> u16 \<Rightarrow> u8 list \<Rightarrow> nfp_resource result cppm" where
  "nfp_resource_acquire crc32_be env interface name =
     (if \<not> env_res_alloc env then Return (Inl ENOMEM)
      else
        let res = \<lparr> res_name = strscpy_name name, res_cpp_id = 0, res_addr = 0, res_size = 0, res_mutex = None \<rparr> in
        cpp_bind (nfp_cpp_mutex_alloc (env_mutex_alloc env) interface NFP_RESOURCE_TBL_TARGET
                    NFP_RESOURCE_TBL_BASE NFP_RESOURCE_TBL_KEY)
          (\<lambda>m. case m of
             None \<Rightarrow> Return (Inl ENOMEM)
           | Some dev_mutex \<Rightarrow>
               resource_acquire_loop crc32_be (env_first env # env_rest env) interface res dev_mutex))"

definition nfp_resource_release :: "u16 \<Rightarrow> nfp_resource \<Rightarrow> unit cppm" where
  "nfp_resource_release interface res =
     (case res_mutex res of
        None \<Rightarrow> Fault
      | Some m \<Rightarrow> cpp_bind (nfp_cpp_mutex_unlock interface m) (\<lambda>_. Return ()))"

text \<open>The rounds of \<open>nfp_resource_wait\<close> until its deadline, each with whether the sleep after it is
  interrupted.  There is always a first round.\<close>

fun nfp_resource_wait ::
  "(u32 \<Rightarrow> u8 list \<Rightarrow> u32) \<Rightarrow> (acquire_env \<times> bool) \<Rightarrow> (acquire_env \<times> bool) list \<Rightarrow> u16 \<Rightarrow> u8 list \<Rightarrow>
   unit result cppm" where
  "nfp_resource_wait crc32_be (env, interrupted) rounds interface name =
     cpp_bind (nfp_resource_acquire crc32_be env interface name)
       (\<lambda>r. case r of
          Inr res \<Rightarrow> cpp_bind (nfp_resource_release interface res) (\<lambda>_. Return (Inr ()))
        | Inl err \<Rightarrow>
            if err \<noteq> ENOENT then Return (Inl err)
            else
              case rounds of
                [] \<Rightarrow> Return (Inl ETIMEDOUT)
              | r # rs \<Rightarrow>
                  if interrupted then Return (Inl ERESTARTSYS)
                  else nfp_resource_wait crc32_be r rs interface name)"

primrec reclaim_entries :: "u16 \<Rightarrow> nat list \<Rightarrow> unit result cppm" where
  "reclaim_entries interface [] = Return (Inr ())"
| "reclaim_entries interface (i # is) =
     cpp_bind (nfp_cpp_mutex_reclaim interface NFP_RESOURCE_TBL_TARGET (entry_addr i))
       (\<lambda>r. case r of Inl err \<Rightarrow> Return (Inl err) | Inr _ \<Rightarrow> reclaim_entries interface is)"

definition nfp_resource_table_init :: "bool \<Rightarrow> bool list \<Rightarrow> u16 \<Rightarrow> unit result cppm" where
  "nfp_resource_table_init alloc_ok sleeps interface =
     cpp_bind (nfp_cpp_mutex_reclaim interface NFP_RESOURCE_TBL_TARGET NFP_RESOURCE_TBL_BASE)
       (\<lambda>r. case r of
          Inl err \<Rightarrow> Return (Inl err)
        | Inr _ \<Rightarrow>
            cpp_bind (nfp_cpp_mutex_alloc alloc_ok interface NFP_RESOURCE_TBL_TARGET
                        NFP_RESOURCE_TBL_BASE NFP_RESOURCE_TBL_KEY)
              (\<lambda>m. case m of
                 None \<Rightarrow> Return (Inl ENOMEM)
               | Some dev_mutex \<Rightarrow>
                   cpp_bind (nfp_cpp_mutex_lock sleeps interface dev_mutex)
                     (\<lambda>(r, dev_mutex).
                        if r \<noteq> Inr () then Return (Inl EINVAL)
                        else
                          cpp_bind (reclaim_entries interface [1..<NFP_RESOURCE_TBL_ENTRIES])
                            (\<lambda>r. cpp_bind (nfp_cpp_mutex_unlock interface dev_mutex) (\<lambda>_. Return r)))))"

section \<open>The table in device memory\<close>

text \<open>Atomic reads of several words return the consecutive words.\<close>

definition block_reads :: "'s device \<Rightarrow> ('s \<Rightarrow> u64 \<Rightarrow> u32) \<Rightarrow> bool" where
  "block_reads D word \<longleftrightarrow>
     (\<forall>a n s. \<exists>bs s'. dev_read D (atomic_read_id NFP_CPP_TARGET_MU) a (4 * n) s = (Inr bs, s') \<and>
        length bs = 4 * n \<and> word s' = word s \<and>
        (\<forall>j<n. get_unaligned_le32 (drop (4 * j) bs) = word s (a + 4 * of_nat j)))"

definition mu_device :: "'s device \<Rightarrow> ('s \<Rightarrow> u64 \<Rightarrow> u32) \<Rightarrow> bool" where
  "mu_device D word \<longleftrightarrow> atomic_engine D word \<and> responsive D \<and> block_reads D word"

text \<open>The index of the entry with a key, and the resource it describes.\<close>

definition table_find :: "(u64 \<Rightarrow> u32) \<Rightarrow> u32 \<Rightarrow> nat list \<Rightarrow> nat option" where
  "table_find w key is = find (\<lambda>i. w (entry_addr i + 4) = key) is"

definition entry_handle :: "nat \<Rightarrow> u32 \<Rightarrow> nfp_cpp_mutex" where
  "entry_handle i key =
     \<lparr> mutex_target = NFP_CPP_TARGET_MU, mutex_depth = 0, mutex_address = entry_addr i, mutex_key = key \<rparr>"

definition entry_resource :: "(u64 \<Rightarrow> u32) \<Rightarrow> nat \<Rightarrow> nfp_cpp_mutex option \<Rightarrow> nfp_resource \<Rightarrow> nfp_resource" where
  "entry_resource w i m res =
     res\<lparr> res_mutex := m,
          res_cpp_id := NFP_CPP_ID (drop_bit 24 (w (entry_addr i + 20))) (drop_bit 8 (w (entry_addr i + 20)))
            (drop_bit 16 (w (entry_addr i + 20))),
          res_addr := push_bit 8 (ucast (w (entry_addr i + 24))),
          res_size := push_bit 8 (ucast (w (entry_addr i + 28))) \<rparr>"

section \<open>Addresses\<close>

lemma entry_addr_0 [simp]: "entry_addr 0 = NFP_RESOURCE_TBL_BASE"
  by (simp add: entry_addr_def)

lemma entry_addr_aligned: "entry_addr i AND 31 = 0"
proof -
  have "entry_addr i = push_bit 5 (0x408000000 + of_nat i)"
    by (simp add: entry_addr_def NFP_RESOURCE_TBL_BASE_def sizeof_entry_def push_bit_eq_mult algebra_simps)
  then have "take_bit 5 (entry_addr i) = 0" by (simp add: take_bit_push_bit)
  then show ?thesis by (simp add: take_bit_eq_mask mask_numeral)
qed

lemma entry_field_neq [simp]:
  assumes "k AND 31 = k" "k \<noteq> 0"
  shows "entry_addr i + k \<noteq> entry_addr j" "entry_addr j \<noteq> entry_addr i + k"
    "entry_addr i + k \<noteq> NFP_RESOURCE_TBL_BASE"
proof -
  have "entry_addr i AND k = (entry_addr i AND 31) AND k" using assms(1) by (metis and.assoc and.commute)
  then have "entry_addr i + k = entry_addr i OR k"
    by (intro disjunctive_add_eq_or) (simp add: entry_addr_aligned)
  then have low: "(entry_addr i + k) AND 31 = k"
    by (simp add: bit.conj_disj_distrib2 entry_addr_aligned assms(1))
  then show "entry_addr i + k \<noteq> entry_addr j" "entry_addr j \<noteq> entry_addr i + k"
    using entry_addr_aligned [of j] assms(2) by auto
  show "entry_addr i + k \<noteq> NFP_RESOURCE_TBL_BASE"
    using low entry_addr_aligned [of 0] assms(2) by auto
qed

lemma base_field_neq [simp]:
  "k AND 31 = k \<Longrightarrow> k \<noteq> 0 \<Longrightarrow> NFP_RESOURCE_TBL_BASE + k \<noteq> entry_addr j"
  using entry_field_neq(1) [of k 0 j] by simp

lemma entry_addr_inject: "i < 128 \<Longrightarrow> j < 128 \<Longrightarrow> entry_addr i = entry_addr j \<longleftrightarrow> i = j"
proof -
  assume ij: "i < 128" "j < 128"
  have "(of_nat (32 * i) :: u64) = of_nat (32 * j) \<longleftrightarrow> 32 * i = 32 * j"
    by (subst word_of_nat_eq_iff) (use ij in \<open>simp add: take_bit_nat_eq_self\<close>)
  then show ?thesis by (simp add: entry_addr_def sizeof_entry_def)
qed

lemma validate_entry:
  "NFP_CPP_INTERFACE_TYPE_of interface \<noteq> NFP_CPP_INTERFACE_TYPE_INVALID \<Longrightarrow>
   nfp_cpp_mutex_validate interface NFP_CPP_TARGET_MU (entry_addr i) = Inr ()"
proof -
  have "entry_addr i AND 7 = (entry_addr i AND 31) AND 7" by (simp add: and.assoc)
  then show "NFP_CPP_INTERFACE_TYPE_of interface \<noteq> NFP_CPP_INTERFACE_TYPE_INVALID \<Longrightarrow> ?thesis"
    by (simp add: nfp_cpp_mutex_validate_def entry_addr_aligned)
qed

section \<open>Finding an entry\<close>

lemma mutex_alloc_run:
  assumes "atomic_engine D word" "responsive D"
    and "nfp_cpp_mutex_validate interface NFP_CPP_TARGET_MU a = Inr ()"
  obtains s' where "run D (nfp_cpp_mutex_alloc alloc_ok interface NFP_CPP_TARGET_MU a key) s =
      Some (if word s (a + 4) = key \<and> alloc_ok
            then Some \<lparr> mutex_target = NFP_CPP_TARGET_MU, mutex_depth = 0, mutex_address = a, mutex_key = key \<rparr>
            else None, s')"
    "word s' = word s"
proof -
  obtain s1 where s1: "word s1 = word s" "\<And>k :: _ \<Rightarrow> nfp_cpp_mutex option cppm.
      run D (nfp_cpp_readl (atomic_read_id NFP_CPP_TARGET_MU) (a + 4) k) s = run D (k (Inr (word s (a + 4)))) s1"
    using readl_run [OF assms(1,2)] by metis
  show thesis
    by (rule that [of s1]) (simp_all add: nfp_cpp_mutex_alloc_def assms(3) s1)
qed

lemma le32_bytes:
  assumes "get_unaligned_le32 p = v"
  shows "p ! 0 = ucast v" "p ! 1 = ucast (drop_bit 8 v)" "p ! 2 = ucast (drop_bit 16 v)" "p ! 3 = ucast (drop_bit 24 v)"
  unfolding assms [symmetric] get_unaligned_le32_def 
  by (rule bit_word_eqI, auto simp: bit_simps dest: bit_imp_le_length)+

lemma entry_of_block:
  assumes "length bs = 32" "\<And>j. j < 8 \<Longrightarrow> get_unaligned_le32 (drop (4 * j) bs) = w (a + 4 * of_nat j)"
  shows "entry_key (entry_mutex (entry_of_bytes bs)) = w (a + 4)"
    and "region_page_offset (entry_region (entry_of_bytes bs)) = w (a + 24)"
    and "region_page_size (entry_region (entry_of_bytes bs)) = w (a + 28)"
    and "region_cpp_action (entry_region (entry_of_bytes bs)) = ucast (drop_bit 8 (w (a + 20)))"
    and "region_cpp_token (entry_region (entry_of_bytes bs)) = ucast (drop_bit 16 (w (a + 20)))"
    and "region_cpp_target (entry_region (entry_of_bytes bs)) = ucast (drop_bit 24 (w (a + 20)))"
proof -
  have "get_unaligned_le32 (drop 20 bs) = w (a + 20)" using assms(2) [of 5] by simp
  note le32_bytes [OF this]
  then show "region_cpp_action (entry_region (entry_of_bytes bs)) = ucast (drop_bit 8 (w (a + 20)))"
    and "region_cpp_token (entry_region (entry_of_bytes bs)) = ucast (drop_bit 16 (w (a + 20)))"
    and "region_cpp_target (entry_region (entry_of_bytes bs)) = ucast (drop_bit 24 (w (a + 20)))"
    using assms(1) by (simp_all add: entry_of_bytes_def)
qed (use assms(2) [of 1] assms(2) [of 6] assms(2) [of 7] in \<open>simp_all add: entry_of_bytes_def\<close>)

lemma NFP_CPP_ID_bytes:
  "NFP_CPP_ID (ucast (ucast x :: u8)) (ucast (ucast y :: u8)) (ucast (ucast z :: u8)) = NFP_CPP_ID x y z"
proof -
  have "ucast (ucast v :: u8) = v AND mask 8" for v :: u32 by (rule bit_word_eqI) (auto simp: bit_simps)
  then show ?thesis by (simp add: NFP_CPP_ID_def mask_numeral and.assoc)
qed

lemma scan_run:
  assumes "mu_device D word" "NFP_CPP_INTERFACE_TYPE_of interface \<noteq> NFP_CPP_INTERFACE_TYPE_INVALID"
  shows "\<exists>s'. word s' = word s \<and> run D (resource_scan alloc_ok interface key res is) s =
     Some (case table_find (word s) key is of
             None \<Rightarrow> (Inl ENOENT, res)
           | Some i \<Rightarrow> (Inr (), entry_resource (word s) i (if alloc_ok then Some (entry_handle i key) else None) res), s')"
proof (induction "is" arbitrary: s)
  case Nil
  show ?case by (auto simp: table_find_def)
next
  case (Cons i "is")
  have D: "atomic_engine D word" "responsive D" "block_reads D word" using assms(1) by (simp_all add: mu_device_def)
  obtain bs s1 where r: "dev_read D (atomic_read_id NFP_CPP_TARGET_MU) (entry_addr i) (4 * 8) s = (Inr bs, s1)"
    "length bs = 4 * 8" "word s1 = word s"
    "\<forall>j<8. get_unaligned_le32 (drop (4 * j) bs) = word s (entry_addr i + 4 * of_nat j)"
    using D(3) unfolding block_reads_def by blast
  have len: "length bs = 32" using r(2) by simp
  have r': "dev_read D (atomic_read_id NFP_CPP_TARGET_MU) (entry_addr i) 32 s = (Inr bs, s1)" using r(1) by simp
  note e = entry_of_block [OF len r(4) [rule_format]]
  show ?case
  proof (cases "word s (entry_addr i + 4) = key")
    case True
    obtain s2 where s2: "run D (nfp_cpp_mutex_alloc alloc_ok interface NFP_CPP_TARGET_MU (entry_addr i) key) s1 =
        Some (if word s1 (entry_addr i + 4) = key \<and> alloc_ok
              then Some \<lparr> mutex_target = NFP_CPP_TARGET_MU, mutex_depth = 0, mutex_address = entry_addr i, mutex_key = key \<rparr>
              else None, s2)" "word s2 = word s1"
      by (rule mutex_alloc_run [OF D(1,2) validate_entry [OF assms(2)]])
    with True r' r(3) show ?thesis
      by (intro exI [of _ s2])
        (simp add: table_find_def e run_bind len sizeof_entry_def Let_def entry_resource_def entry_handle_def NFP_CPP_ID_bytes)
  next
    case False
    with Cons.IH [of s1, unfolded r(3)] r' show ?thesis
      by (simp add: table_find_def e len sizeof_entry_def Let_def)
  qed
qed

section \<open>Acquiring and releasing\<close>

lemma lock_free_run:
  assumes "atomic_engine D word" "responsive D" "handle_at A mutex" "mutex_depth mutex = 0"
    and "word s (A + 4) = mutex_key mutex" "nfp_mutex_is_unlocked (word s A)"
  obtains s' where "run D (nfp_cpp_mutex_lock sleeps interface mutex) s = Some ((Inr (), mutex\<lparr> mutex_depth := 1 \<rparr>), s')"
    "word s' = (word s)(A := nfp_mutex_locked interface)"
  by (rule trylock_free_run [OF assms, of interface])
    (rule that, simp_all add: nfp_cpp_mutex_lock.simps [of sleeps] run_bind del: nfp_cpp_mutex_lock.simps)

text \<open>The state the table operations start from: the table's mutex is free and has its key.\<close>

definition table_free :: "(u64 \<Rightarrow> u32) \<Rightarrow> bool" where
  "table_free w \<longleftrightarrow>
     w (NFP_RESOURCE_TBL_BASE + 4) = NFP_RESOURCE_TBL_KEY \<and> nfp_mutex_is_unlocked (w NFP_RESOURCE_TBL_BASE)"

definition resource_key :: "(u32 \<Rightarrow> u8 list \<Rightarrow> u32) \<Rightarrow> u8 list \<Rightarrow> u32" where
  "resource_key crc32_be name = crc32_posix crc32_be (strscpy_name name) NFP_RESOURCE_ENTRY_NAME_SZ"

text \<open>What an attempt makes of a free table, for the words of the device.\<close>

definition try_result :: "(u64 \<Rightarrow> u32) \<Rightarrow> u32 \<Rightarrow> unit result" where
  "try_result w key =
     (case table_find w key [0..<NFP_RESOURCE_TBL_ENTRIES] of
        None \<Rightarrow> Inl ENOENT
      | Some i \<Rightarrow>
          if nfp_mutex_is_unlocked (w (entry_addr i)) then Inr ()
          else Inl (if nfp_mutex_is_locked (w (entry_addr i)) then EBUSY else EINVAL))"

definition try_words :: "u16 \<Rightarrow> (u64 \<Rightarrow> u32) \<Rightarrow> u32 \<Rightarrow> u64 \<Rightarrow> u32" where
  "try_words interface w key =
     (case table_find w key [0..<NFP_RESOURCE_TBL_ENTRIES] of
        None \<Rightarrow> w
      | Some i \<Rightarrow>
          w(entry_addr i :=
              if nfp_mutex_is_unlocked (w (entry_addr i)) then nfp_mutex_locked interface
              else w (entry_addr i) OR 0xf))
     (NFP_RESOURCE_TBL_BASE := nfp_mutex_unlocked interface)"

lemma table_entries [simp]: "NFP_RESOURCE_TBL_ENTRIES = 128"
  by (simp add: NFP_RESOURCE_TBL_ENTRIES_def NFP_RESOURCE_TBL_SIZE_def sizeof_entry_def)

lemma table_find_Some:
  "table_find w key is = Some i \<Longrightarrow> i \<in> set is \<and> w (entry_addr i + 4) = key"
  by (auto simp: table_find_def dest: find_SomeD)

lemma table_find_upd [simp]:
  "table_find (w(entry_addr j := v)) key is = table_find w key is"
  "table_find (w(NFP_RESOURCE_TBL_BASE := v)) key is = table_find w key is"
  by (simp_all add: table_find_def)

lemma entry_resource_upd [simp]:
  "entry_resource (w(entry_addr j := v)) i m res = entry_resource w i m res"
  "entry_resource (w(NFP_RESOURCE_TBL_BASE := v)) i m res = entry_resource w i m res"
  by (simp_all add: entry_resource_def)

lemma unlock_taken_run:
  assumes "atomic_engine D word" "responsive D" "handle_at A mutex" "mutex_depth mutex = 0"
    and "word s (A + 4) = mutex_key mutex" "word s A = nfp_mutex_locked interface"
  obtains s' where "run D (nfp_cpp_mutex_unlock interface (mutex\<lparr> mutex_depth := 1 \<rparr>)) s = Some ((Inr (), mutex), s')"
    "word s' = (word s)(A := nfp_mutex_unlocked interface)"
proof -
  have eq: "mutex\<lparr> mutex_depth := 0 \<rparr> = mutex" using assms(4) by (cases mutex) simp
  show thesis
    by (rule unlock_held_run [OF assms(1,2), of A "mutex\<lparr> mutex_depth := 1 \<rparr>" s interface])
      (use assms(3-6) eq that in \<open>auto simp: handle_at_def\<close>)
qed

lemma try_acquire_run:
  assumes D: "mu_device D word" and valid: "NFP_CPP_INTERFACE_TYPE_of interface \<noteq> NFP_CPP_INTERFACE_TYPE_INVALID"
    and free: "table_free (word s)" and dev: "dev_mutex = entry_handle 0 NFP_RESOURCE_TBL_KEY"
    and name: "c_str (res_name res) \<noteq> NFP_RESOURCE_TBL_NAME"
    and key: "key = crc32_posix crc32_be (res_name res) NFP_RESOURCE_ENTRY_NAME_SZ" "key \<noteq> NFP_RESOURCE_TBL_KEY"
    and alloc: "at_alloc a"
  obtains s' where "word s' = try_words interface (word s) key"
    "run D (nfp_resource_try_acquire crc32_be a interface res dev_mutex) s =
       Some ((try_result (word s) key,
              case table_find (word s) key [0..<NFP_RESOURCE_TBL_ENTRIES] of
                None \<Rightarrow> res
              | Some i \<Rightarrow> entry_resource (word s) i
                  (if nfp_mutex_is_unlocked (word s (entry_addr i))
                   then Some ((entry_handle i key)\<lparr> mutex_depth := 1 \<rparr>) else None) res,
              dev_mutex), s')"
proof -
  have E: "atomic_engine D word" "responsive D" using D by (simp_all add: mu_device_def)
  have h: "handle_at NFP_RESOURCE_TBL_BASE dev_mutex" "mutex_depth dev_mutex = 0" "mutex_key dev_mutex = NFP_RESOURCE_TBL_KEY"
    by (simp_all add: dev handle_at_def entry_handle_def)
  obtain s1 where s1: "run D (nfp_cpp_mutex_lock (at_sleeps a) interface dev_mutex) s = Some ((Inr (), dev_mutex\<lparr> mutex_depth := 1 \<rparr>), s1)"
    "word s1 = (word s)(NFP_RESOURCE_TBL_BASE := nfp_mutex_locked interface)"
    using lock_free_run [OF E h(1,2), of s] free h(3) unfolding table_free_def by metis
  have f: "nfp_cpp_resource_find crc32_be (at_alloc a) interface res =
      resource_scan True interface key res [0..<NFP_RESOURCE_TBL_ENTRIES]"
    using name alloc key(1) by (simp add: nfp_cpp_resource_find_def Let_def)
  obtain s2 where s2: "word s2 = word s1" "run D (resource_scan True interface key res [0..<NFP_RESOURCE_TBL_ENTRIES]) s1 =
     Some (case table_find (word s) key [0..<NFP_RESOURCE_TBL_ENTRIES] of
             None \<Rightarrow> (Inl ENOENT, res)
           | Some i \<Rightarrow> (Inr (), entry_resource (word s) i (Some (entry_handle i key)) res), s2)"
    using scan_run [OF D valid, of s1 True key res "[0..<NFP_RESOURCE_TBL_ENTRIES]", unfolded s1(2) table_find_upd entry_resource_upd if_True]
    by (auto simp: s1(2))
  show thesis
  proof (cases "table_find (word s) key [0..<NFP_RESOURCE_TBL_ENTRIES]")
    case None
    obtain s3 where "run D (nfp_cpp_mutex_unlock interface (dev_mutex\<lparr> mutex_depth := 1 \<rparr>)) s2 =
        Some ((Inr (), dev_mutex), s3)" "word s3 = (word s2)(NFP_RESOURCE_TBL_BASE := nfp_mutex_unlocked interface)"
      by (rule unlock_taken_run [OF E h(1,2), of s2 interface]) (use free s1(2) s2(1) h(3) in \<open>simp_all add: table_free_def\<close>)
    with None s1 s2 show thesis 
      by (intro that [of s3]) (simp_all add: nfp_resource_try_acquire_def run_bind f try_result_def try_words_def)
  next
    case (Some i)
    have key_i: "word s (entry_addr i + 4) = key" and i: "i < 128" using table_find_Some [OF Some] by auto
    then have "i \<noteq> 0" using free key(2) by (intro notI) (simp add: table_free_def)
    then have base: "entry_addr i \<noteq> NFP_RESOURCE_TBL_BASE" using entry_addr_inject [of i 0] i by simp
    let ?m = "entry_handle i key" and ?u = "nfp_mutex_is_unlocked (word s (entry_addr i))"
    have hm: "handle_at (entry_addr i) ?m" "mutex_depth ?m = 0" "word s2 (entry_addr i + 4) = mutex_key ?m"
      using key_i s1(2) s2(1) by (simp_all add: handle_at_def entry_handle_def)
    have w2: "word s2 (entry_addr i) = word s (entry_addr i)" using base s1(2) s2(1) by simp
    obtain s3 where s3: "run D (nfp_cpp_mutex_trylock interface ?m) s2 =
        Some (if ?u then (Inr (), ?m\<lparr> mutex_depth := 1 \<rparr>)
              else (Inl (if nfp_mutex_is_locked (word s (entry_addr i)) then EBUSY else EINVAL), ?m), s3)"
      "word s3 = (word s2)(entry_addr i := if ?u then nfp_mutex_locked interface else word s (entry_addr i) OR 0xf)"
      using trylock_run [OF E hm, of interface, unfolded w2] by metis
    obtain s4 where "run D (nfp_cpp_mutex_unlock interface (dev_mutex\<lparr> mutex_depth := 1 \<rparr>)) s3 =
        Some ((Inr (), dev_mutex), s4)" "word s4 = (word s3)(NFP_RESOURCE_TBL_BASE := nfp_mutex_unlocked interface)"
      by (rule unlock_taken_run [OF E h(1,2), of s3 interface])
        (use free s1(2) s2(1) s3(2) h(3) base in \<open>auto simp: table_free_def\<close>)
    with Some s1 s2 s3 show thesis
      by (intro that [of s4]) (auto simp: nfp_resource_try_acquire_def run_bind f try_result_def try_words_def
        entry_resource_def fun_upd_twist [OF base])
  qed
qed

text \<open>What a call of \<open>nfp_resource_acquire\<close> relies on to run to its end.\<close>

definition env_ok :: "acquire_env \<Rightarrow> bool" where
  "env_ok env \<longleftrightarrow>
     env_res_alloc env \<and> env_mutex_alloc env \<and> at_alloc (env_first env) \<and> list_all at_alloc (env_rest env)"

definition new_resource :: "u8 list \<Rightarrow> nfp_resource" where
  "new_resource name = \<lparr> res_name = strscpy_name name, res_cpp_id = 0, res_addr = 0, res_size = 0, res_mutex = None \<rparr>"

lemma acquire_start:
  assumes "mu_device D word" "NFP_CPP_INTERFACE_TYPE_of interface \<noteq> NFP_CPP_INTERFACE_TYPE_INVALID" "table_free (word s)"
    and "env_res_alloc env" "env_mutex_alloc env"
  obtains s' where "word s' = word s"
    "run D (nfp_resource_acquire crc32_be env interface name) s =
       run D (resource_acquire_loop crc32_be (env_first env # env_rest env) interface (new_resource name)
                (entry_handle 0 NFP_RESOURCE_TBL_KEY)) s'"
proof -
  have E: "atomic_engine D word" "responsive D" using assms(1) by (simp_all add: mu_device_def)
  obtain s' where "run D (nfp_cpp_mutex_alloc True interface NFP_CPP_TARGET_MU (entry_addr 0) NFP_RESOURCE_TBL_KEY) s =
      Some (if word s (entry_addr 0 + 4) = NFP_RESOURCE_TBL_KEY \<and> True
            then Some \<lparr> mutex_target = NFP_CPP_TARGET_MU, mutex_depth = 0, mutex_address = entry_addr 0,
                        mutex_key = NFP_RESOURCE_TBL_KEY \<rparr> else None, s')"
    "word s' = word s"
    by (rule mutex_alloc_run [OF E validate_entry [OF assms(2)]])
  with assms(3-5) show thesis
    by (intro that [of s']) (simp_all add: nfp_resource_acquire_def run_bind Let_def new_resource_def table_free_def entry_handle_def)
qed

lemma try_words_free: "table_free w \<Longrightarrow> key \<noteq> NFP_RESOURCE_TBL_KEY \<Longrightarrow> table_free (try_words interface w key)"
  by (auto simp: table_free_def try_words_def split: option.split)

lemma try_words_busy:
  assumes "try_result w key = Inl EBUSY" "table_free w"
  shows "try_result (try_words interface w key) key = Inl EBUSY"
  using assms by (auto simp: try_result_def try_words_def table_free_def locked_or_low dest: unlocked_not_locked
    split: option.splits if_splits)

lemma acquire_loop_fails:
  assumes "mu_device D word" "NFP_CPP_INTERFACE_TYPE_of interface \<noteq> NFP_CPP_INTERFACE_TYPE_INVALID"
    and "c_str (res_name res) \<noteq> NFP_RESOURCE_TBL_NAME"
    and "key = crc32_posix crc32_be (res_name res) NFP_RESOURCE_ENTRY_NAME_SZ" "key \<noteq> NFP_RESOURCE_TBL_KEY"
    and "list_all at_alloc as" "table_free (word s)" "try_result (word s) key = Inl err" "as = [] \<Longrightarrow> err = EBUSY"
  shows "\<exists>s'. table_free (word s') \<and>
    run D (resource_acquire_loop crc32_be as interface res (entry_handle 0 NFP_RESOURCE_TBL_KEY)) s =
      Some (Inl (if err = EBUSY \<and> list_ex at_interrupted as then ERESTARTSYS else err), s')"
  using assms(3,4,6-9)
proof (induction "as" arbitrary: s res)
  case Nil
  then show ?case by auto
next
  case (Cons a as)
  obtain s1 res1 where s1: "word s1 = try_words interface (word s) key"
    "run D (nfp_resource_try_acquire crc32_be a interface res (entry_handle 0 NFP_RESOURCE_TBL_KEY)) s =
       Some ((try_result (word s) key, res1, entry_handle 0 NFP_RESOURCE_TBL_KEY), s1)" "res_name res1 = res_name res"
    by (rule try_acquire_run [OF assms(1,2) Cons.prems(4) refl Cons.prems(1,2) assms(5), of a])
      (use Cons.prems(3) in \<open>auto simp: entry_resource_def split: option.splits\<close>)
  have free: "table_free (word s1)" using s1(1) try_words_free [OF Cons.prems(4) assms(5)] by simp
  show ?case
  proof (cases "err = EBUSY \<and> \<not> at_interrupted a")
    case True
    then have "try_result (word s1) key = Inl EBUSY"
      using try_words_busy Cons.prems(4,5) s1(1) by auto
    with Cons.IH [of res1 s1] Cons.prems s1 free True show ?thesis by (auto simp: run_bind)
  next
    case False
    with Cons.prems(5) s1(2) free show ?thesis by (auto simp: run_bind)
  qed
qed

text \<open>C22. When the entry is missing, held or corrupt, acquiring a resource ends with an error: ENOENT and
  EINVAL at once, EBUSY at the deadline (ERESTARTSYS on a signal).  The mutex of the table is free again
  afterwards in every case.\<close>

theorem resource_acquire_fails:
  assumes "mu_device D word" "NFP_CPP_INTERFACE_TYPE_of interface \<noteq> NFP_CPP_INTERFACE_TYPE_INVALID"
    and "c_str (strscpy_name name) \<noteq> NFP_RESOURCE_TBL_NAME" "resource_key crc32_be name \<noteq> NFP_RESOURCE_TBL_KEY"
    and "env_ok env" "table_free (word s)" "try_result (word s) (resource_key crc32_be name) = Inl err"
  shows "\<exists>s'. table_free (word s') \<and>
    run D (nfp_resource_acquire crc32_be env interface name) s =
      Some (Inl (if err = EBUSY \<and> list_ex at_interrupted (env_first env # env_rest env) then ERESTARTSYS else err), s')"
proof -
  have ok: "env_res_alloc env" "env_mutex_alloc env" "list_all at_alloc (env_first env # env_rest env)"
    using assms(5) by (simp_all add: env_ok_def)
  obtain s1 where s1: "word s1 = word s"
    "run D (nfp_resource_acquire crc32_be env interface name) s =
       run D (resource_acquire_loop crc32_be (env_first env # env_rest env) interface (new_resource name)
                (entry_handle 0 NFP_RESOURCE_TBL_KEY)) s1"
    using acquire_start [OF assms(1,2,6) ok(1,2)] .
  show ?thesis unfolding s1(2)
    by (rule acquire_loop_fails [OF assms(1,2) _ _ assms(4) ok(3)])
      (use assms(3,6,7) s1(1) in \<open>simp_all add: new_resource_def resource_key_def\<close>)
qed

lemma acquire_release_run:
  assumes "mu_device D word" "NFP_CPP_INTERFACE_TYPE_of interface \<noteq> NFP_CPP_INTERFACE_TYPE_INVALID"
    and "c_str (strscpy_name name) \<noteq> NFP_RESOURCE_TBL_NAME" "resource_key crc32_be name \<noteq> NFP_RESOURCE_TBL_KEY"
    and "env_ok env" "table_free (word s)"
    and "table_find (word s) (resource_key crc32_be name) [0..<NFP_RESOURCE_TBL_ENTRIES] = Some i"
    and "nfp_mutex_is_unlocked (word s (entry_addr i))"
  shows "\<exists>res s'. run D (nfp_resource_acquire crc32_be env interface name) s = Some (Inr res, s') \<and>
    res_cpp_id res = NFP_CPP_ID (drop_bit 24 (word s (entry_addr i + 20))) (drop_bit 8 (word s (entry_addr i + 20)))
                       (drop_bit 16 (word s (entry_addr i + 20))) \<and>
    res_addr res = push_bit 8 (ucast (word s (entry_addr i + 24))) \<and>
    res_size res = push_bit 8 (ucast (word s (entry_addr i + 28))) \<and>
    word s' = (word s)(entry_addr i := nfp_mutex_locked interface,
                       NFP_RESOURCE_TBL_BASE := nfp_mutex_unlocked interface) \<and>
    (\<forall>t. word t = word s' \<longrightarrow>
       (\<exists>t'. run D (nfp_resource_release interface res) t = Some ((), t') \<and>
             word t' = (word s)(entry_addr i := nfp_mutex_unlocked interface,
                                NFP_RESOURCE_TBL_BASE := nfp_mutex_unlocked interface)))"
proof -
  let ?key = "resource_key crc32_be name" and ?first = "env_first env"
  have E: "atomic_engine D word" "responsive D" using assms(1) by (simp_all add: mu_device_def)
  have ok: "env_res_alloc env" "env_mutex_alloc env" "at_alloc ?first" using assms(5) by (simp_all add: env_ok_def)
  obtain s1 where s1: "word s1 = word s"
    "run D (nfp_resource_acquire crc32_be env interface name) s =
       run D (resource_acquire_loop crc32_be (?first # env_rest env) interface (new_resource name)
                (entry_handle 0 NFP_RESOURCE_TBL_KEY)) s1"
    using acquire_start [OF assms(1,2,6) ok(1,2)] .
  define res where "res = entry_resource (word s) i (Some ((entry_handle i ?key)\<lparr> mutex_depth := 1 \<rparr>)) (new_resource name)"
  have res: "try_result (word s) ?key = Inr ()"
    "try_words interface (word s) ?key = (word s)(entry_addr i := nfp_mutex_locked interface,
                       NFP_RESOURCE_TBL_BASE := nfp_mutex_unlocked interface)"
    using assms(7,8) by (simp_all add: try_result_def try_words_def)
  obtain s2 where s2: "word s2 = (word s)(entry_addr i := nfp_mutex_locked interface,
                       NFP_RESOURCE_TBL_BASE := nfp_mutex_unlocked interface)"
    "run D (nfp_resource_try_acquire crc32_be ?first interface (new_resource name) (entry_handle 0 NFP_RESOURCE_TBL_KEY)) s1 =
       Some ((Inr (), res, entry_handle 0 NFP_RESOURCE_TBL_KEY), s2)"
    by (rule try_acquire_run [OF assms(1,2), of s1 _ "new_resource name" ?key crc32_be ?first, unfolded s1(1) res])
      (use assms(3,4,6-8) ok(3) in \<open>simp_all add: new_resource_def resource_key_def res_def\<close>)
  have i: "i < 128" "word s (entry_addr i + 4) = ?key" using table_find_Some [OF assms(7)] by auto
  then have "i \<noteq> 0" using assms(4,6) by (intro notI) (simp add: table_free_def)
  then have base: "entry_addr i \<noteq> NFP_RESOURCE_TBL_BASE" using entry_addr_inject [of i 0] i(1) by simp
  have rel: "\<exists>t'. run D (nfp_resource_release interface res) t = Some ((), t') \<and>
      word t' = (word s2)(entry_addr i := nfp_mutex_unlocked interface)" if t: "word t = word s2" for t
  proof -
    obtain t' where "run D (nfp_cpp_mutex_unlock interface ((entry_handle i ?key)\<lparr> mutex_depth := 1 \<rparr>)) t =
        Some ((Inr (), entry_handle i ?key), t')" "word t' = (word t)(entry_addr i := nfp_mutex_unlocked interface)"
      by (rule unlock_taken_run [OF E, of "entry_addr i" "entry_handle i ?key" t interface])
        (use t s2(1) base i(2) in \<open>simp_all add: entry_handle_def handle_at_def\<close>)
    with t show ?thesis by (simp add: run_bind nfp_resource_release_def res_def entry_resource_def)
  qed
  have w: "(word s2)(entry_addr i := nfp_mutex_unlocked interface) =
      (word s)(entry_addr i := nfp_mutex_unlocked interface, NFP_RESOURCE_TBL_BASE := nfp_mutex_unlocked interface)"
    using base by (simp add: s2(1) fun_upd_twist [OF base])
  show ?thesis
    by (rule exI [of _ res], rule exI [of _ s2])
      (use s1 s2 rel w in \<open>simp add: run_bind res_def entry_resource_def\<close>)
qed

text \<open>C12. Acquiring a resource whose entry is free takes its mutex and returns the region the entry
  describes; releasing it frees the mutex again, and of the words of the device only the two lock words
  have changed.\<close>

theorem resource_acquire_release:
  assumes "mu_device D word" "NFP_CPP_INTERFACE_TYPE_of interface \<noteq> NFP_CPP_INTERFACE_TYPE_INVALID"
    and "c_str (strscpy_name name) \<noteq> NFP_RESOURCE_TBL_NAME" "resource_key crc32_be name \<noteq> NFP_RESOURCE_TBL_KEY"
    and "env_ok env" "table_free (word s)"
    and "table_find (word s) (resource_key crc32_be name) [0..<NFP_RESOURCE_TBL_ENTRIES] = Some i"
    and "nfp_mutex_is_unlocked (word s (entry_addr i))"
  shows "\<exists>res s' s''. run D (nfp_resource_acquire crc32_be env interface name) s = Some (Inr res, s') \<and>
    res_cpp_id res = NFP_CPP_ID (drop_bit 24 (word s (entry_addr i + 20))) (drop_bit 8 (word s (entry_addr i + 20)))
                       (drop_bit 16 (word s (entry_addr i + 20))) \<and>
    res_addr res = push_bit 8 (ucast (word s (entry_addr i + 24))) \<and>
    res_size res = push_bit 8 (ucast (word s (entry_addr i + 28))) \<and>
    word s' = (word s)(entry_addr i := nfp_mutex_locked interface,
                       NFP_RESOURCE_TBL_BASE := nfp_mutex_unlocked interface) \<and>
    run D (nfp_resource_release interface res) s' = Some ((), s'') \<and>
    word s'' = (word s)(entry_addr i := nfp_mutex_unlocked interface,
                        NFP_RESOURCE_TBL_BASE := nfp_mutex_unlocked interface)"
  using acquire_release_run [OF assms] by blast

text \<open>When the kernel has no memory for the mutex handle of an entry that exists, acquiring the
  resource uses the null pointer: the result of the allocation is not checked.\<close>

theorem resource_acquire_null:
  assumes "mu_device D word" "NFP_CPP_INTERFACE_TYPE_of interface \<noteq> NFP_CPP_INTERFACE_TYPE_INVALID"
    and "c_str (strscpy_name name) \<noteq> NFP_RESOURCE_TBL_NAME"
    and "env_res_alloc env" "env_mutex_alloc env" "\<not> at_alloc (env_first env)" "table_free (word s)"
    and "table_find (word s) (resource_key crc32_be name) [0..<NFP_RESOURCE_TBL_ENTRIES] = Some i"
  shows "run D (nfp_resource_acquire crc32_be env interface name) s = None"
proof -
  let ?dev = "entry_handle 0 NFP_RESOURCE_TBL_KEY" and ?a = "env_first env" and ?res = "new_resource name"
  have E: "atomic_engine D word" "responsive D" using assms(1) by (simp_all add: mu_device_def)
  obtain s1 where s1: "word s1 = word s"
    "run D (nfp_resource_acquire crc32_be env interface name) s =
       run D (resource_acquire_loop crc32_be (?a # env_rest env) interface ?res ?dev) s1"
    using acquire_start [OF assms(1,2,7,4,5)] .
  obtain s2 where s2: "run D (nfp_cpp_mutex_lock (at_sleeps ?a) interface ?dev) s1 = Some ((Inr (), ?dev\<lparr> mutex_depth := 1 \<rparr>), s2)"
    "word s2 = (word s1)(NFP_RESOURCE_TBL_BASE := nfp_mutex_locked interface)"
    by (rule lock_free_run [OF E, of NFP_RESOURCE_TBL_BASE ?dev s1])
      (use assms(7) s1(1) in \<open>simp_all add: table_free_def entry_handle_def handle_at_def\<close>)
  have "table_find (word s2) (resource_key crc32_be name) [0..<NFP_RESOURCE_TBL_ENTRIES] = Some i"
    using assms(8) s1(1) s2(2) by simp
  then obtain s3 where "run D (nfp_cpp_resource_find crc32_be (at_alloc ?a) interface ?res) s2 =
      Some ((Inr (), entry_resource (word s2) i None ?res), s3)"
    using scan_run [OF assms(1,2), of s2 False "resource_key crc32_be name" ?res "[0..<NFP_RESOURCE_TBL_ENTRIES]"] assms(3,6)
    by (auto simp: nfp_cpp_resource_find_def resource_key_def new_resource_def Let_def)
  with s2(1) show ?thesis unfolding s1(2)
    by (simp add: run_bind nfp_resource_try_acquire_def entry_resource_def)
qed

section \<open>Initialisation\<close>

definition reclaimed :: "u16 \<Rightarrow> nat list \<Rightarrow> (u64 \<Rightarrow> u32) \<Rightarrow> u64 \<Rightarrow> u32" where
  "reclaimed interface is w a =
     (if a \<in> entry_addr ` set is \<and> owned_by interface (w a) then nfp_mutex_unlocked interface else w a)"

lemma unlocked_not_owned: "\<not> owned_by interface (nfp_mutex_unlocked interface')"
  by (simp add: owned_by_def)

lemma reclaim_entries_run:
  assumes "atomic_engine D word" "responsive D" "NFP_CPP_INTERFACE_TYPE_of interface \<noteq> NFP_CPP_INTERFACE_TYPE_INVALID"
  obtains s' where "run D (reclaim_entries interface is) s = Some (Inr (), s')" "word s' = reclaimed interface is (word s)"
proof (induction "is" arbitrary: s thesis)
  case Nil
  then show ?case by (simp add: reclaimed_def fun_eq_iff)
next
  case (Cons i "is")
  obtain s1 where s1: "run D (nfp_cpp_mutex_reclaim interface NFP_CPP_TARGET_MU (entry_addr i)) s =
      Some (Inr (owned_by interface (word s (entry_addr i))), s1)"
    "word s1 = (if owned_by interface (word s (entry_addr i))
                then (word s)(entry_addr i := nfp_mutex_unlocked interface) else word s)"
    by (rule reclaim_run [OF assms(1,2) validate_entry [OF assms(3)]])
  obtain s2 where "run D (reclaim_entries interface is) s1 = Some (Inr (), s2)" "word s2 = reclaimed interface is (word s1)"
    using Cons.IH by blast
  with s1 show ?case
    by (intro Cons.prems [of s2]) (auto simp: run_bind reclaimed_def fun_eq_iff unlocked_not_owned)
qed

text \<open>C23. After the table is initialised no entry is held by this interface any more: its stale locks are
  free, the locks of others are untouched, and the mutex of the table is free.\<close>

theorem resource_table_init_correct:
  assumes "mu_device D word" "NFP_CPP_INTERFACE_TYPE_of interface \<noteq> NFP_CPP_INTERFACE_TYPE_INVALID"
    and "word s (NFP_RESOURCE_TBL_BASE + 4) = NFP_RESOURCE_TBL_KEY"
    and "nfp_mutex_is_unlocked (word s NFP_RESOURCE_TBL_BASE) \<or> owned_by interface (word s NFP_RESOURCE_TBL_BASE)"
  shows "\<exists>s'. run D (nfp_resource_table_init True sleeps interface) s = Some (Inr (), s') \<and> table_free (word s') \<and>
    (\<forall>i<NFP_RESOURCE_TBL_ENTRIES. \<not> owned_by interface (word s' (entry_addr i)) \<and>
       (0 < i \<and> \<not> owned_by interface (word s (entry_addr i)) \<longrightarrow> word s' (entry_addr i) = word s (entry_addr i)))"
proof -
  let ?dev = "entry_handle 0 NFP_RESOURCE_TBL_KEY" and ?B = NFP_RESOURCE_TBL_BASE
  have E: "atomic_engine D word" "responsive D" using assms(1) by (simp_all add: mu_device_def)
  note valid = validate_entry [OF assms(2), of 0, simplified]
  obtain b s1 where s1: "run D (nfp_cpp_mutex_reclaim interface NFP_CPP_TARGET_MU ?B) s = Some (Inr b, s1)"
    "word s1 = (if owned_by interface (word s ?B) then (word s)(?B := nfp_mutex_unlocked interface) else word s)"
    using reclaim_run [OF E valid] by metis
  have free: "table_free (word s1)" using assms(3,4) s1(2) by (auto simp: table_free_def)
  obtain s2 where s2: "run D (nfp_cpp_mutex_alloc True interface NFP_CPP_TARGET_MU ?B NFP_RESOURCE_TBL_KEY) s1 = Some (Some ?dev, s2)"
    "word s2 = word s1"
    by (rule mutex_alloc_run [OF E valid, of True NFP_RESOURCE_TBL_KEY s1])
      (use free in \<open>auto simp: table_free_def entry_handle_def\<close>)
  obtain s3 where s3: "run D (nfp_cpp_mutex_lock sleeps interface ?dev) s2 = Some ((Inr (), ?dev\<lparr> mutex_depth := 1 \<rparr>), s3)"
    "word s3 = (word s2)(?B := nfp_mutex_locked interface)"
    by (rule lock_free_run [OF E, of ?B ?dev s2])
      (use free s2(2) in \<open>simp_all add: table_free_def entry_handle_def handle_at_def\<close>)
  obtain s4 where s4: "run D (reclaim_entries interface [1..<NFP_RESOURCE_TBL_ENTRIES]) s3 = Some (Inr (), s4)"
    "word s4 = reclaimed interface [1..<NFP_RESOURCE_TBL_ENTRIES] (word s3)"
    by (rule reclaim_entries_run [OF E assms(2)])
  have base: "entry_addr i \<noteq> ?B" if "0 < i" "i < 128" for i using entry_addr_inject [of i 0] that by simp
  have out: "?B \<notin> entry_addr ` {Suc 0..<128}" "?B + 4 \<notin> entry_addr ` {Suc 0..<128}"
  proof -
    show "?B \<notin> entry_addr ` {Suc 0..<128}"
    proof
      assume "?B \<in> entry_addr ` {Suc 0..<128}"
      then obtain x where "?B = entry_addr x" "0 < x" "x < 128" by auto
      with base [of x] show False by simp
    qed
  qed auto
  have keep: "word s4 ?B = nfp_mutex_locked interface" "word s4 (?B + 4) = NFP_RESOURCE_TBL_KEY"
    using s4(2) s3(2) s2(2) free out by (simp_all add: reclaimed_def table_free_def)
  obtain s5 where s5: "run D (nfp_cpp_mutex_unlock interface (?dev\<lparr> mutex_depth := 1 \<rparr>)) s4 = Some ((Inr (), ?dev), s5)"
    "word s5 = (word s4)(?B := nfp_mutex_unlocked interface)"
    by (rule unlock_taken_run [OF E, of ?B ?dev s4 interface]) (use keep in \<open>simp_all add: entry_handle_def handle_at_def\<close>)
  have other: "word s5 (entry_addr i) = (if owned_by interface (word s (entry_addr i)) then nfp_mutex_unlocked interface
      else word s (entry_addr i))" if "0 < i" "i < 128" for i
    using s5(2) s4(2) s3(2) s2(2) s1(2) base [OF that] that by (auto simp: reclaimed_def)
  have "\<not> owned_by interface (word s5 (entry_addr i))" if "i < 128" for i
    using other [of i] s5(2) that by (cases "i = 0") (auto simp: unlocked_not_owned)
  moreover have "run D (nfp_resource_table_init True sleeps interface) s = Some (Inr (), s5)"
    using s1(1) s2(1) s3(1) s4(1) s5(1) by (simp add: nfp_resource_table_init_def run_bind)
  moreover have "table_free (word s5)" using s5(2) keep(2) by (simp add: table_free_def)
  ultimately show ?thesis using other by (intro exI [of _ s5]) simp
qed

section \<open>Witnesses\<close>

lemma mu_memory_blocks: "block_reads mu_memory (\<lambda>s. s)"
proof -
  have nth: "get_unaligned_le32 (drop (4 * j) (concat (map f [0..<n]))) = v"
    if "j < n" "\<And>i. length (f i) = 4" "get_unaligned_le32 (f j) = v" for j n v and f :: "nat \<Rightarrow> u8 list"
  proof -
    have "drop (4 * j) (concat (map f [0..<n])) = concat (map f [j..<n])"
    proof -
      have "concat (map f [0..<n]) = concat (map f [0..<j]) @ concat (map f [j..<n])"
        using upt_add_eq_append [of 0 j "n - j"] that(1) by simp
      moreover have "length (concat (map f [0..<j])) = 4 * j"
        by (induction j) (simp_all add: that(2))
      ultimately show ?thesis by simp
    qed
    also have "\<dots> = f j @ concat (map f [Suc j..<n])" using that(1) by (simp add: upt_conv_Cons)
    finally show ?thesis
      using that(2) [of j] that(3) by (simp add: get_unaligned_le32_def nth_append)
  qed
  have len: "length (concat (map (\<lambda>j. put_unaligned_le32 (m (a + 4 * of_nat j))) [0..<n])) = 4 * n" for m :: "u64 \<Rightarrow> u32" and a n
    by (induction n) (simp_all add: put_unaligned_le32_def)
  show ?thesis
    unfolding block_reads_def
    by (auto simp: mu_memory_def len mutex_ids_distinct intro!: nth)
qed

lemma mu_memory_device: "mu_device mu_memory (\<lambda>s. s)"
  using mu_memory_engine mu_memory_blocks by (simp add: mu_device_def)

text \<open>A checksum for the witnesses, and a table with one entry, for the name \<open>"a"\<close>.\<close>

abbreviation sample_crc :: "u32 \<Rightarrow> u8 list \<Rightarrow> u32" where
  "sample_crc crc bs \<equiv> foldl (\<lambda>c b. 31 * c + ucast b) crc bs"

abbreviation sample_env :: acquire_env where
  "sample_env \<equiv> \<lparr> env_res_alloc = True, env_mutex_alloc = True,
     env_first = \<lparr> at_sleeps = [], at_alloc = True, at_interrupted = False \<rparr>, env_rest = [] \<rparr>"

lemma sample_key: "resource_key sample_crc [0x61] = 0xd211f096"
  by code_simp

abbreviation sample_table :: "u64 \<Rightarrow> u32" where
  "sample_table \<equiv> (\<lambda>_. 0)(0x8100000024 := 0xd211f096, 0x8100000034 := 0x07020100, 0x8100000038 := 0x10, 0x810000003c := 2)"

lemma sample_table_facts:
  "table_free sample_table" "c_str (strscpy_name [0x61]) \<noteq> NFP_RESOURCE_TBL_NAME"
  "table_find sample_table (resource_key sample_crc [0x61]) [0..<NFP_RESOURCE_TBL_ENTRIES] = Some 1"
  "resource_key sample_crc [0x61] \<noteq> NFP_RESOURCE_TBL_KEY"
proof -
  have "[0..<NFP_RESOURCE_TBL_ENTRIES] = 0 # 1 # [2..<128]" by (simp add: upt_conv_Cons numeral_2_eq_2)
  then show "table_find sample_table (resource_key sample_crc [0x61]) [0..<NFP_RESOURCE_TBL_ENTRIES] = Some 1"
    by (simp add: table_find_def sample_key entry_addr_def NFP_RESOURCE_TBL_BASE_def sizeof_entry_def)
qed (simp_all add: table_free_def NFP_RESOURCE_TBL_BASE_def NFP_RESOURCE_TBL_KEY_def nfp_mutex_is_unlocked_def
  c_str_def strscpy_name_def NFP_RESOURCE_ENTRY_NAME_SZ_def NFP_RESOURCE_TBL_NAME_def sample_key)

lemma sample_interface: "NFP_CPP_INTERFACE_TYPE_of 0x1000 \<noteq> NFP_CPP_INTERFACE_TYPE_INVALID"
  by (simp add: NFP_CPP_INTERFACE_TYPE_of_def NFP_CPP_INTERFACE_TYPE_INVALID_def)

lemmas sample_addr = entry_addr_def NFP_RESOURCE_TBL_BASE_def sizeof_entry_def

lemmas sample_lock = nfp_mutex_is_unlocked_def nfp_mutex_is_locked_def nfp_mutex_locked_def nfp_mutex_unlocked_def

theorem resource_acquire_release_witness:
  "\<exists>res s' s''. run mu_memory (nfp_resource_acquire sample_crc sample_env 0x1000 [0x61]) sample_table = Some (Inr res, s') \<and>
    res_cpp_id res = 0x07020100 \<and> res_addr res = 0x1000 \<and> res_size res = 0x200 \<and> s' 0x8100000020 = 0x1000000f \<and>
    run mu_memory (nfp_resource_release 0x1000 res) s' = Some ((), s'') \<and> s'' 0x8100000020 = 0x10000000"
proof -
  have ok: "env_ok sample_env" by (simp add: env_ok_def)
  have u: "nfp_mutex_is_unlocked (sample_table (entry_addr 1))" by (simp add: sample_addr sample_lock)
  obtain res s' s'' where r: "run mu_memory (nfp_resource_acquire sample_crc sample_env 0x1000 [0x61]) sample_table = Some (Inr res, s')"
    "res_cpp_id res = NFP_CPP_ID (drop_bit 24 (sample_table (entry_addr 1 + 20))) (drop_bit 8 (sample_table (entry_addr 1 + 20)))
       (drop_bit 16 (sample_table (entry_addr 1 + 20)))"
    "res_addr res = push_bit 8 (ucast (sample_table (entry_addr 1 + 24)))"
    "res_size res = push_bit 8 (ucast (sample_table (entry_addr 1 + 28)))"
    "s' = sample_table(entry_addr 1 := nfp_mutex_locked 0x1000, NFP_RESOURCE_TBL_BASE := nfp_mutex_unlocked 0x1000)"
    "run mu_memory (nfp_resource_release 0x1000 res) s' = Some ((), s'')"
    "s'' = sample_table(entry_addr 1 := nfp_mutex_unlocked 0x1000, NFP_RESOURCE_TBL_BASE := nfp_mutex_unlocked 0x1000)"
    using resource_acquire_release [where word = "\<lambda>s. s", OF mu_memory_device sample_interface sample_table_facts(2,4) ok sample_table_facts(1,3) u]
    by blast
  have "res_cpp_id res = 0x07020100" "res_addr res = 0x1000" "res_size res = 0x200"
    using r(2-4) by (simp_all add: sample_addr NFP_CPP_ID_def)
  moreover have "s' 0x8100000020 = 0x1000000f" "s'' 0x8100000020 = 0x10000000"
    by (simp_all add: r(5,7) sample_addr sample_lock)
  ultimately show ?thesis using r(1,6) by blast
qed

theorem resource_acquire_fails_witness:
  "\<exists>s'. run mu_memory (nfp_resource_acquire sample_crc sample_env 0x1000 [0x61])
      (sample_table(0x8100000020 := 0x2000000f)) = Some (Inl EBUSY, s')"
proof -
  have "env_ok sample_env" "table_free (sample_table(entry_addr 1 := 0x2000000f))"
    using sample_table_facts(1) by (simp_all add: env_ok_def table_free_def sample_addr)
  moreover have "try_result (sample_table(entry_addr 1 := 0x2000000f)) (resource_key sample_crc [0x61]) = Inl EBUSY"
    using sample_table_facts(3) by (simp add: try_result_def sample_lock del: table_entries)
  ultimately have "\<exists>s'. table_free s' \<and> run mu_memory (nfp_resource_acquire sample_crc sample_env 0x1000 [0x61])
      (sample_table(entry_addr 1 := 0x2000000f)) =
      Some (Inl (if EBUSY = EBUSY \<and> list_ex at_interrupted (env_first sample_env # env_rest sample_env) then ERESTARTSYS else EBUSY), s')"
    by (rule resource_acquire_fails [where word = "\<lambda>s. s", OF mu_memory_device sample_interface sample_table_facts(2,4)])
  then show ?thesis by (auto simp: sample_addr)
qed

theorem resource_acquire_null_witness:
  "run mu_memory (nfp_resource_acquire sample_crc
      (sample_env\<lparr> env_first := \<lparr> at_sleeps = [], at_alloc = False, at_interrupted = False \<rparr> \<rparr>) 0x1000 [0x61])
     sample_table = None"
  by (rule resource_acquire_null [where word = "\<lambda>s. s", OF mu_memory_device sample_interface sample_table_facts(2) _ _ _ sample_table_facts(1,3)]) simp_all

theorem resource_table_init_correct_witness:
  "\<exists>s'. run mu_memory (nfp_resource_table_init True [] 0x1000)
      (sample_table(0x8100000020 := 0x1000000f, 0x8100000040 := 0x2000000f)) = Some (Inr (), s') \<and>
    \<not> owned_by 0x1000 (s' (entry_addr 1)) \<and> s' (entry_addr 2) = 0x2000000f"
proof -
  let ?w = "sample_table(entry_addr 1 := 0x1000000f, entry_addr 2 := 0x2000000f)"
  have w: "?w = sample_table(0x8100000020 := 0x1000000f, 0x8100000040 := 0x2000000f)" by (simp add: sample_addr)
  obtain s' where s': "run mu_memory (nfp_resource_table_init True [] 0x1000) ?w = Some (Inr (), s')"
    "\<forall>i<NFP_RESOURCE_TBL_ENTRIES. \<not> owned_by 0x1000 (s' (entry_addr i)) \<and>
       (0 < i \<and> \<not> owned_by 0x1000 (?w (entry_addr i)) \<longrightarrow> s' (entry_addr i) = ?w (entry_addr i))"
    by (rule exE [OF resource_table_init_correct [where word = "\<lambda>s. s", OF mu_memory_device sample_interface, of ?w "[]"]])
      (simp_all add: sample_addr NFP_RESOURCE_TBL_KEY_def sample_lock)
  have "\<not> owned_by 0x1000 (?w (entry_addr 2))" "?w (entry_addr 2) = 0x2000000f"
    by (simp_all add: owned_by_def nfp_mutex_owner_def)
  with s'(2) [rule_format, of 1] s'(2) [rule_format, of 2] have "\<not> owned_by 0x1000 (s' (entry_addr 1))"
    "s' (entry_addr 2) = 0x2000000f" by (simp_all del: fun_upd_apply)
  with s'(1) show ?thesis unfolding w by blast
qed

end
