(* ===== verification/NFP_Ccm.thy ===== *)
theory NFP_Ccm
  imports NFP_Prelude
begin

text \<open>
  Control messages to the firmware (\<^verbatim>\<open>src/ccm.c\<close>, \<^verbatim>\<open>src/ccm.h\<close>): requests carry a 16-bit tag from
  an allocator that keeps a window of tags in use, and replies wait in a queue until the requester
  takes the one with its tag.  The control lock makes each operation on the state atomic; the
  operations of other requesters and the receive handler run in between as events.
\<close>

section \<open>Messages\<close>

definition NFP_CCM_ABI_VERSION :: u8 where "NFP_CCM_ABI_VERSION = 1"

definition NFP_CCM_TYPE_REPLY_BIT :: nat where "NFP_CCM_TYPE_REPLY_BIT = 7"

datatype nfp_ccm_type =
    NFP_CCM_TYPE_BPF_MAP_ALLOC | NFP_CCM_TYPE_BPF_MAP_FREE | NFP_CCM_TYPE_BPF_MAP_LOOKUP
  | NFP_CCM_TYPE_BPF_MAP_UPDATE | NFP_CCM_TYPE_BPF_MAP_DELETE | NFP_CCM_TYPE_BPF_MAP_GETNEXT
  | NFP_CCM_TYPE_BPF_MAP_GETFIRST | NFP_CCM_TYPE_BPF_BPF_EVENT | NFP_CCM_TYPE_CRYPTO_RESET
  | NFP_CCM_TYPE_CRYPTO_ADD | NFP_CCM_TYPE_CRYPTO_DEL | NFP_CCM_TYPE_CRYPTO_UPDATE
  | NFP_CCM_TYPE_CRYPTO_RESYNC

primrec nfp_ccm_type_val :: "nfp_ccm_type \<Rightarrow> u8" where
  "nfp_ccm_type_val NFP_CCM_TYPE_BPF_MAP_ALLOC = 1"
| "nfp_ccm_type_val NFP_CCM_TYPE_BPF_MAP_FREE = 2"
| "nfp_ccm_type_val NFP_CCM_TYPE_BPF_MAP_LOOKUP = 3"
| "nfp_ccm_type_val NFP_CCM_TYPE_BPF_MAP_UPDATE = 4"
| "nfp_ccm_type_val NFP_CCM_TYPE_BPF_MAP_DELETE = 5"
| "nfp_ccm_type_val NFP_CCM_TYPE_BPF_MAP_GETNEXT = 6"
| "nfp_ccm_type_val NFP_CCM_TYPE_BPF_MAP_GETFIRST = 7"
| "nfp_ccm_type_val NFP_CCM_TYPE_BPF_BPF_EVENT = 8"
| "nfp_ccm_type_val NFP_CCM_TYPE_CRYPTO_RESET = 9"
| "nfp_ccm_type_val NFP_CCM_TYPE_CRYPTO_ADD = 10"
| "nfp_ccm_type_val NFP_CCM_TYPE_CRYPTO_DEL = 11"
| "nfp_ccm_type_val NFP_CCM_TYPE_CRYPTO_UPDATE = 12"
| "nfp_ccm_type_val NFP_CCM_TYPE_CRYPTO_RESYNC = 13"

definition NFP_CCM_REPLY :: "u8 \<Rightarrow> u8" where
  "NFP_CCM_REPLY req = push_bit NFP_CCM_TYPE_REPLY_BIT 1 OR req"

text \<open>A message is its bytes: type, version, the tag in network order, and the payload.\<close>

type_synonym sk_buff = "u8 list"

definition sizeof_ccm_hdr :: nat where "sizeof_ccm_hdr = 4"

definition nfp_ccm_get_type :: "sk_buff \<Rightarrow> u8" where
  "nfp_ccm_get_type skb = skb ! 0"

definition nfp_ccm_get_tag :: "sk_buff \<Rightarrow> u16" where
  "nfp_ccm_get_tag skb = push_bit 8 (ucast (skb ! 2)) OR ucast (skb ! 3)"

definition ccm_set_hdr :: "sk_buff \<Rightarrow> nfp_ccm_type \<Rightarrow> u16 \<Rightarrow> sk_buff" where
  "ccm_set_hdr skb type tag =
     skb[0 := nfp_ccm_type_val type, 1 := NFP_CCM_ABI_VERSION, 2 := ucast (drop_bit 8 tag), 3 := ucast tag]"

section \<open>Tags\<close>

definition NFP_CCM_TAG_ALLOC_SPAN :: u16 where "NFP_CCM_TAG_ALLOC_SPAN = 0xffff div 4"

text \<open>\<open>ccm_warned\<close> records that a \<open>WARN_ON\<close> of the code has fired.\<close>

record nfp_ccm =
  tag_allocator :: "u16 \<Rightarrow> bool"
  tag_alloc_next :: u16
  tag_alloc_last :: u16
  ccm_replies :: "sk_buff list"
  ccm_warned :: bool

definition nfp_ccm_init :: nfp_ccm where
  "nfp_ccm_init = \<lparr> tag_allocator = (\<lambda>_. False), tag_alloc_next = 0, tag_alloc_last = 0, ccm_replies = [],
                    ccm_warned = False \<rparr>"

definition nfp_ccm_all_tags_busy :: "nfp_ccm \<Rightarrow> bool" where
  "nfp_ccm_all_tags_busy ccm \<longleftrightarrow> tag_alloc_next ccm - tag_alloc_last ccm > NFP_CCM_TAG_ALLOC_SPAN"

definition nfp_ccm_alloc_tag :: "nfp_ccm \<Rightarrow> u16 result \<times> nfp_ccm" where
  "nfp_ccm_alloc_tag ccm =
     (if nfp_ccm_all_tags_busy ccm then (Inl EAGAIN, ccm)
      else
        (Inr (tag_alloc_next ccm),
         ccm\<lparr> ccm_warned := ccm_warned ccm \<or> tag_allocator ccm (tag_alloc_next ccm),
              tag_allocator := (tag_allocator ccm)(tag_alloc_next ccm := True),
              tag_alloc_next := tag_alloc_next ccm + 1 \<rparr>))"

lemma unat_pred: "(x :: u16) \<noteq> 0 \<Longrightarrow> unat (x - 1) = unat x - 1"
  by (rule unat_minus_one)

lemma window_shift: "(x :: u16) \<noteq> l \<Longrightarrow> unat (x - (l + 1)) = unat (x - l) - 1 \<and> 0 < unat (x - l)"
proof -
  assume "x \<noteq> l"
  then have n0: "x - l \<noteq> 0" by simp
  with unat_pred [OF n0] show ?thesis by (simp add: unat_gt_0 diff_diff_eq)
qed

text \<open>The loop that moves \<open>tag_alloc_last\<close> past the free tags.\<close>

function advance_last :: "(u16 \<Rightarrow> bool) \<Rightarrow> u16 \<Rightarrow> u16 \<Rightarrow> u16" where
  "advance_last bits nxt lst =
     (if \<not> bits lst \<and> lst \<noteq> nxt then advance_last bits nxt (lst + 1) else lst)"
  by pat_completeness auto

termination
  by (relation "measure (\<lambda>(bits, nxt, lst). unat (nxt - lst))") (auto dest: window_shift [THEN conjunct2] simp: window_shift)

declare advance_last.simps [simp del]

definition nfp_ccm_free_tag :: "nfp_ccm \<Rightarrow> u16 \<Rightarrow> nfp_ccm" where
  "nfp_ccm_free_tag ccm tag =
     (let bits = (tag_allocator ccm)(tag := False) in
      ccm\<lparr> ccm_warned := ccm_warned ccm \<or> \<not> tag_allocator ccm tag,
           tag_allocator := bits,
           tag_alloc_last := advance_last bits (tag_alloc_next ccm) (tag_alloc_last ccm) \<rparr>)"

section \<open>Replies\<close>

definition nfp_ccm_reply :: "nfp_ccm \<Rightarrow> u16 \<Rightarrow> sk_buff option \<times> nfp_ccm" where
  "nfp_ccm_reply ccm tag =
     (case List.extract (\<lambda>skb. nfp_ccm_get_tag skb = tag) (ccm_replies ccm) of
        None \<Rightarrow> (None, ccm)
      | Some (xs, skb, ys) \<Rightarrow> (Some skb, (nfp_ccm_free_tag ccm tag)\<lparr> ccm_replies := xs @ ys \<rparr>))"

definition nfp_ccm_reply_drop_tag :: "nfp_ccm \<Rightarrow> u16 \<Rightarrow> sk_buff option \<times> nfp_ccm" where
  "nfp_ccm_reply_drop_tag ccm tag =
     (case nfp_ccm_reply ccm tag of
        (None, ccm) \<Rightarrow> (None, nfp_ccm_free_tag ccm tag)
      | (Some skb, ccm) \<Rightarrow> (Some skb, ccm))"

definition nfp_ccm_rx :: "nfp_ccm \<Rightarrow> sk_buff \<Rightarrow> nfp_ccm" where
  "nfp_ccm_rx ccm skb =
     (if length skb < sizeof_ccm_hdr then ccm
      else if \<not> tag_allocator ccm (nfp_ccm_get_tag skb) then ccm
      else ccm\<lparr> ccm_replies := ccm_replies ccm @ [skb] \<rparr>)"

text \<open>What happens between two operations of a requester: a message arrives, or another requester
  allocates a tag, looks for its reply or gives up.\<close>

datatype ccm_event = Rx sk_buff | Other_alloc | Other_reply u16 | Other_drop u16

primrec ccm_do :: "ccm_event \<Rightarrow> nfp_ccm \<Rightarrow> nfp_ccm" where
  "ccm_do (Rx skb) ccm = nfp_ccm_rx ccm skb"
| "ccm_do Other_alloc ccm = snd (nfp_ccm_alloc_tag ccm)"
| "ccm_do (Other_reply tag) ccm = snd (nfp_ccm_reply ccm tag)"
| "ccm_do (Other_drop tag) ccm = snd (nfp_ccm_reply_drop_tag ccm tag)"

text \<open>Polls for the reply, each after the events that came before it.\<close>

primrec poll_replies :: "nfp_ccm \<Rightarrow> u16 \<Rightarrow> ccm_event list list \<Rightarrow> sk_buff option \<times> nfp_ccm" where
  "poll_replies ccm tag [] = (None, ccm)"
| "poll_replies ccm tag (evs # rest) =
     (case nfp_ccm_reply (fold ccm_do evs ccm) tag of
        (Some skb, ccm) \<Rightarrow> (Some skb, ccm)
      | (None, ccm) \<Rightarrow> poll_replies ccm tag rest)"

text \<open>What a wait meets: the events before each of the fifty polls, before each wake-up until the
  time-out, and before the last attempt; and whether a signal ended the wait.\<close>

record ccm_wait =
  wait_polls :: "ccm_event list list"
  wait_wakeups :: "ccm_event list list"
  wait_late :: "ccm_event list"
  wait_signal :: bool

text \<open>The third component is a message that was taken from the queue and is neither returned nor
  freed.\<close>

definition nfp_ccm_wait_reply :: "nfp_ccm \<Rightarrow> u16 \<Rightarrow> ccm_wait \<Rightarrow> sk_buff result \<times> nfp_ccm \<times> sk_buff option" where
  "nfp_ccm_wait_reply ccm tag w =
     (case poll_replies ccm tag (take 50 (wait_polls w)) of
        (Some skb, ccm) \<Rightarrow> (Inr skb, ccm, None)
      | (None, ccm) \<Rightarrow>
          (case poll_replies ccm tag (wait_wakeups w) of
             (Some skb, ccm) \<Rightarrow> (Inr skb, ccm, None)
           | (None, ccm) \<Rightarrow>
               (case nfp_ccm_reply_drop_tag (fold ccm_do (wait_late w) ccm) tag of
                  (skb, ccm) \<Rightarrow>
                    if wait_signal w then (Inl ERESTARTSYS, ccm, skb)
                    else
                      case skb of
                        None \<Rightarrow> (Inl ETIMEDOUT, ccm, None)
                      | Some skb \<Rightarrow> (Inr skb, ccm, None))))"

text \<open>The request that is sent is the fourth component; \<open>None\<close> if none is.\<close>

definition nfp_ccm_communicate ::
  "nfp_ccm \<Rightarrow> sk_buff \<Rightarrow> nfp_ccm_type \<Rightarrow> nat \<Rightarrow> ccm_wait \<Rightarrow> sk_buff result \<times> nfp_ccm \<times> sk_buff option \<times> sk_buff option" where
  "nfp_ccm_communicate ccm skb type reply_size w =
     (case nfp_ccm_alloc_tag ccm of
        (Inl err, ccm) \<Rightarrow> (Inl err, ccm, None, None)
      | (Inr tag, ccm) \<Rightarrow>
          let req = ccm_set_hdr skb type tag in
          case nfp_ccm_wait_reply ccm tag w of
            (Inl err, ccm, leaked) \<Rightarrow> (Inl err, ccm, leaked, Some req)
          | (Inr skb, ccm, leaked) \<Rightarrow>
              if nfp_ccm_get_type skb \<noteq> NFP_CCM_REPLY (nfp_ccm_type_val type) then (Inl EIO, ccm, leaked, Some req)
              else if reply_size \<noteq> 0 \<and> length skb \<noteq> reply_size then (Inl EIO, ccm, leaked, Some req)
              else (Inr skb, ccm, leaked, Some req))"

section \<open>Invariant\<close>

text \<open>The tags in use lie between the oldest one and the next to allocate, a window of at most a quarter
  of the tag space; the queued replies have a header and different tags, all in use; no \<open>WARN_ON\<close> has fired.\<close>

definition tag_window :: "nfp_ccm \<Rightarrow> nat" where
  "tag_window ccm = unat (tag_alloc_next ccm - tag_alloc_last ccm)"

definition ccm_inv :: "nfp_ccm \<Rightarrow> bool" where
  "ccm_inv ccm \<longleftrightarrow>
     (\<forall>t. tag_allocator ccm t \<longrightarrow> unat (t - tag_alloc_last ccm) < tag_window ccm) \<and>
     (tag_alloc_last ccm \<noteq> tag_alloc_next ccm \<longrightarrow> tag_allocator ccm (tag_alloc_last ccm)) \<and>
     tag_window ccm \<le> unat NFP_CCM_TAG_ALLOC_SPAN + 1 \<and>
     distinct (map nfp_ccm_get_tag (ccm_replies ccm)) \<and>
     (\<forall>skb\<in>set (ccm_replies ccm). tag_allocator ccm (nfp_ccm_get_tag skb) \<and> sizeof_ccm_hdr \<le> length skb) \<and>
     \<not> ccm_warned ccm"

text \<open>What the environment keeps to: the firmware answers a request once, and a requester looks for or
  drops only a tag it has.\<close>

primrec event_ok :: "ccm_event \<Rightarrow> nfp_ccm \<Rightarrow> bool" where
  "event_ok (Rx skb) ccm \<longleftrightarrow> nfp_ccm_get_tag skb \<notin> nfp_ccm_get_tag ` set (ccm_replies ccm)"
| "event_ok Other_alloc ccm \<longleftrightarrow> True"
| "event_ok (Other_reply tag) ccm \<longleftrightarrow> tag_allocator ccm tag"
| "event_ok (Other_drop tag) ccm \<longleftrightarrow> tag_allocator ccm tag"

inductive ccm_reach :: "nfp_ccm \<Rightarrow> bool" where
  reach_init: "ccm_reach nfp_ccm_init"
| reach_event: "ccm_reach ccm \<Longrightarrow> event_ok e ccm \<Longrightarrow> ccm_reach (ccm_do e ccm)"

section \<open>Lemmas\<close>

lemma advance_last_window:
  assumes "\<forall>t. bits t \<longrightarrow> unat (t - lst) < unat (nxt - lst)"
  shows "(\<forall>t. bits t \<longrightarrow> unat (t - advance_last bits nxt lst) < unat (nxt - advance_last bits nxt lst)) \<and>
    (advance_last bits nxt lst \<noteq> nxt \<longrightarrow> bits (advance_last bits nxt lst)) \<and>
    unat (nxt - advance_last bits nxt lst) \<le> unat (nxt - lst)"
  using assms
proof (induction bits nxt lst rule: advance_last.induct)
  case (1 bits nxt lst)
  show ?case
  proof (cases "\<not> bits lst \<and> lst \<noteq> nxt")
    case True
    have s: "unat (nxt - (lst + 1)) = unat (nxt - lst) - 1" using window_shift [of nxt lst] True by auto
    have w: "unat (t - (lst + 1)) < unat (nxt - (lst + 1))" if "bits t" for t
      using window_shift [of t lst] True that 1(2) s by (cases "t = lst") fastforce+
    then show ?thesis using 1(1) [OF True] True s by (auto simp: advance_last.simps [of bits nxt lst])
  next
    case False
    then show ?thesis using 1(2) by (auto simp: advance_last.simps [of bits nxt lst])
  qed
qed

lemmas ccm_defs = nfp_ccm_rx_def nfp_ccm_alloc_tag_def nfp_ccm_free_tag_def nfp_ccm_reply_drop_tag_def nfp_ccm_reply_def

lemma alloc_fresh:
  assumes "ccm_inv ccm"
  shows "\<not> tag_allocator ccm (tag_alloc_next ccm)"
  using assms by (auto simp: ccm_inv_def tag_window_def)

lemma alloc_inv: "ccm_inv ccm \<Longrightarrow> ccm_inv (snd (nfp_ccm_alloc_tag ccm))"
proof -
  assume I: "ccm_inv ccm"
  show ?thesis
  proof (cases "nfp_ccm_all_tags_busy ccm")
    case False
    let ?n = "tag_alloc_next ccm" and ?l = "tag_alloc_last ccm"
    have le: "unat (?n - ?l) \<le> 16383"
      using False by (simp add: nfp_ccm_all_tags_busy_def NFP_CCM_TAG_ALLOC_SPAN_def word_less_nat_alt not_less)
    have w: "unat (?n + 1 - ?l) = unat (?n - ?l) + 1"
      unfolding diff_add_eq [symmetric] using le by (subst unat_word_ariths) simp
    have fresh: "\<not> tag_allocator ccm ?n" by (rule alloc_fresh [OF I])
    have ends: "?l \<noteq> ?n \<longrightarrow> tag_allocator ccm ?l" using I by (simp add: ccm_inv_def)
    show ?thesis
      using I False w le fresh ends
      by (auto simp: ccm_inv_def nfp_ccm_alloc_tag_def tag_window_def NFP_CCM_TAG_ALLOC_SPAN_def less_Suc_eq)
  qed (simp add: nfp_ccm_alloc_tag_def I)
qed

text \<open>Freeing a tag no queued reply has.\<close>

lemma free_inv:
  assumes "ccm_inv ccm" "tag_allocator ccm tag" "tag \<notin> nfp_ccm_get_tag ` set (ccm_replies ccm)"
  shows "ccm_inv (nfp_ccm_free_tag ccm tag)"
proof -
  let ?bits = "(tag_allocator ccm)(tag := False)"
  have "\<forall>t. ?bits t \<longrightarrow> unat (t - tag_alloc_last ccm) < unat (tag_alloc_next ccm - tag_alloc_last ccm)"
    using assms(1) by (simp add: ccm_inv_def tag_window_def)
  note adv = advance_last_window [OF this]
  show ?thesis
    using adv assms unfolding ccm_inv_def nfp_ccm_free_tag_def Let_def tag_window_def
    by (auto simp del: fun_upd_apply) (auto split: if_splits)
qed

lemma reply_spec:
  assumes "ccm_inv ccm" "nfp_ccm_reply ccm tag = (r, ccm')"
  shows "ccm_inv ccm'"
    and "r = None \<Longrightarrow> ccm' = ccm \<and> tag \<notin> nfp_ccm_get_tag ` set (ccm_replies ccm)"
    and "r = Some skb \<Longrightarrow> skb \<in> set (ccm_replies ccm) \<and> nfp_ccm_get_tag skb = tag \<and> sizeof_ccm_hdr \<le> length skb \<and>
      tag_allocator ccm' = (tag_allocator ccm)(tag := False) \<and> tag \<notin> nfp_ccm_get_tag ` set (ccm_replies ccm') \<and>
      tag_alloc_next ccm' = tag_alloc_next ccm"
proof -
  have "ccm_inv ccm' \<and> (r = None \<longrightarrow> ccm' = ccm \<and> tag \<notin> nfp_ccm_get_tag ` set (ccm_replies ccm)) \<and>
    (\<forall>skb. r = Some skb \<longrightarrow> skb \<in> set (ccm_replies ccm) \<and> nfp_ccm_get_tag skb = tag \<and> sizeof_ccm_hdr \<le> length skb \<and>
      tag_allocator ccm' = (tag_allocator ccm)(tag := False) \<and> tag \<notin> nfp_ccm_get_tag ` set (ccm_replies ccm') \<and>
      tag_alloc_next ccm' = tag_alloc_next ccm)"
  proof (cases "List.extract (\<lambda>skb. nfp_ccm_get_tag skb = tag) (ccm_replies ccm)")
    case None
    with assms show ?thesis by (auto simp: nfp_ccm_reply_def extract_None_iff)
  next
    case (Some e)
    then obtain xs y ys where e: "List.extract (\<lambda>skb. nfp_ccm_get_tag skb = tag) (ccm_replies ccm) = Some (xs, y, ys)"
      by (cases e) auto
    then have q: "ccm_replies ccm = xs @ y # ys" "nfp_ccm_get_tag y = tag" by (simp_all add: extract_Some_iff)
    let ?c = "ccm\<lparr> ccm_replies := xs @ ys \<rparr>"
    have "ccm_inv ?c" "tag_allocator ?c tag" "tag \<notin> nfp_ccm_get_tag ` set (ccm_replies ?c)"
      using assms(1) q by (auto simp: ccm_inv_def tag_window_def)
    note free_inv [OF this]
    moreover have c': "ccm' = nfp_ccm_free_tag ?c tag" "r = Some y"
      using assms(2) e by (cases ccm, simp_all add: nfp_ccm_reply_def nfp_ccm_free_tag_def Let_def)
    moreover have "sizeof_ccm_hdr \<le> length y" "tag \<notin> nfp_ccm_get_tag ` set (xs @ ys)"
      using assms(1) q by (auto simp: ccm_inv_def)
    ultimately show ?thesis using q by (auto simp: nfp_ccm_free_tag_def Let_def)
  qed
  then show "ccm_inv ccm'"
    and "r = None \<Longrightarrow> ccm' = ccm \<and> tag \<notin> nfp_ccm_get_tag ` set (ccm_replies ccm)"
    and "r = Some skb \<Longrightarrow> skb \<in> set (ccm_replies ccm) \<and> nfp_ccm_get_tag skb = tag \<and> sizeof_ccm_hdr \<le> length skb \<and>
      tag_allocator ccm' = (tag_allocator ccm)(tag := False) \<and> tag \<notin> nfp_ccm_get_tag ` set (ccm_replies ccm') \<and>
      tag_alloc_next ccm' = tag_alloc_next ccm"
    by auto
qed

lemma drop_spec:
  assumes "ccm_inv ccm" "tag_allocator ccm tag" "nfp_ccm_reply_drop_tag ccm tag = (r, ccm')"
  shows "ccm_inv ccm'" "tag_allocator ccm' = (tag_allocator ccm)(tag := False)" "tag_alloc_next ccm' = tag_alloc_next ccm"
    and "r = Some skb \<Longrightarrow> nfp_ccm_get_tag skb = tag \<and> sizeof_ccm_hdr \<le> length skb"
proof -
  obtain r1 c1 where r1: "nfp_ccm_reply ccm tag = (r1, c1)" by (cases "nfp_ccm_reply ccm tag")
  have "ccm_inv ccm' \<and> tag_allocator ccm' = (tag_allocator ccm)(tag := False) \<and> tag_alloc_next ccm' = tag_alloc_next ccm \<and>
    (\<forall>skb. r = Some skb \<longrightarrow> nfp_ccm_get_tag skb = tag \<and> sizeof_ccm_hdr \<le> length skb)"
  proof (cases r1)
    case None
    with reply_spec(2) [OF assms(1) r1] have c: "c1 = ccm" "tag \<notin> nfp_ccm_get_tag ` set (ccm_replies ccm)" by auto
    with None r1 assms(3) have "r = None" "ccm' = nfp_ccm_free_tag ccm tag" by (auto simp: nfp_ccm_reply_drop_tag_def)
    with free_inv [OF assms(1,2) c(2)] show ?thesis by (auto simp: nfp_ccm_free_tag_def Let_def)
  next
    case (Some skb)
    with r1 assms(3) have "r = Some skb" "ccm' = c1" by (auto simp: nfp_ccm_reply_drop_tag_def)
    with reply_spec(1,3) [OF assms(1) r1] Some show ?thesis by auto
  qed
  then show "ccm_inv ccm'" "tag_allocator ccm' = (tag_allocator ccm)(tag := False)" "tag_alloc_next ccm' = tag_alloc_next ccm"
    and "r = Some skb \<Longrightarrow> nfp_ccm_get_tag skb = tag \<and> sizeof_ccm_hdr \<le> length skb" by auto
qed

lemma event_inv:
  assumes "ccm_inv ccm" "event_ok e ccm"
  shows "ccm_inv (ccm_do e ccm)"
proof (cases e)
  case (Rx skb)
  then show ?thesis using assms by (auto simp: nfp_ccm_rx_def ccm_inv_def tag_window_def)
next
  case Other_alloc
  then show ?thesis using alloc_inv [OF assms(1)] by simp
next
  case (Other_reply tag)
  then show ?thesis using reply_spec(1) [OF assms(1)] by (cases "nfp_ccm_reply ccm tag") auto
next
  case (Other_drop tag)
  then show ?thesis using drop_spec(1) [OF assms(1)] assms(2) by (cases "nfp_ccm_reply_drop_tag ccm tag") auto
qed

lemma init_inv: "ccm_inv nfp_ccm_init"
  by (simp add: ccm_inv_def nfp_ccm_init_def tag_window_def)

lemma reach_inv: "ccm_reach ccm \<Longrightarrow> ccm_inv ccm"
  by (induction rule: ccm_reach.induct) (auto intro: init_inv event_inv)

section \<open>Allocation of tags\<close>

lemma used_tags_card:
  assumes "ccm_inv ccm"
  shows "card {t. tag_allocator ccm t} \<le> tag_window ccm"
proof -
  let ?f = "\<lambda>t. unat (t - tag_alloc_last ccm)"
  have "inj_on ?f {t. tag_allocator ccm t}" by (rule inj_onI) (simp flip: word_unat_eq_iff)
  moreover have "?f ` {t. tag_allocator ccm t} \<subseteq> {..<tag_window ccm}" using assms by (auto simp: ccm_inv_def)
  ultimately show ?thesis using card_inj_on_le [of ?f "{t. tag_allocator ccm t}" "{..<tag_window ccm}"] by simp
qed


lemma free_tag_next [simp]: "tag_alloc_next (nfp_ccm_free_tag ccm tag) = tag_alloc_next ccm"
  by (simp add: nfp_ccm_free_tag_def Let_def)

lemma reply_next [simp]: "tag_alloc_next (snd (nfp_ccm_reply ccm tag)) = tag_alloc_next ccm"
  by (auto simp: nfp_ccm_reply_def split: option.splits)

lemma drop_next [simp]: "tag_alloc_next (snd (nfp_ccm_reply_drop_tag ccm tag)) = tag_alloc_next ccm"
  by (cases "nfp_ccm_reply ccm tag") (use reply_next [of ccm tag] in \<open>auto simp: nfp_ccm_reply_drop_tag_def split: option.splits\<close>)

lemma events_next:
  "\<exists>k\<le>count_list evs Other_alloc. tag_alloc_next (fold ccm_do evs ccm) = tag_alloc_next ccm + of_nat k"
proof (induction evs arbitrary: ccm)
  case (Cons e evs)
  obtain k where k: "k \<le> count_list evs Other_alloc"
    "tag_alloc_next (fold ccm_do evs (ccm_do e ccm)) = tag_alloc_next (ccm_do e ccm) + of_nat k"
    using Cons.IH by blast
  show ?case
  proof (cases "e = Other_alloc \<and> \<not> nfp_ccm_all_tags_busy ccm")
    case True
    with k show ?thesis by (intro exI [of _ "Suc k"]) (simp add: nfp_ccm_alloc_tag_def ac_simps)
  next
    case False
    then have "tag_alloc_next (ccm_do e ccm) = tag_alloc_next ccm"
      by (cases e) (auto simp: nfp_ccm_rx_def nfp_ccm_alloc_tag_def)
    with k show ?thesis by (intro exI [of _ k]) (cases "e = Other_alloc", simp_all)
  qed
qed simp

lemma used_tag_distance:
  assumes "ccm_inv ccm" "tag_allocator ccm tag"
  shows "0 < unat (tag_alloc_next ccm - tag)" "unat (tag_alloc_next ccm - tag) \<le> 16384"
proof -
  let ?n = "tag_alloc_next ccm" and ?l = "tag_alloc_last ccm"
  have lt: "unat (tag - ?l) < unat (?n - ?l)" and le: "unat (?n - ?l) \<le> 16384"
    using assms by (auto simp: ccm_inv_def tag_window_def NFP_CCM_TAG_ALLOC_SPAN_def)
  have "?n - tag = (?n - ?l) - (tag - ?l)" by simp
  moreover have "unat ((?n - ?l) - (tag - ?l)) = unat (?n - ?l) - unat (tag - ?l)"
    using lt by (intro unat_sub) (simp add: word_le_nat_alt)
  ultimately show "0 < unat (?n - tag)" "unat (?n - tag) \<le> 16384" using lt le by auto
qed

lemma tag_sum_zero: "(d :: u16) + of_nat k = 0 \<Longrightarrow> (unat d + k) mod 65536 = 0"
proof -
  assume "d + of_nat k = 0"
  then have "unat (d + of_nat k) = 0" by simp
  then show ?thesis by (simp add: unat_word_ariths unat_of_nat mod_add_right_eq)
qed

text \<open>A tag that has been in use is not handed out again before 49152 further allocations, whatever
  happens in between: a late reply to an abandoned request cannot be taken for the reply to one of the
  next 49151 requests.\<close>

theorem ccm_tag_reuse:
  assumes "ccm_reach ccm" "tag_allocator ccm tag" "fst (nfp_ccm_alloc_tag (fold ccm_do evs ccm)) = Inr tag"
  shows "49152 \<le> count_list evs Other_alloc"
proof -
  obtain k where k: "k \<le> count_list evs Other_alloc"
    "tag_alloc_next (fold ccm_do evs ccm) = tag_alloc_next ccm + of_nat k"
    using events_next by blast
  let ?d = "tag_alloc_next ccm - tag"
  have "tag_alloc_next ccm + of_nat k = tag"
    using assms(3) k(2) by (auto simp: nfp_ccm_alloc_tag_def split: if_splits)
  then have "?d + of_nat k = 0" by (simp add: algebra_simps)
  then have "(unat ?d + k) mod 65536 = 0" by (rule tag_sum_zero)
  moreover have "(unat ?d + k) mod 65536 = unat ?d + k" if "k < 49152"
    using that used_tag_distance(2) [OF reach_inv [OF assms(1)] assms(2)] by (intro mod_less) linarith
  ultimately show ?thesis
    using used_tag_distance(1) [OF reach_inv [OF assms(1)] assms(2)] k(1) by (cases "k < 49152") auto
qed

section \<open>A request and its reply\<close>

text \<open>The events during a wait: each fits the state it meets, and none takes or drops the waiting
  requester's tag.\<close>

definition foreign :: "u16 \<Rightarrow> ccm_event \<Rightarrow> bool" where
  "foreign tag e \<longleftrightarrow> e \<noteq> Other_reply tag \<and> e \<noteq> Other_drop tag"

primrec events_ok :: "u16 \<Rightarrow> ccm_event list \<Rightarrow> nfp_ccm \<Rightarrow> bool" where
  "events_ok tag [] ccm \<longleftrightarrow> True"
| "events_ok tag (e # evs) ccm \<longleftrightarrow> event_ok e ccm \<and> foreign tag e \<and> events_ok tag evs (ccm_do e ccm)"

primrec polls_ok :: "u16 \<Rightarrow> ccm_event list list \<Rightarrow> nfp_ccm \<Rightarrow> bool" where
  "polls_ok tag [] ccm \<longleftrightarrow> True"
| "polls_ok tag (evs # rest) ccm \<longleftrightarrow>
     events_ok tag evs ccm \<and>
     (case nfp_ccm_reply (fold ccm_do evs ccm) tag of (Some _, _) \<Rightarrow> True | (None, ccm') \<Rightarrow> polls_ok tag rest ccm')"

definition wait_ok :: "u16 \<Rightarrow> ccm_wait \<Rightarrow> nfp_ccm \<Rightarrow> bool" where
  "wait_ok tag w ccm \<longleftrightarrow>
     polls_ok tag (take 50 (wait_polls w)) ccm \<and>
     (case poll_replies ccm tag (take 50 (wait_polls w)) of
        (Some _, _) \<Rightarrow> True
      | (None, ccm) \<Rightarrow>
          polls_ok tag (wait_wakeups w) ccm \<and>
          (case poll_replies ccm tag (wait_wakeups w) of
             (Some _, _) \<Rightarrow> True
           | (None, ccm) \<Rightarrow> events_ok tag (wait_late w) ccm))"

lemma event_keeps_tag:
  assumes "ccm_inv ccm" "event_ok e ccm" "foreign tag e" "tag_allocator ccm tag"
  shows "tag_allocator (ccm_do e ccm) tag"
proof (cases e)
  case (Other_reply t)
  obtain r c where r: "nfp_ccm_reply ccm t = (r, c)" by (cases "nfp_ccm_reply ccm t")
  with reply_spec(2,3) [OF assms(1) r] assms(3,4) Other_reply show ?thesis by (cases r) (auto simp: foreign_def)
next
  case (Other_drop t)
  obtain r c where r: "nfp_ccm_reply_drop_tag ccm t = (r, c)" by (cases "nfp_ccm_reply_drop_tag ccm t")
  with drop_spec(2) [OF assms(1) _ r] assms(2-4) Other_drop show ?thesis by (auto simp: foreign_def)
qed (use assms(4) in \<open>auto simp: nfp_ccm_rx_def nfp_ccm_alloc_tag_def\<close>)

lemma events_keep:
  "ccm_inv ccm \<Longrightarrow> tag_allocator ccm tag \<Longrightarrow> events_ok tag evs ccm \<Longrightarrow>
   ccm_inv (fold ccm_do evs ccm) \<and> tag_allocator (fold ccm_do evs ccm) tag"
  by (induction evs arbitrary: ccm) (auto simp: event_inv event_keeps_tag)

text \<open>A wait that has its reply has freed the tag; one that has none still owns it.\<close>

lemma polls_spec:
  "ccm_inv ccm \<Longrightarrow> tag_allocator ccm tag \<Longrightarrow> polls_ok tag evss ccm \<Longrightarrow> poll_replies ccm tag evss = (r, ccm') \<Longrightarrow>
   ccm_inv ccm' \<and> (tag_allocator ccm' tag \<longleftrightarrow> r = None) \<and>
   (\<forall>skb. r = Some skb \<longrightarrow> nfp_ccm_get_tag skb = tag \<and> sizeof_ccm_hdr \<le> length skb)"
proof (induction evss arbitrary: ccm)
  case (Cons evs evss)
  let ?c = "fold ccm_do evs ccm"
  have c: "ccm_inv ?c" "tag_allocator ?c tag" using events_keep [OF Cons.prems(1,2)] Cons.prems(3) by auto
  obtain r1 c1 where r1: "nfp_ccm_reply ?c tag = (r1, c1)" by (cases "nfp_ccm_reply ?c tag")
  show ?case
  proof (cases r1)
    case None
    with reply_spec(2) [OF c(1) r1] have "c1 = ?c" by simp
    with Cons.IH [OF c] Cons.prems(3,4) r1 None show ?thesis by simp
  next
    case (Some skb)
    with reply_spec(1,3) [OF c(1) r1] Cons.prems(4) r1 show ?thesis by auto
  qed
qed auto

lemma wait_reply_spec:
  assumes "ccm_inv ccm" "tag_allocator ccm tag" "wait_ok tag w ccm" "nfp_ccm_wait_reply ccm tag w = (r, ccm', leaked)"
  shows "ccm_inv ccm' \<and> \<not> tag_allocator ccm' tag \<and>
    (case r of Inr skb \<Rightarrow> nfp_ccm_get_tag skb = tag \<and> sizeof_ccm_hdr \<le> length skb \<and> leaked = None
     | Inl err \<Rightarrow> err = (if wait_signal w then ERESTARTSYS else ETIMEDOUT) \<and> (leaked \<noteq> None \<longrightarrow> wait_signal w))"
proof -
  obtain r1 c1 where r1: "poll_replies ccm tag (take 50 (wait_polls w)) = (r1, c1)" by (meson surj_pair)
  obtain r2 c2 where r2: "poll_replies c1 tag (wait_wakeups w) = (r2, c2)" by (meson surj_pair)
  let ?c = "fold ccm_do (wait_late w) c2"
  obtain r3 c3 where r3: "nfp_ccm_reply_drop_tag ?c tag = (r3, c3)" by (meson surj_pair)
  have p1: "polls_ok tag (take 50 (wait_polls w)) ccm" using assms(3) by (simp add: wait_ok_def)
  note s1 = polls_spec [OF assms(1,2) p1 r1]
  show ?thesis
  proof (cases r1)
    case (Some skb)
    with s1 r1 assms(4) show ?thesis by (auto simp: nfp_ccm_wait_reply_def)
  next
    case None
    have p2: "polls_ok tag (wait_wakeups w) c1" using assms(3) r1 None by (simp add: wait_ok_def)
    note s2 = polls_spec [OF _ _ p2 r2]
    show ?thesis
    proof (cases r2)
      case (Some skb)
      with s1 s2 None r1 r2 assms(4) show ?thesis by (auto simp: nfp_ccm_wait_reply_def)
    next
      case None2: None
      have "events_ok tag (wait_late w) c2" using assms(3) r1 r2 None None2 by (simp add: wait_ok_def)
      with events_keep s1 s2 None None2 have c: "ccm_inv ?c" "tag_allocator ?c tag" by auto
      from drop_spec [OF c r3] r1 r2 r3 None None2 assms(4) show ?thesis
        by (auto simp: nfp_ccm_wait_reply_def split: if_splits option.splits)
    qed
  qed
qed

lemma set_hdr_tag: "4 \<le> length skb \<Longrightarrow> nfp_ccm_get_tag (ccm_set_hdr skb type tag) = tag"
  unfolding nfp_ccm_get_tag_def ccm_set_hdr_def
  by (simp add: nth_list_update) (rule bit_word_eqI, auto simp: bit_simps)

text \<open>C15. A request that is sent carries a tag of its own; when the call returns, the tag is free again,
  whether a reply, a time-out or a signal ended it, and the reply it returns has the tag of the request,
  the matching type and the expected size.\<close>

theorem ccm_communicate_correct:
  assumes "ccm_reach ccm" "sizeof_ccm_hdr \<le> length skb" "\<not> nfp_ccm_all_tags_busy ccm"
    and "wait_ok (tag_alloc_next ccm) w (snd (nfp_ccm_alloc_tag ccm))"
    and "nfp_ccm_communicate ccm skb type reply_size w = (r, ccm', leaked, sent)"
  shows "\<exists>req. sent = Some req \<and> length req = length skb \<and> nfp_ccm_get_type req = nfp_ccm_type_val type \<and>
    \<not> tag_allocator ccm (nfp_ccm_get_tag req) \<and> \<not> tag_allocator ccm' (nfp_ccm_get_tag req) \<and> ccm_inv ccm' \<and>
    (case r of
       Inr reply \<Rightarrow> nfp_ccm_get_tag reply = nfp_ccm_get_tag req \<and>
         nfp_ccm_get_type reply = NFP_CCM_REPLY (nfp_ccm_type_val type) \<and>
         (reply_size = 0 \<or> length reply = reply_size) \<and> leaked = None
     | Inl err \<Rightarrow> err \<in> {EIO, ETIMEDOUT, ERESTARTSYS})"
proof -
  let ?tag = "tag_alloc_next ccm"
  let ?req = "ccm_set_hdr skb type ?tag"
  have I: "ccm_inv ccm" by (rule reach_inv [OF assms(1)])
  obtain c where a: "nfp_ccm_alloc_tag ccm = (Inr ?tag, c)" "tag_allocator c ?tag"
    using assms(3) by (simp add: nfp_ccm_alloc_tag_def)
  have c: "ccm_inv c" "wait_ok ?tag w c" using alloc_inv [OF I] assms(4) a(1) by simp_all
  obtain r1 c1 l1 where w: "nfp_ccm_wait_reply c ?tag w = (r1, c1, l1)" by (metis prod_cases3)
  note spec = wait_reply_spec [OF c(1) a(2) c(2) w]
  have sent: "sent = Some ?req" "ccm' = c1"
    using assms(5) a(1) w by (auto simp: nfp_ccm_communicate_def Let_def split: sum.splits if_splits)
  have req: "length ?req = length skb" "nfp_ccm_get_type ?req = nfp_ccm_type_val type" "nfp_ccm_get_tag ?req = ?tag"
    using assms(2) set_hdr_tag [of skb type ?tag]
    by (cases skb; simp add: sizeof_ccm_hdr_def ccm_set_hdr_def nfp_ccm_get_type_def nth_list_update)+
  have "case r of
       Inr reply \<Rightarrow> nfp_ccm_get_tag reply = ?tag \<and> nfp_ccm_get_type reply = NFP_CCM_REPLY (nfp_ccm_type_val type) \<and>
         (reply_size = 0 \<or> length reply = reply_size) \<and> leaked = None
     | Inl err \<Rightarrow> err \<in> {EIO, ETIMEDOUT, ERESTARTSYS}"
    using assms(5) a(1) w spec by (cases r1) (auto simp: nfp_ccm_communicate_def Let_def split: if_splits)
  with sent req spec alloc_fresh [OF I] show ?thesis
    by (intro exI [of _ ?req]) (cases r, simp_all)
qed

text \<open>A reply that arrives just as a signal ends the wait is taken from the queue and lost.\<close>

lemma ccm_signal_leaks:
  "\<exists>ccm'. nfp_ccm_communicate nfp_ccm_init [0, 0, 0, 0] NFP_CCM_TYPE_BPF_MAP_ALLOC 0
     \<lparr> wait_polls = [], wait_wakeups = [], wait_late = [Rx [0x81, 1, 0, 0]], wait_signal = True \<rparr> =
     (Inl ERESTARTSYS, ccm', Some [0x81, 1, 0, 0], Some [1, 1, 0, 0])"
  by (simp add: nfp_ccm_communicate_def nfp_ccm_alloc_tag_def nfp_ccm_init_def nfp_ccm_all_tags_busy_def
    NFP_CCM_TAG_ALLOC_SPAN_def nfp_ccm_wait_reply_def ccm_set_hdr_def NFP_CCM_ABI_VERSION_def Let_def
    nfp_ccm_rx_def sizeof_ccm_hdr_def nfp_ccm_get_tag_def nfp_ccm_reply_drop_tag_def nfp_ccm_reply_def extract_Cons_code)

section \<open>Witnesses\<close>


text \<open>A run of requests, each given up before the next, hands out the first tag again only after all
  others.\<close>

definition idle :: "u16 \<Rightarrow> nfp_ccm" where
  "idle n = \<lparr> tag_allocator = (\<lambda>_. False), tag_alloc_next = n, tag_alloc_last = n, ccm_replies = [], ccm_warned = False \<rparr>"

definition give_ups :: "nat \<Rightarrow> ccm_event list" where
  "give_ups n = Other_drop 0 # concat (map (\<lambda>i. [Other_alloc, Other_drop (of_nat i)]) [1..<n])"

lemma advance_last_free: "advance_last (\<lambda>_. False) nxt lst = nxt"
  by (induction "\<lambda>_ :: u16. False" nxt lst rule: advance_last.induct) (subst advance_last.simps, auto)

lemma idle_step: "ccm_do (Other_drop n) (ccm_do Other_alloc (idle n)) = idle (n + 1)"
  by (simp add: idle_def nfp_ccm_alloc_tag_def nfp_ccm_all_tags_busy_def nfp_ccm_reply_drop_tag_def nfp_ccm_reply_def
    nfp_ccm_free_tag_def Let_def fun_upd_def advance_last_free extract_Nil_code)

lemma give_ups_idle: "0 < n \<Longrightarrow> fold ccm_do (give_ups n) (ccm_do Other_alloc nfp_ccm_init) = idle (of_nat n)"
proof (induction n)
  case (Suc n)
  show ?case
  proof (cases "n = 0")
    case True
    with idle_step [of 0] show ?thesis by (simp add: give_ups_def nfp_ccm_init_def idle_def)
  next
    case False
    then have "give_ups (Suc n) = give_ups n @ [Other_alloc, Other_drop (of_nat n)]" by (simp add: give_ups_def)
    with Suc.IH False idle_step [of "of_nat n"] show ?thesis by (simp add: add.commute)
  qed
qed simp

theorem ccm_tag_reuse_witness:
  "49152 \<le> count_list (give_ups 65536) Other_alloc"
proof (rule ccm_tag_reuse [of "ccm_do Other_alloc nfp_ccm_init" 0])
  show "ccm_reach (ccm_do Other_alloc nfp_ccm_init)" by (rule reach_event) (simp_all add: reach_init)
  have "(of_nat 65536 :: u16) = 0" by simp
  then have "fold ccm_do (give_ups 65536) (ccm_do Other_alloc nfp_ccm_init) = idle 0"
    using give_ups_idle [of 65536] by (simp del: of_nat_numeral)
  then show "fst (nfp_ccm_alloc_tag (fold ccm_do (give_ups 65536) (ccm_do Other_alloc nfp_ccm_init))) = Inr 0"
    by (simp only:) (simp add: idle_def nfp_ccm_alloc_tag_def nfp_ccm_all_tags_busy_def)
qed (simp add: nfp_ccm_alloc_tag_def nfp_ccm_init_def nfp_ccm_all_tags_busy_def)

theorem ccm_communicate_correct_witness:
  "\<exists>ccm'. nfp_ccm_communicate nfp_ccm_init [0, 0, 0, 0] NFP_CCM_TYPE_BPF_MAP_ALLOC 4
     \<lparr> wait_polls = [[Rx [0x81, 1, 0, 0]]], wait_wakeups = [], wait_late = [], wait_signal = False \<rparr> =
     (Inr [0x81, 1, 0, 0], ccm', None, Some [1, 1, 0, 0]) \<and> \<not> tag_allocator ccm' 0"
proof -
  let ?w = "\<lparr> wait_polls = [[Rx [0x81, 1, 0, 0]]], wait_wakeups = [], wait_late = [], wait_signal = False \<rparr>"
  note ccm_eval = nfp_ccm_communicate_def nfp_ccm_alloc_tag_def nfp_ccm_init_def nfp_ccm_all_tags_busy_def
    NFP_CCM_TAG_ALLOC_SPAN_def nfp_ccm_wait_reply_def ccm_set_hdr_def NFP_CCM_ABI_VERSION_def Let_def
    nfp_ccm_rx_def sizeof_ccm_hdr_def nfp_ccm_get_tag_def nfp_ccm_get_type_def NFP_CCM_REPLY_def NFP_CCM_TYPE_REPLY_BIT_def
    nfp_ccm_reply_drop_tag_def nfp_ccm_reply_def extract_Cons_code
  obtain ccm' where c: "nfp_ccm_communicate nfp_ccm_init [0, 0, 0, 0] NFP_CCM_TYPE_BPF_MAP_ALLOC 4 ?w =
     (Inr [0x81, 1, 0, 0], ccm', None, Some [1, 1, 0, 0])"
    by (simp add: ccm_eval)
  have "wait_ok (tag_alloc_next nfp_ccm_init) ?w (snd (nfp_ccm_alloc_tag nfp_ccm_init))"
    by (simp add: wait_ok_def foreign_def ccm_eval)
  from ccm_communicate_correct [OF reach_init _ _ this c] have "\<not> tag_allocator ccm' 0"
    by (auto simp: ccm_eval)
  with c show ?thesis by blast
qed

end
