(* ===== verification/NFP_Circ.thy ===== *)
theory NFP_Circ
  imports NFP_Prelude "HOL-Library.Multiset"
begin

text \<open>
  The circular buffers in which the flower application keeps the identifiers that were released
  (\<^verbatim>\<open>src/flower/metadata.c\<close>, on the kernel's \<open>struct circ_buf\<close>), as an implementation of a bounded
  first-in first-out queue, and what follows for any allocator that hands out identifiers from a pool
  and takes them back.
\<close>

section \<open>Circular buffers\<close>

text \<open>Head and tail count elements; \<open>sz\<close> is the number of elements, a power of two.\<close>

record 'a circ_buf =
  cb_buf :: "'a list"
  cb_head :: nat
  cb_tail :: nat

definition CIRC_SPACE :: "nat \<Rightarrow> nat \<Rightarrow> nat \<Rightarrow> nat" where
  "CIRC_SPACE head tail sz = nat ((int tail - (int head + 1)) AND (int sz - 1))"

definition ring_put :: "nat \<Rightarrow> 'a \<Rightarrow> 'a circ_buf \<Rightarrow> unit result \<times> 'a circ_buf" where
  "ring_put sz x ring =
     (if CIRC_SPACE (cb_head ring) (cb_tail ring) sz = 0 then (Inl ENOBUFS, ring)
      else (Inr (), ring\<lparr> cb_buf := (cb_buf ring)[cb_head ring := x],
                          cb_head := (cb_head ring + 1) AND (sz - 1) \<rparr>))"

text \<open>The slot of a removed element is overwritten with \<open>freed\<close>.\<close>

definition ring_get :: "nat \<Rightarrow> 'a \<Rightarrow> 'a circ_buf \<Rightarrow> 'a result \<times> 'a circ_buf" where
  "ring_get sz freed ring =
     (if cb_head ring = cb_tail ring then (Inl ENOENT, ring)
      else (Inr (cb_buf ring ! cb_tail ring),
            ring\<lparr> cb_buf := (cb_buf ring)[cb_tail ring := freed],
                  cb_tail := (cb_tail ring + 1) AND (sz - 1) \<rparr>))"

section \<open>A bounded queue\<close>

text \<open>The contract: an abstraction to a list, bounded in length.\<close>

locale bounded_queue =
  fixes put :: "'a \<Rightarrow> 'q \<Rightarrow> unit result \<times> 'q"
    and get :: "'q \<Rightarrow> 'a result \<times> 'q"
    and content :: "'q \<Rightarrow> 'a list"
    and queue_ok :: "'q \<Rightarrow> bool"
    and capacity :: nat
  assumes content_bound: "queue_ok q \<Longrightarrow> length (content q) \<le> capacity"
    and put_room: "queue_ok q \<Longrightarrow> length (content q) < capacity \<Longrightarrow>
      \<exists>q'. put x q = (Inr (), q') \<and> queue_ok q' \<and> content q' = content q @ [x]"
    and put_full: "queue_ok q \<Longrightarrow> length (content q) = capacity \<Longrightarrow> put x q = (Inl ENOBUFS, q)"
    and get_first: "queue_ok q \<Longrightarrow> content q = y # ys \<Longrightarrow> \<exists>q'. get q = (Inr y, q') \<and> queue_ok q' \<and> content q' = ys"
    and get_empty: "queue_ok q \<Longrightarrow> content q = [] \<Longrightarrow> get q = (Inl ENOENT, q)"
begin

primrec put_all :: "'a list \<Rightarrow> 'q \<Rightarrow> 'q" where
  "put_all [] q = q"
| "put_all (x # xs) q = put_all xs (snd (put x q))"

primrec get_all :: "nat \<Rightarrow> 'q \<Rightarrow> 'a list \<times> 'q" where
  "get_all 0 q = ([], q)"
| "get_all (Suc n) q =
     (case get q of
        (Inl _, q') \<Rightarrow> ([], q')
      | (Inr x, q') \<Rightarrow> (case get_all n q' of (xs, q'') \<Rightarrow> (x # xs, q'')))"

lemma put_all_content:
  "queue_ok q \<Longrightarrow> length (content q) + length xs \<le> capacity \<Longrightarrow>
   queue_ok (put_all xs q) \<and> content (put_all xs q) = content q @ xs"
proof (induction xs arbitrary: q)
  case (Cons x xs)
  then obtain q' where "put x q = (Inr (), q')" "queue_ok q'" "content q' = content q @ [x]"
    using put_room [of q x] by auto
  with Cons.IH [of q'] Cons.prems(2) show ?case by simp
qed simp

lemma get_all_content:
  "queue_ok q \<Longrightarrow> content q = xs @ ys \<Longrightarrow> \<exists>q'. get_all (length xs) q = (xs, q') \<and> queue_ok q' \<and> content q' = ys"
proof (induction xs arbitrary: q)
  case (Cons x xs)
  then obtain q' where "get q = (Inr x, q')" "queue_ok q'" "content q' = xs @ ys"
    using get_first [of q x "xs @ ys"] by auto
  with Cons.IH [of q'] show ?case by auto
qed simp

text \<open>First in, first out.\<close>

lemma fifo:
  assumes "queue_ok q" "content q = []" "length xs \<le> capacity"
  shows "\<exists>q'. get_all (length xs) (put_all xs q) = (xs, q') \<and> content q' = []"
  using put_all_content [OF assms(1), of xs] get_all_content [of "put_all xs q" xs "[]"] assms(2,3) by auto

end

section \<open>The circular buffer is a bounded queue\<close>

definition ring_ok :: "nat \<Rightarrow> 'a circ_buf \<Rightarrow> bool" where
  "ring_ok sz ring \<longleftrightarrow> length (cb_buf ring) = sz \<and> cb_head ring < sz \<and> cb_tail ring < sz"

definition ring_count :: "nat \<Rightarrow> 'a circ_buf \<Rightarrow> nat" where
  "ring_count sz ring = (cb_head ring + sz - cb_tail ring) mod sz"

definition ring_content :: "nat \<Rightarrow> 'a circ_buf \<Rightarrow> 'a list" where
  "ring_content sz ring = map (\<lambda>i. cb_buf ring ! ((cb_tail ring + i) mod sz)) [0..<ring_count sz ring]"

lemma and_size_mod: "x AND (2 ^ k - Suc 0) = x mod 2 ^ k" for x :: nat
  by (simp add: take_bit_eq_mod [symmetric] take_bit_eq_mask mask_eq_exp_minus_1)

lemma circ_space:
  assumes "h < 2 ^ k" "t < 2 ^ k"
  shows "CIRC_SPACE h t (2 ^ k) = 2 ^ k - 1 - (h + 2 ^ k - t) mod 2 ^ k"
proof -
  have lt: "int h < 2 ^ k" "int t < 2 ^ k" using assms by (metis of_nat_less_iff of_nat_numeral of_nat_power)+
  have "(int t - (int h + 1)) AND (int (2 ^ k) - 1) = (int t - (int h + 1)) mod 2 ^ k"
    by (simp add: take_bit_eq_mod [symmetric] take_bit_eq_mask mask_eq_exp_minus_1)
  also have "\<dots> = int (2 ^ k - 1 - (h + 2 ^ k - t) mod 2 ^ k)"
  proof (cases "t \<le> h")
    case True
    then have "(h + 2 ^ k - t) mod 2 ^ k = h - t"
      using assms by (metis Nat.add_diff_assoc2 less_imp_diff_less mod_add_self2 mod_less)
    moreover have "(int t - (int h + 1)) mod 2 ^ k = int t - (int h + 1) + 2 ^ k"
      by (rule int_mod_pos_eq [where q = "-1"]) (use True lt in linarith)+
    ultimately show ?thesis using True assms by (simp add: of_nat_diff)
  next
    case False
    then have "(h + 2 ^ k - t) mod 2 ^ k = h + 2 ^ k - t" using assms by simp
    moreover have "(int t - (int h + 1)) mod 2 ^ k = int t - (int h + 1)"
      by (rule mod_pos_pos_trivial) (use False lt in linarith)+
    ultimately show ?thesis using False assms by (simp add: of_nat_diff)
  qed
  finally show ?thesis by (simp add: CIRC_SPACE_def)
qed

lemma mod_succ: "(x + 1) mod n = (if x mod n = n - 1 then 0 else x mod n + 1)" if "0 < n" for x n :: nat
  using that by (auto simp: mod_Suc)

lemma ring_count_put:
  assumes "ring_ok (2 ^ k) ring" "ring_count (2 ^ k) ring < 2 ^ k - 1"
  shows "(((cb_head ring + 1) mod 2 ^ k) + 2 ^ k - cb_tail ring) mod 2 ^ k = ring_count (2 ^ k) ring + 1"
proof -
  have t: "x + 2 ^ k - cb_tail ring = x + (2 ^ k - cb_tail ring)" for x using assms(1) by (simp add: ring_ok_def)
  have "(((cb_head ring + 1) mod 2 ^ k) + 2 ^ k - cb_tail ring) mod 2 ^ k = (cb_head ring + 2 ^ k - cb_tail ring + 1) mod 2 ^ k"
    unfolding t mod_add_left_eq by (simp add: ac_simps)
  also have "\<dots> = ring_count (2 ^ k) ring + 1"
    using mod_succ [of "2 ^ k" "cb_head ring + 2 ^ k - cb_tail ring"] assms(2) by (simp add: ring_count_def)
  finally show ?thesis .
qed

lemma ring_head: "ring_ok (2 ^ k) ring \<Longrightarrow> (cb_tail ring + ring_count (2 ^ k) ring) mod 2 ^ k = cb_head ring"
  by (simp add: ring_ok_def ring_count_def mod_add_right_eq)

lemma mod_add_cancel_nat: "(a + b) mod n = (a + c) mod n \<Longrightarrow> b mod n = c mod n" for a b c n :: nat
  by (auto simp: nat_mod_eq_iff)

lemma ring_slot_neq_head:
  assumes "ring_ok (2 ^ k) ring" "i < ring_count (2 ^ k) ring"
  shows "(cb_tail ring + i) mod 2 ^ k \<noteq> cb_head ring"
proof
  assume "(cb_tail ring + i) mod 2 ^ k = cb_head ring"
  with ring_head [OF assms(1)] have "(cb_tail ring + i) mod 2 ^ k = (cb_tail ring + ring_count (2 ^ k) ring) mod 2 ^ k" by simp
  then have "i mod 2 ^ k = ring_count (2 ^ k) ring mod 2 ^ k"
    by (rule mod_add_cancel_nat)
  moreover have "ring_count (2 ^ k) ring < 2 ^ k" by (simp add: ring_count_def)
  ultimately show False using assms(2) by simp
qed

lemma ring_count_less: "ring_count (2 ^ k) ring < 2 ^ k"
  by (simp add: ring_count_def)

lemma ring_put_room:
  assumes "ring_ok (2 ^ k) ring" "length (ring_content (2 ^ k) ring) < 2 ^ k - 1"
  shows "\<exists>ring'. ring_put (2 ^ k) x ring = (Inr (), ring') \<and> ring_ok (2 ^ k) ring' \<and>
    ring_content (2 ^ k) ring' = ring_content (2 ^ k) ring @ [x]"
proof -
  let ?r = "ring\<lparr> cb_buf := (cb_buf ring)[cb_head ring := x], cb_head := Suc (cb_head ring) mod 2 ^ k \<rparr>"
  have lt: "ring_count (2 ^ k) ring < 2 ^ k - 1" using assms(2) by (simp add: ring_content_def)
  have b: "cb_head ring < 2 ^ k" "cb_tail ring < 2 ^ k" "length (cb_buf ring) = 2 ^ k" using assms(1) by (simp_all add: ring_ok_def)
  have "CIRC_SPACE (cb_head ring) (cb_tail ring) (2 ^ k) \<noteq> 0"
    using circ_space [OF b(1,2)] lt by (simp add: ring_count_def)
  then have put: "ring_put (2 ^ k) x ring = (Inr (), ?r)" by (simp add: ring_put_def and_size_mod)
  have cnt: "ring_count (2 ^ k) ?r = ring_count (2 ^ k) ring + 1"
    using ring_count_put [OF assms(1) lt] by (simp add: ring_count_def)
  have "map (\<lambda>i. (cb_buf ring)[cb_head ring := x] ! ((cb_tail ring + i) mod 2 ^ k)) [0..<ring_count (2 ^ k) ring] =
      ring_content (2 ^ k) ring"
    by (simp add: ring_content_def nth_list_update_neq [OF not_sym [OF ring_slot_neq_head [OF assms(1)]]])
  moreover have "ring_content (2 ^ k) ?r =
      map (\<lambda>i. (cb_buf ring)[cb_head ring := x] ! ((cb_tail ring + i) mod 2 ^ k)) [0..<ring_count (2 ^ k) ring] @ [x]"
    unfolding ring_content_def cnt using ring_head [OF assms(1)] b by simp
  ultimately have "ring_content (2 ^ k) ?r = ring_content (2 ^ k) ring @ [x]" by simp
  moreover have "ring_ok (2 ^ k) ?r" using b by (simp add: ring_ok_def)
  ultimately show ?thesis using put by blast
qed

lemma ring_put_full:
  assumes "ring_ok (2 ^ k) ring" "length (ring_content (2 ^ k) ring) = 2 ^ k - 1"
  shows "ring_put (2 ^ k) x ring = (Inl ENOBUFS, ring)"
  using assms circ_space [of "cb_head ring" k "cb_tail ring"]
  by (simp add: ring_put_def ring_ok_def ring_content_def ring_count_def)

lemma ring_get_first:
  assumes "ring_ok (2 ^ k) ring" "ring_content (2 ^ k) ring = y # ys"
  shows "\<exists>ring'. ring_get (2 ^ k) freed ring = (Inr y, ring') \<and> ring_ok (2 ^ k) ring' \<and> ring_content (2 ^ k) ring' = ys"
proof -
  let ?r = "ring\<lparr> cb_buf := (cb_buf ring)[cb_tail ring := freed], cb_tail := Suc (cb_tail ring) mod 2 ^ k \<rparr>"
  have b: "cb_head ring < 2 ^ k" "cb_tail ring < 2 ^ k" "length (cb_buf ring) = 2 ^ k" using assms(1) by (simp_all add: ring_ok_def)
  have "length (ring_content (2 ^ k) ring) = Suc (length ys)" using assms(2) by simp
  then have cnt: "ring_count (2 ^ k) ring = Suc (length ys)" by (simp add: ring_content_def)
  have c: "[0..<ring_count (2 ^ k) ring] = 0 # map Suc [0..<length ys]" by (simp add: cnt upt_conv_Cons map_Suc_upt del: upt_Suc)
  have "map (\<lambda>i. cb_buf ring ! ((cb_tail ring + i) mod 2 ^ k)) (0 # map Suc [0..<length ys]) = y # ys"
    using assms(2) unfolding ring_content_def c .
  then have y: "cb_buf ring ! ((cb_tail ring + 0) mod 2 ^ k) = y"
    "map (\<lambda>i. cb_buf ring ! ((cb_tail ring + i) mod 2 ^ k)) (map Suc [0..<length ys]) = ys"
    unfolding list.map list.inject by (rule conjunct1, rule conjunct2)
  have ne: "cb_head ring \<noteq> cb_tail ring" using cnt b by (auto simp: ring_count_def)
  let ?t = "Suc (cb_tail ring) mod 2 ^ k"
  have "(cb_tail ring + Suc (length ys)) mod 2 ^ k = cb_head ring" using ring_head [OF assms(1)] unfolding cnt .
  then have "(?t + length ys) mod 2 ^ k = cb_head ring" unfolding mod_add_left_eq by simp
  moreover have "?t + (cb_head ring + 2 ^ k - ?t) = cb_head ring + 2 ^ k"
    by (rule le_add_diff_inverse) (rule order_trans [OF less_imp_le [OF mod_less_divisor]], simp_all)
  then have "(?t + (cb_head ring + 2 ^ k - ?t)) mod 2 ^ k = cb_head ring"
    by (simp only: mod_add_self2 mod_less [OF b(1)])
  ultimately have "(cb_head ring + 2 ^ k - ?t) mod 2 ^ k = length ys mod 2 ^ k"
    by - (rule mod_add_cancel_nat [of ?t], rule trans, assumption, rule sym)
  then have cnt': "ring_count (2 ^ k) ?r = length ys"
    using ring_count_less [of k ring] cnt by (simp add: ring_count_def)
  have "(cb_tail ring + Suc i) mod 2 ^ k \<noteq> cb_tail ring" if "i < length ys" for i
  proof
    assume "(cb_tail ring + Suc i) mod 2 ^ k = cb_tail ring"
    then have "(cb_tail ring + Suc i) mod 2 ^ k = (cb_tail ring + 0) mod 2 ^ k" using b(2) by simp
    then have "Suc i mod 2 ^ k = 0 mod 2 ^ k" by (rule mod_add_cancel_nat)
    moreover have "Suc i < 2 ^ k" using that cnt ring_count_less [of k ring] by simp
    ultimately show False by simp
  qed
  then have "ring_content (2 ^ k) ?r = map (\<lambda>i. cb_buf ring ! ((cb_tail ring + i) mod 2 ^ k)) (map Suc [0..<length ys])"
    unfolding ring_content_def cnt' by (simp add: mod_add_left_eq [of "Suc (cb_tail ring)", simplified] nth_list_update_neq [OF not_sym])
  then have "ring_content (2 ^ k) ?r = ys" using y(2) by (rule trans)
  moreover have "ring_ok (2 ^ k) ?r" using b by (simp add: ring_ok_def)
  moreover have "ring_get (2 ^ k) freed ring = (Inr y, ?r)" 
    using ne y(1) b(2) by (simp add: ring_get_def and_size_mod)
  ultimately show ?thesis by blast
qed

lemma ring_get_empty:
  assumes "ring_ok (2 ^ k) ring" "ring_content (2 ^ k) ring = []"
  shows "ring_get (2 ^ k) freed ring = (Inl ENOENT, ring)"
proof -
  have "ring_count (2 ^ k) ring = 0" using assms(2) by (simp add: ring_content_def)
  then have "cb_head ring = cb_tail ring"
    using ring_head [OF assms(1)] assms(1) by (simp add: ring_ok_def)
  then show ?thesis by (simp add: ring_get_def)
qed

lemma ring_content_bound: "length (ring_content (2 ^ k) ring) \<le> 2 ^ k - 1"
  using ring_count_less [of k ring] by (simp add: ring_content_def)

interpretation ring: bounded_queue "ring_put (2 ^ k)" "ring_get (2 ^ k) freed" "ring_content (2 ^ k)" "ring_ok (2 ^ k)" "2 ^ k - 1"
  for k :: nat and freed :: 'a
  by unfold_locales
    (rule ring_content_bound ring_put_room ring_put_full ring_get_first ring_get_empty; assumption)+

text \<open>C18. The circular buffer implements a bounded queue: on a well-formed ring of 2 ^ k slots, putting
  appends to the content, or fails with ENOBUFS exactly when the ring holds 2 ^ k - 1 elements, and
  getting removes the first, or fails with ENOENT exactly when there is none.\<close>

theorem ring_refines_queue:
  assumes "ring_ok (2 ^ k) ring"
  shows "(case ring_put (2 ^ k) x ring of
        (Inr _, ring') \<Rightarrow> length (ring_content (2 ^ k) ring) < 2 ^ k - 1 \<and> ring_ok (2 ^ k) ring' \<and>
          ring_content (2 ^ k) ring' = ring_content (2 ^ k) ring @ [x]
      | (Inl err, ring') \<Rightarrow> err = ENOBUFS \<and> ring' = ring \<and> length (ring_content (2 ^ k) ring) = 2 ^ k - 1) \<and>
    (case ring_get (2 ^ k) freed ring of
        (Inr y, ring') \<Rightarrow> ring_ok (2 ^ k) ring' \<and> ring_content (2 ^ k) ring = y # ring_content (2 ^ k) ring'
      | (Inl err, ring') \<Rightarrow> err = ENOENT \<and> ring' = ring \<and> ring_content (2 ^ k) ring = [])"
proof (rule conjI)
  show "case ring_put (2 ^ k) x ring of
        (Inr _, ring') \<Rightarrow> length (ring_content (2 ^ k) ring) < 2 ^ k - 1 \<and> ring_ok (2 ^ k) ring' \<and>
          ring_content (2 ^ k) ring' = ring_content (2 ^ k) ring @ [x]
      | (Inl err, ring') \<Rightarrow> err = ENOBUFS \<and> ring' = ring \<and> length (ring_content (2 ^ k) ring) = 2 ^ k - 1"
  proof (cases "length (ring_content (2 ^ k) ring) < 2 ^ k - 1")
    case True
    then show ?thesis using ring.put_room [OF assms True, of x] by auto
  next
    case False
    then have "length (ring_content (2 ^ k) ring) = 2 ^ k - 1" using ring.content_bound [OF assms] by simp
    then show ?thesis using ring.put_full [OF assms, of x] by simp
  qed
  show "case ring_get (2 ^ k) freed ring of
        (Inr y, ring') \<Rightarrow> ring_ok (2 ^ k) ring' \<and> ring_content (2 ^ k) ring = y # ring_content (2 ^ k) ring'
      | (Inl err, ring') \<Rightarrow> err = ENOENT \<and> ring' = ring \<and> ring_content (2 ^ k) ring = []"
  proof (cases "ring_content (2 ^ k) ring")
    case Nil
    then show ?thesis using ring.get_empty [OF assms Nil, of freed] by simp
  next
    case (Cons y ys)
    then show ?thesis using ring.get_first [OF assms Cons, of freed] by auto
  qed
qed

text \<open>A ring of four slots with two elements across the wrap-around.\<close>

theorem ring_refines_queue_witness:
  "ring_put 4 (9 :: nat) \<lparr> cb_buf = [5, 0, 0, 7], cb_head = 1, cb_tail = 3 \<rparr> =
     (Inr (), \<lparr> cb_buf = [5, 9, 0, 7], cb_head = 2, cb_tail = 3 \<rparr>) \<and>
   ring_content 4 \<lparr> cb_buf = [5, 9, 0, 7], cb_head = 2, cb_tail = 3 \<rparr> =
     ring_content 4 \<lparr> cb_buf = [5, 0, 0, 7 :: nat], cb_head = 1, cb_tail = 3 \<rparr> @ [9]"
proof -
  let ?r = "\<lparr> cb_buf = [5, 0, 0, 7], cb_head = 1, cb_tail = 3 \<rparr> :: nat circ_buf"
  have put: "ring_put (2 ^ 2) 9 ?r = (Inr (), \<lparr> cb_buf = [5, 9, 0, 7], cb_head = 2, cb_tail = 3 \<rparr>)"
    by code_simp
  have "ring_ok (2 ^ 2) ?r" by (simp add: ring_ok_def)
  from ring_refines_queue [OF this, of 9 0] put show ?thesis by simp
qed

section \<open>Pools of identifiers\<close>

text \<open>Histories of an allocator: the state reached from \<open>s0\<close> and the identifiers in use.  Only an
  identifier in use is released; one whose release fails is lost.\<close>

inductive pool_run ::
  "('t \<Rightarrow> 's \<Rightarrow> 'id result \<times> 's) \<Rightarrow> ('t \<Rightarrow> 'id \<Rightarrow> 's \<Rightarrow> unit result \<times> 's) \<Rightarrow> 's \<Rightarrow> 's \<Rightarrow> 'id multiset \<Rightarrow> bool"
  for alloc release s0 where
  run_start: "pool_run alloc release s0 s0 {#}"
| run_alloc: "pool_run alloc release s0 s u \<Longrightarrow> alloc t s = (Inr x, s') \<Longrightarrow> pool_run alloc release s0 s' (add_mset x u)"
| run_empty: "pool_run alloc release s0 s u \<Longrightarrow> alloc t s = (Inl e, s') \<Longrightarrow> pool_run alloc release s0 s' u"
| run_release: "pool_run alloc release s0 s (add_mset x u) \<Longrightarrow> release t x s = (r, s') \<Longrightarrow> pool_run alloc release s0 s' u"

text \<open>The contract of an allocator, over the multiset of the identifiers it can still hand out.\<close>

locale id_pool =
  fixes alloc :: "'t \<Rightarrow> 's \<Rightarrow> 'id result \<times> 's"
    and release :: "'t \<Rightarrow> 'id \<Rightarrow> 's \<Rightarrow> unit result \<times> 's"
    and avail :: "'s \<Rightarrow> 'id multiset"
    and pool_ok :: "'s \<Rightarrow> bool"
  assumes alloc_takes: "pool_ok s \<Longrightarrow> alloc t s = (Inr x, s') \<Longrightarrow> pool_ok s' \<and> avail s = add_mset x (avail s')"
    and alloc_fails: "pool_ok s \<Longrightarrow> alloc t s = (Inl e, s') \<Longrightarrow> s' = s"
    and release_adds: "pool_ok s \<Longrightarrow> release t x s = (Inr (), s') \<Longrightarrow> pool_ok s' \<and> avail s' = add_mset x (avail s)"
    and release_fails: "pool_ok s \<Longrightarrow> release t x s = (Inl e, s') \<Longrightarrow> s' = s"
begin

text \<open>No identifier appears from nowhere.\<close>

lemma run_conserves:
  assumes "pool_run alloc release s0 s u" "pool_ok s0"
  shows "pool_ok s \<and> avail s + u \<subseteq># avail s0"
  using assms(1)
proof induction
  case run_start
  show ?case using assms(2) by simp
next
  case (run_alloc s u t x s')
  with alloc_takes [of s t x s'] show ?case by simp
next
  case (run_empty s u t e s')
  with alloc_fails [of s t e s'] show ?case by simp
next
  case (run_release s x u t r s')
  then have ok: "pool_ok s" "add_mset x (avail s + u) \<subseteq># avail s0" by simp_all
  then have "avail s + u \<subseteq># avail s0" by (meson mset_subset_eq_insertD subset_mset.less_imp_le)
  with ok run_release.hyps(2) release_fails [of s t x _ s'] release_adds [of s t x s'] show ?case by (cases r) auto
qed

text \<open>An identifier that is handed out is not in use.\<close>

lemma alloc_unique:
  assumes "pool_run alloc release s0 s u" "pool_ok s0" "\<And>x. count (avail s0) x \<le> 1" "alloc t s = (Inr x, s')"
  shows "x \<notin># u \<and> x \<in># avail s0"
proof -
  have "pool_ok s" "avail s + u \<subseteq># avail s0" using run_conserves [OF assms(1,2)] by simp_all
  with alloc_takes [OF _ assms(4)] have le: "add_mset x (avail s' + u) \<subseteq># avail s0" by simp
  then have "count (add_mset x (avail s' + u)) x \<le> 1" using assms(3) [of x] by (metis mset_subset_eq_count order_trans)
  with le show ?thesis by (auto simp: not_in_iff dest: mset_subset_eq_insertD)
qed

end

text \<open>An allocator that takes back identifiers as long as it has less than \<open>room\<close> of them.\<close>

locale roomy_pool = id_pool alloc release avail pool_ok
  for alloc :: "'t \<Rightarrow> 's \<Rightarrow> 'id result \<times> 's" and release :: "'t \<Rightarrow> 'id \<Rightarrow> 's \<Rightarrow> unit result \<times> 's"
    and avail :: "'s \<Rightarrow> 'id multiset" and pool_ok :: "'s \<Rightarrow> bool" +
  fixes room :: nat
  assumes release_room: "pool_ok s \<Longrightarrow> size (avail s) < room \<Longrightarrow> fst (release t x s) = Inr ()"
begin

text \<open>A pool that starts with at most \<open>room\<close> identifiers never loses one.\<close>

lemma run_lossless:
  assumes "pool_run alloc release s0 s u" "pool_ok s0" "size (avail s0) \<le> room"
  shows "pool_ok s \<and> avail s + u = avail s0"
  using assms(1)
proof induction
  case run_start
  show ?case using assms(2) by simp
next
  case (run_alloc s u t x s')
  with alloc_takes [of s t x s'] show ?case by simp
next
  case (run_empty s u t e s')
  with alloc_fails [of s t e s'] show ?case by simp
next
  case (run_release s x u t r s')
  then have ok: "pool_ok s" "add_mset x (avail s + u) = avail s0" by simp_all
  have "size (avail s) < size (add_mset x (avail s + u))" by simp
  then have "size (avail s) < room" using assms(3) unfolding ok(2) by simp
  with release_room [OF ok(1)] run_release.hyps(2) have "release t x s = (Inr (), s')" by (metis fst_conv)
  with release_adds [OF ok(1)] ok show ?case by auto
qed

end

end
