(* ===== verification/NFP_Flower.thy ===== *)
theory NFP_Flower
  imports NFP_Circ
begin

text \<open>
  Flow metadata of the flower application (\<^verbatim>\<open>src/flower/metadata.c\<close>, structures of
  \<^verbatim>\<open>src/flower/main.h\<close>): statistics contexts and mask identifiers are handed out from pools, masks are
  shared between flows by reference count, and offloading a flow takes one of each and gives them back
  when a later step fails.

  The kernel's hash \<open>jhash\<close> is a parameter; its hash tables are maps and lists; memory allocations and
  the clock have their results as arguments.
\<close>

section \<open>State\<close>

definition NFP_FL_STAT_ID_MU_NUM :: u64 where "NFP_FL_STAT_ID_MU_NUM = GENMASK_ULL 31 22"

definition NFP_FL_STAT_ID_STAT :: u64 where "NFP_FL_STAT_ID_STAT = GENMASK_ULL 21 0"

definition NFP_FLOWER_MASK_ENTRY_RS :: nat where "NFP_FLOWER_MASK_ENTRY_RS = 256"

definition NFP_FL_META_FLAG_MANAGE_MASK :: u8 where "NFP_FL_META_FLAG_MANAGE_MASK = push_bit 7 1"

definition NFP_FL_MASK_REUSE_TIME_NS :: int where "NFP_FL_MASK_REUSE_TIME_NS = 40000"

definition NFP_FL_MASK_ID_LOCATION :: nat where "NFP_FL_MASK_ID_LOCATION = 1"

record nfp_fl_mask_id =
  mask_id_free_list :: "u8 circ_buf"
  last_used :: "u8 \<Rightarrow> int"
  init_unallocated :: u8

record nfp_fl_stats_id =
  free_list :: "u32 circ_buf"
  init_unalloc :: u32

record nfp_mask_id_table =
  hash_key :: u32
  ref_cnt :: u32
  mask_id :: u8

record nfp_fl_stats =
  stats_pkts :: u64
  stats_bytes :: u64
  stats_used :: u64

text \<open>The fields of a flow that the metadata code uses; devices are numbered, and \<open>pre_tun_dev\<close> tells
  whether \<open>pre_tun_rule.dev\<close> is set.\<close>

record nfp_fl_rule_metadata =
  mask_len :: u8
  meta_flags :: u8
  host_ctx_id :: u32
  host_cookie :: u64
  flow_version :: u64

record nfp_fl_payload =
  meta :: nfp_fl_rule_metadata
  tc_flower_cookie :: u64
  ingress_dev :: nat
  unmasked_data :: "u8 list"
  mask_data :: "u8 list"
  pre_tun_dev :: bool

text \<open>\<open>stats_size\<close> is the number of elements of the array \<open>stats\<close>; \<open>stats_ctx_table\<close> maps a context to
  (the cookie of) its flow.\<close>

record nfp_flower_priv =
  mask_id_seed :: u32
  flower_version :: u64
  stats_ids :: nfp_fl_stats_id
  mask_ids :: nfp_fl_mask_id
  mask_table :: "nfp_mask_id_table list"
  stats_ring_size :: nat
  active_mem_unit :: u32
  total_mem_units :: u32
  fl_stats :: "u32 \<Rightarrow> nfp_fl_stats"
  stats_size :: nat
  stats_ctx_table :: "u32 \<rightharpoonup> u64"
  flow_table :: "nfp_fl_payload list"

section \<open>Statistics contexts\<close>

definition nfp_release_stats_entry :: "u32 \<Rightarrow> nfp_flower_priv \<Rightarrow> unit result \<times> nfp_flower_priv" where
  "nfp_release_stats_entry stats_context_id priv =
     (case ring_put (stats_ring_size priv) stats_context_id (free_list (stats_ids priv)) of
        (Inl err, _) \<Rightarrow> (Inl err, priv)
      | (Inr _, ring) \<Rightarrow> (Inr (), priv\<lparr> stats_ids := (stats_ids priv)\<lparr> free_list := ring \<rparr> \<rparr>))"

definition stats_id :: "u32 \<Rightarrow> u32 \<Rightarrow> u32" where
  "stats_id stat mu =
     ucast (FIELD_PREP NFP_FL_STAT_ID_STAT (ucast stat) OR FIELD_PREP NFP_FL_STAT_ID_MU_NUM (ucast mu))"

definition nfp_get_stats_entry :: "nfp_flower_priv \<Rightarrow> u32 result \<times> nfp_flower_priv" where
  "nfp_get_stats_entry priv =
     (let freed_stats_id = of_nat (stats_ring_size priv); unalloc = init_unalloc (stats_ids priv) in
      if unalloc > 0 then
        (Inr (stats_id (unalloc - 1) (active_mem_unit priv)),
         if active_mem_unit priv + 1 = total_mem_units priv
         then priv\<lparr> active_mem_unit := 0, stats_ids := (stats_ids priv)\<lparr> init_unalloc := unalloc - 1 \<rparr> \<rparr>
         else priv\<lparr> active_mem_unit := active_mem_unit priv + 1 \<rparr>)
      else
        case ring_get (stats_ring_size priv) freed_stats_id (free_list (stats_ids priv)) of
          (Inl err, _) \<Rightarrow> (Inl err, priv)
        | (Inr temp_stats_id, ring) \<Rightarrow>
            (Inr temp_stats_id, priv\<lparr> stats_ids := (stats_ids priv)\<lparr> free_list := ring \<rparr> \<rparr>))"

text \<open>A frame of a statistics message: context, packets and bytes.  The array is indexed with the
  context of the firmware; \<open>None\<close> is an access outside of it.\<close>

definition sizeof_stats_frame :: nat where "sizeof_stats_frame = 24"

definition rx_stats_frame :: "u64 \<Rightarrow> u8 list \<Rightarrow> nfp_flower_priv \<Rightarrow> nfp_flower_priv option" where
  "rx_stats_frame jiffies frame priv =
     (let ctx_id = get_be32 frame in
      if unat ctx_id < stats_size priv then
        let st = fl_stats priv ctx_id in
        Some (priv\<lparr> fl_stats := (fl_stats priv)(ctx_id :=
          \<lparr> stats_pkts = stats_pkts st + ucast (get_be32 (drop 4 frame)),
            stats_bytes = stats_bytes st + get_be64 (drop 8 frame), stats_used = jiffies \<rparr>) \<rparr>)
      else None)"

function nfp_flower_rx_flow_stats :: "u64 \<Rightarrow> u8 list \<Rightarrow> nfp_flower_priv \<Rightarrow> nfp_flower_priv option" where
  "nfp_flower_rx_flow_stats jiffies msg priv =
     (if length msg < sizeof_stats_frame then Some priv
      else
        case rx_stats_frame jiffies (take sizeof_stats_frame msg) priv of
          None \<Rightarrow> None
        | Some priv \<Rightarrow> nfp_flower_rx_flow_stats jiffies (drop sizeof_stats_frame msg) priv)"
  by pat_completeness auto

termination
  by (relation "measure (\<lambda>(jiffies, msg, priv). length msg)") (auto simp: sizeof_stats_frame_def)

declare nfp_flower_rx_flow_stats.simps [simp del]

section \<open>Mask identifiers\<close>

definition nfp_release_mask_id :: "int \<Rightarrow> u8 \<Rightarrow> nfp_flower_priv \<Rightarrow> unit result \<times> nfp_flower_priv" where
  "nfp_release_mask_id now mid priv =
     (case ring_put NFP_FLOWER_MASK_ENTRY_RS mid (mask_id_free_list (mask_ids priv)) of
        (Inl err, _) \<Rightarrow> (Inl err, priv)
      | (Inr _, ring) \<Rightarrow>
          (Inr (), priv\<lparr> mask_ids := (mask_ids priv)\<lparr> mask_id_free_list := ring,
                                                       last_used := (last_used (mask_ids priv))(mid := now) \<rparr> \<rparr>))"

definition nfp_mask_alloc :: "int \<Rightarrow> nfp_flower_priv \<Rightarrow> u8 result \<times> nfp_flower_priv" where
  "nfp_mask_alloc now priv =
     (let freed_id = of_nat (NFP_FLOWER_MASK_ENTRY_RS - 1); ids = mask_ids priv in
      if init_unallocated ids > 0 then
        (Inr (init_unallocated ids), priv\<lparr> mask_ids := ids\<lparr> init_unallocated := init_unallocated ids - 1 \<rparr> \<rparr>)
      else
        case ring_get NFP_FLOWER_MASK_ENTRY_RS freed_id (mask_id_free_list ids) of
          (Inl _, _) \<Rightarrow> (Inl ENOENT, priv)
        | (Inr temp_id, ring) \<Rightarrow>
            if now < last_used ids temp_id + NFP_FL_MASK_REUSE_TIME_NS then (Inl ENOENT, priv)
            else (Inr temp_id, priv\<lparr> mask_ids := ids\<lparr> mask_id_free_list := ring \<rparr> \<rparr>))"

section \<open>Masks\<close>

text \<open>What an operation meets: the clock, and whether the entry can be allocated.\<close>

definition nfp_add_mask_table ::
  "(u8 list \<Rightarrow> u32 \<Rightarrow> u32) \<Rightarrow> int \<Rightarrow> bool \<Rightarrow> u8 list \<Rightarrow> nfp_flower_priv \<Rightarrow> u8 result \<times> nfp_flower_priv" where
  "nfp_add_mask_table jhash now alloc_ok data priv =
     (case nfp_mask_alloc now priv of
        (Inl _, priv) \<Rightarrow> (Inl ENOENT, priv)
      | (Inr mid, priv) \<Rightarrow>
          if \<not> alloc_ok then (Inl ENOMEM, snd (nfp_release_mask_id now mid priv))
          else
            (Inr mid, priv\<lparr> mask_table :=
               \<lparr> hash_key = jhash data (mask_id_seed priv), ref_cnt = 1, mask_id = mid \<rparr> # mask_table priv \<rparr>))"

definition nfp_search_mask_table ::
  "(u8 list \<Rightarrow> u32 \<Rightarrow> u32) \<Rightarrow> u8 list \<Rightarrow> nfp_flower_priv \<Rightarrow> nfp_mask_id_table option" where
  "nfp_search_mask_table jhash data priv = find (\<lambda>e. hash_key e = jhash data (mask_id_seed priv)) (mask_table priv)"

text \<open>The entry found is updated in place.\<close>

definition update_entry :: "u32 \<Rightarrow> (nfp_mask_id_table \<Rightarrow> nfp_mask_id_table) \<Rightarrow> nfp_mask_id_table list \<Rightarrow> nfp_mask_id_table list" where
  "update_entry key f es =
     (case List.extract (\<lambda>e. hash_key e = key) es of None \<Rightarrow> es | Some (xs, e, ys) \<Rightarrow> xs @ f e # ys)"

definition delete_entry :: "u32 \<Rightarrow> nfp_mask_id_table list \<Rightarrow> nfp_mask_id_table list" where
  "delete_entry key es =
     (case List.extract (\<lambda>e. hash_key e = key) es of None \<Rightarrow> es | Some (xs, e, ys) \<Rightarrow> xs @ ys)"

definition nfp_find_in_mask_table ::
  "(u8 list \<Rightarrow> u32 \<Rightarrow> u32) \<Rightarrow> u8 list \<Rightarrow> nfp_flower_priv \<Rightarrow> u8 result \<times> nfp_flower_priv" where
  "nfp_find_in_mask_table jhash data priv =
     (case nfp_search_mask_table jhash data priv of
        None \<Rightarrow> (Inl ENOENT, priv)
      | Some e \<Rightarrow>
          (Inr (mask_id e),
           priv\<lparr> mask_table := update_entry (hash_key e) (\<lambda>e. e\<lparr> ref_cnt := ref_cnt e + 1 \<rparr>) (mask_table priv) \<rparr>))"

text \<open>The result is the identifier, with whether the mask is new (\<open>NFP_FL_META_FLAG_MANAGE_MASK\<close>), or
  \<open>None\<close> for false.\<close>

definition nfp_check_mask_add ::
  "(u8 list \<Rightarrow> u32 \<Rightarrow> u32) \<Rightarrow> int \<Rightarrow> bool \<Rightarrow> u8 list \<Rightarrow> nfp_flower_priv \<Rightarrow> (u8 \<times> bool) option \<times> nfp_flower_priv" where
  "nfp_check_mask_add jhash now alloc_ok data priv =
     (case nfp_find_in_mask_table jhash data priv of
        (Inr mid, priv) \<Rightarrow> (Some (mid, False), priv)
      | (Inl _, priv) \<Rightarrow>
          (case nfp_add_mask_table jhash now alloc_ok data priv of
             (Inl _, priv) \<Rightarrow> (None, priv)
           | (Inr mid, priv) \<Rightarrow> (Some (mid, True), priv)))"

definition nfp_check_mask_remove ::
  "(u8 list \<Rightarrow> u32 \<Rightarrow> u32) \<Rightarrow> int \<Rightarrow> u8 list \<Rightarrow> nfp_flower_priv \<Rightarrow> (u8 \<times> bool) option \<times> nfp_flower_priv" where
  "nfp_check_mask_remove jhash now data priv =
     (case nfp_search_mask_table jhash data priv of
        None \<Rightarrow> (None, priv)
      | Some e \<Rightarrow>
          if ref_cnt e - 1 = 0
          then (Some (mask_id e, True),
                snd (nfp_release_mask_id now (mask_id e)
                       (priv\<lparr> mask_table := delete_entry (hash_key e) (mask_table priv) \<rparr>)))
          else (Some (mask_id e, False),
                priv\<lparr> mask_table := update_entry (hash_key e) (\<lambda>e. e\<lparr> ref_cnt := ref_cnt e - 1 \<rparr>) (mask_table priv) \<rparr>))"

section \<open>Flows\<close>

definition nfp_flower_search_fl_table :: "u64 \<Rightarrow> nat \<Rightarrow> nfp_flower_priv \<Rightarrow> nfp_fl_payload option" where
  "nfp_flower_search_fl_table cookie netdev priv =
     find (\<lambda>f. ingress_dev f = netdev \<and> tc_flower_cookie f = cookie) (flow_table priv)"

record compile_env =
  env_ctx_alloc :: bool
  env_insert :: bool
  env_mask_alloc :: bool
  env_now :: int
  env_jiffies :: u64

definition flow_mask :: "nfp_fl_payload \<Rightarrow> u8 list" where
  "flow_mask flow = take (unat (mask_len (meta flow))) (mask_data flow)"

text \<open>The error exits of \<open>nfp_compile_flow_metadata\<close>, from the last to the first label.\<close>

definition err_release_stats :: "u32 \<Rightarrow> nfp_flower_priv \<Rightarrow> nfp_flower_priv" where
  "err_release_stats stats_cxt priv = snd (nfp_release_stats_entry stats_cxt priv)"

definition err_remove_rhash :: "u32 \<Rightarrow> nfp_flower_priv \<Rightarrow> nfp_flower_priv" where
  "err_remove_rhash stats_cxt priv =
     err_release_stats stats_cxt (priv\<lparr> stats_ctx_table := (stats_ctx_table priv)(stats_cxt := None) \<rparr>)"

definition err_remove_mask ::
  "(u8 list \<Rightarrow> u32 \<Rightarrow> u32) \<Rightarrow> int \<Rightarrow> nfp_fl_payload \<Rightarrow> u32 \<Rightarrow> nfp_flower_priv \<Rightarrow> nfp_flower_priv" where
  "err_remove_mask jhash now flow stats_cxt priv =
     err_remove_rhash stats_cxt
       (if pre_tun_dev flow then priv else snd (nfp_check_mask_remove jhash now (flow_mask flow) priv))"

definition nfp_compile_flow_metadata ::
  "(u8 list \<Rightarrow> u32 \<Rightarrow> u32) \<Rightarrow> compile_env \<Rightarrow> u32 \<Rightarrow> nfp_fl_payload \<Rightarrow> nat \<Rightarrow> nfp_flower_priv \<Rightarrow>
   unit result \<times> nfp_fl_payload \<times> nfp_flower_priv" where
  "nfp_compile_flow_metadata jhash env cookie flow netdev priv =
     (case nfp_get_stats_entry priv of
        (Inl err, priv) \<Rightarrow> (Inl err, flow, priv)
      | (Inr stats_cxt, priv) \<Rightarrow>
          let flow = flow\<lparr> meta := (meta flow)\<lparr> host_ctx_id := stats_cxt, host_cookie := ucast cookie \<rparr>,
                           ingress_dev := netdev \<rparr> in
          if \<not> env_ctx_alloc env then (Inl ENOMEM, flow, err_release_stats stats_cxt priv)
          else if \<not> env_insert env then (Inl ENOMEM, flow, err_release_stats stats_cxt priv)
          else
            let priv = priv\<lparr> stats_ctx_table := (stats_ctx_table priv)(stats_cxt \<mapsto> tc_flower_cookie flow) \<rparr> in
            case (if pre_tun_dev flow then (Some (0, False), priv)
                  else nfp_check_mask_add jhash (env_now env) (env_mask_alloc env) (flow_mask flow) priv) of
              (None, priv) \<Rightarrow> (Inl ENOENT, flow, err_remove_rhash stats_cxt priv)
            | (Some (new_mask_id, is_new), priv) \<Rightarrow>
                let flow = flow\<lparr> meta := (meta flow)\<lparr>
                      meta_flags := if is_new then meta_flags (meta flow) OR NFP_FL_META_FLAG_MANAGE_MASK
                                    else meta_flags (meta flow),
                      flow_version := flower_version priv \<rparr>,
                      unmasked_data := (unmasked_data flow)[NFP_FL_MASK_ID_LOCATION := new_mask_id] \<rparr>;
                    priv = priv\<lparr> flower_version := flower_version priv + 1,
                      fl_stats := (fl_stats priv)(stats_cxt :=
                        \<lparr> stats_pkts = 0, stats_bytes = 0, stats_used = env_jiffies env \<rparr>) \<rparr> in
                if nfp_flower_search_fl_table (ucast cookie) netdev priv \<noteq> None
                then (Inl EEXIST, flow, err_remove_mask jhash (env_now env) flow stats_cxt priv)
                else (Inr (), flow, priv))"

definition nfp_modify_flow_metadata_meta :: "nfp_fl_payload \<Rightarrow> nfp_flower_priv \<Rightarrow> nfp_fl_payload \<times> nfp_flower_priv" where
  "nfp_modify_flow_metadata_meta flow priv =
     (flow\<lparr> meta := (meta flow)\<lparr> meta_flags := meta_flags (meta flow) AND NOT NFP_FL_META_FLAG_MANAGE_MASK,
                                 flow_version := flower_version priv \<rparr> \<rparr>,
      priv\<lparr> flower_version := flower_version priv + 1 \<rparr>)"

definition nfp_modify_flow_metadata ::
  "(u8 list \<Rightarrow> u32 \<Rightarrow> u32) \<Rightarrow> int \<Rightarrow> nfp_fl_payload \<Rightarrow> nfp_flower_priv \<Rightarrow>
   unit result \<times> nfp_fl_payload \<times> nfp_flower_priv" where
  "nfp_modify_flow_metadata jhash now flow priv =
     (case nfp_modify_flow_metadata_meta flow priv of
        (flow, priv) \<Rightarrow>
          case (if pre_tun_dev flow then (None, priv) else nfp_check_mask_remove jhash now (flow_mask flow) priv) of
            (r, priv) \<Rightarrow>
              let flow = flow\<lparr> meta := (meta flow)\<lparr>
                    meta_flags := (case r of Some (_, True) \<Rightarrow> meta_flags (meta flow) OR NFP_FL_META_FLAG_MANAGE_MASK
                                   | _ \<Rightarrow> meta_flags (meta flow)) \<rparr>,
                    unmasked_data := (unmasked_data flow)[NFP_FL_MASK_ID_LOCATION :=
                      (case r of Some (mid, _) \<Rightarrow> mid | None \<Rightarrow> 0)] \<rparr>;
                  temp_ctx_id = host_ctx_id (meta flow) in
              if stats_ctx_table priv temp_ctx_id = None then (Inl ENOENT, flow, priv)
              else
                case nfp_release_stats_entry temp_ctx_id
                       (priv\<lparr> stats_ctx_table := (stats_ctx_table priv)(temp_ctx_id := None) \<rparr>) of
                  (r, priv) \<Rightarrow> (r, flow, priv))"

definition nfp_flower_get_fl_payload_from_ctx :: "u32 \<Rightarrow> nfp_flower_priv \<Rightarrow> u64 option" where
  "nfp_flower_get_fl_payload_from_ctx ctx_id priv = stats_ctx_table priv ctx_id"

section \<open>Initialisation\<close>

text \<open>The identifier pools as \<open>nfp_flower_metadata_init\<close> leaves them; the contents of fresh memory are
  arguments.\<close>

definition nfp_flower_metadata_init ::
  "u8 list \<Rightarrow> u32 list \<Rightarrow> (u8 \<Rightarrow> int) \<Rightarrow> (u32 \<Rightarrow> nfp_fl_stats) \<Rightarrow> u32 \<Rightarrow> u64 \<Rightarrow> u32 \<Rightarrow> nfp_flower_priv \<Rightarrow> nfp_flower_priv" where
  "nfp_flower_metadata_init mask_buf stats_buf stamps stats seed host_ctx_count host_num_mems priv =
     priv\<lparr> mask_table := [], flow_table := [], stats_ctx_table := Map.empty, mask_id_seed := seed,
           mask_ids := \<lparr> mask_id_free_list = \<lparr> cb_buf = mask_buf, cb_head = 0, cb_tail = 0 \<rparr>, last_used = stamps,
                         init_unallocated = of_nat (NFP_FLOWER_MASK_ENTRY_RS - 1) \<rparr>,
           stats_ids := \<lparr> free_list = \<lparr> cb_buf = stats_buf, cb_head = 0, cb_tail = 0 \<rparr>,
                          init_unalloc = ucast (host_ctx_count div ucast host_num_mems) \<rparr>,
           fl_stats := stats,
           stats_size := unat (ucast (FIELD_PREP NFP_FL_STAT_ID_STAT host_ctx_count OR
                                      FIELD_PREP NFP_FL_STAT_ID_MU_NUM (ucast (host_num_mems - 1))) :: u32) \<rparr>"

section \<open>The pools\<close>

text \<open>The mask identifiers that can still be handed out: those never used, and those in the ring.\<close>

definition mask_ring :: "nfp_flower_priv \<Rightarrow> u8 circ_buf" where
  "mask_ring priv = mask_id_free_list (mask_ids priv)"

definition mask_avail :: "nfp_flower_priv \<Rightarrow> u8 multiset" where
  "mask_avail priv =
     mset (map of_nat [1..<unat (init_unallocated (mask_ids priv)) + 1]) + mset (ring_content (2 ^ 8) (mask_ring priv))"

definition mask_ok :: "nfp_flower_priv \<Rightarrow> bool" where
  "mask_ok priv \<longleftrightarrow> ring_ok (2 ^ 8) (mask_ring priv)"

text \<open>Likewise for the statistics contexts: \<open>n\<close> numbers for each of \<open>T\<close> memory units are unused, except
  that the units below \<open>a\<close> have used their last one.\<close>

definition stats_ring :: "nfp_flower_priv \<Rightarrow> u32 circ_buf" where
  "stats_ring priv = free_list (stats_ids priv)"

definition unit_ids :: "nat \<Rightarrow> nat \<Rightarrow> nat \<Rightarrow> u32 list" where
  "unit_ids T a n = map (\<lambda>mu. stats_id (of_nat n) (of_nat mu)) [a..<T]"

definition fresh_ids :: "nat \<Rightarrow> nat \<Rightarrow> nat \<Rightarrow> u32 list" where
  "fresh_ids T a n = (if n = 0 then [] else concat (map (unit_ids T 0) [0..<n - 1]) @ unit_ids T a (n - 1))"

definition stats_avail :: "nat \<Rightarrow> nfp_flower_priv \<Rightarrow> u32 multiset" where
  "stats_avail k priv =
     mset (fresh_ids (unat (total_mem_units priv)) (unat (active_mem_unit priv)) (unat (init_unalloc (stats_ids priv)))) +
     mset (ring_content (2 ^ k) (stats_ring priv))"

definition stats_ok :: "nat \<Rightarrow> nfp_flower_priv \<Rightarrow> bool" where
  "stats_ok k priv \<longleftrightarrow> stats_ring_size priv = 2 ^ k \<and> ring_ok (2 ^ k) (stats_ring priv) \<and>
     active_mem_unit priv < total_mem_units priv"

lemma mask_ring_size: "NFP_FLOWER_MASK_ENTRY_RS = 2 ^ 8"
  by (simp add: NFP_FLOWER_MASK_ENTRY_RS_def)

lemma mask_alloc_takes:
  assumes "mask_ok priv" "nfp_mask_alloc now priv = (Inr x, priv')"
  shows "mask_ok priv' \<and> mask_avail priv = add_mset x (mask_avail priv')"
proof (cases "init_unallocated (mask_ids priv) > 0")
  case True
  let ?n = "init_unallocated (mask_ids priv)"
  have n: "unat ?n = Suc (unat (?n - 1))" using True by (simp add: unat_minus_one word_gt_0 unat_gt_0)
  have x: "x = ?n" "priv' = priv\<lparr> mask_ids := (mask_ids priv)\<lparr> init_unallocated := ?n - 1 \<rparr> \<rparr>"
    using assms(2) True by (auto simp: nfp_mask_alloc_def Let_def)
  have "mset (map of_nat [1..<unat ?n + 1]) = add_mset (of_nat (unat ?n)) (mset (map of_nat [1..<unat ?n]))"
    using n by (simp add: upt_Suc_append)
  then have "mset (map of_nat [1..<unat ?n + 1]) = add_mset ?n (mset (map of_nat [1..<unat (?n - 1) + 1]))"
    using n by simp
  then show ?thesis using assms(1) x by (simp add: mask_ok_def mask_avail_def mask_ring_def)
next
  case False
  let ?ring = "mask_ring priv" and ?f = "of_nat (NFP_FLOWER_MASK_ENTRY_RS - 1) :: u8"
  obtain ring where r: "ring_get (2 ^ 8) ?f ?ring = (Inr x, ring)"
    "priv' = priv\<lparr> mask_ids := (mask_ids priv)\<lparr> mask_id_free_list := ring \<rparr> \<rparr>"
    using assms(2) False
    by (auto simp: nfp_mask_alloc_def Let_def mask_ring_size mask_ring_def split: sum.splits prod.splits if_splits)
  have ok: "ring_ok (2 ^ 8) ?ring" using assms(1) by (simp add: mask_ok_def)
  obtain y ys where c: "ring_content (2 ^ 8) ?ring = y # ys"
    using ring.get_empty [OF ok, of ?f] r(1) by (cases "ring_content (2 ^ 8) ?ring") auto
  from ring.get_first [OF ok c, of ?f] r have "y = x" "ring_ok (2 ^ 8) ring" "ring_content (2 ^ 8) ring = ys" by auto
  with c r(2) False show ?thesis by (simp add: mask_ok_def mask_avail_def mask_ring_def)
qed

lemma mask_release:
  assumes "mask_ok priv" "nfp_release_mask_id now x priv = (r, priv')"
  shows "r = Inr () \<Longrightarrow> mask_ok priv' \<and> mask_avail priv' = add_mset x (mask_avail priv)"
    and "r = Inl err \<Longrightarrow> priv' = priv"
    and "size (mask_avail priv) < 255 \<Longrightarrow> r = Inr ()"
proof -
  let ?ring = "mask_ring priv"
  have ok: "ring_ok (2 ^ 8) ?ring" using assms(1) by (simp add: mask_ok_def)
  have room: "length (ring_content (2 ^ 8) ?ring) < 2 ^ 8 - 1 \<or> length (ring_content (2 ^ 8) ?ring) = 2 ^ 8 - 1"
    using ring.content_bound [OF ok] by linarith
  have "(r = Inr () \<longrightarrow> mask_ok priv' \<and> mask_avail priv' = add_mset x (mask_avail priv)) \<and>
    (\<forall>err. r = Inl err \<longrightarrow> priv' = priv) \<and> (size (mask_avail priv) < 255 \<longrightarrow> r = Inr ())"
    using room
  proof
    assume lt: "length (ring_content (2 ^ 8) ?ring) < 2 ^ 8 - 1"
    obtain ring where "ring_put (2 ^ 8) x ?ring = (Inr (), ring)" "ring_ok (2 ^ 8) ring"
      "ring_content (2 ^ 8) ring = ring_content (2 ^ 8) ?ring @ [x]"
      using ring.put_room [OF ok lt, of x] by blast
    with assms(2) show ?thesis
      by (auto simp: nfp_release_mask_id_def mask_ring_size mask_ring_def mask_ok_def mask_avail_def)
  next
    assume full: "length (ring_content (2 ^ 8) ?ring) = 2 ^ 8 - 1"
    have "ring_put (2 ^ 8) x ?ring = (Inl ENOBUFS, ?ring)" by (rule ring.put_full [OF ok full])
    with assms(2) full show ?thesis
      by (auto simp: nfp_release_mask_id_def mask_ring_size mask_ring_def mask_avail_def)
  qed
  then show "r = Inr () \<Longrightarrow> mask_ok priv' \<and> mask_avail priv' = add_mset x (mask_avail priv)"
    and "r = Inl err \<Longrightarrow> priv' = priv" and "size (mask_avail priv) < 255 \<Longrightarrow> r = Inr ()" by auto
qed

interpretation mask_pool: roomy_pool nfp_mask_alloc nfp_release_mask_id mask_avail mask_ok 255
proof
  show "s' = s" if "mask_ok s" "nfp_mask_alloc t s = (Inl e, s')" for s t e s'
    using that(2) by (auto simp: nfp_mask_alloc_def Let_def split: sum.splits prod.splits if_splits)
  show "s' = s" if "mask_ok s" "nfp_release_mask_id t x s = (Inl e, s')" for s t x e s'
    using mask_release(2) [OF that refl] .
  show "fst (nfp_release_mask_id t x s) = Inr ()" if "mask_ok s" "size (mask_avail s) < 255" for s t x
    using mask_release(3) [OF that(1) _ that(2)] by (metis prod.collapse)
qed (use mask_alloc_takes mask_release(1) in blast)+

lemma fresh_ids_all: "fresh_ids T 0 n = concat (map (unit_ids T 0) [0..<n])"
  by (cases n) (simp_all add: fresh_ids_def)

lemma unit_ids_Cons: "a < T \<Longrightarrow> unit_ids T a n = stats_id (of_nat n) (of_nat a) # unit_ids T (Suc a) n"
  by (simp add: unit_ids_def upt_conv_Cons)

lemma word_succ_nat: "(a :: u32) < b \<Longrightarrow> unat (a + 1) = unat a + 1"
proof -
  assume "a < b"
  moreover have "unat b < 2 ^ 32" using unsigned_less [of b] by simp
  ultimately have "unat a + 1 < 2 ^ 32" by (simp add: word_less_nat_alt)
  then show ?thesis by (simp add: unat_word_ariths)
qed

lemma stats_get_takes:
  assumes "stats_ok k priv" "nfp_get_stats_entry priv = (Inr x, priv')"
  shows "stats_ok k priv' \<and> stats_avail k priv = add_mset x (stats_avail k priv')"
proof (cases "init_unalloc (stats_ids priv) > 0")
  case True
  let ?n = "init_unalloc (stats_ids priv)" and ?a = "active_mem_unit priv" and ?T = "total_mem_units priv"
  have lt: "?a < ?T" using assms(1) by (simp add: stats_ok_def)
  have n: "unat ?n = Suc (unat (?n - 1))" using True by (simp add: unat_minus_one word_gt_0 unat_gt_0)
  have "unit_ids (unat ?T) (unat ?a) (unat (?n - 1)) =
      stats_id (?n - 1) ?a # unit_ids (unat ?T) (Suc (unat ?a)) (unat (?n - 1))"
    using unit_ids_Cons [of "unat ?a" "unat ?T"] lt by (simp add: word_less_nat_alt)
  then have fresh: "mset (fresh_ids (unat ?T) (unat ?a) (unat ?n)) = add_mset (stats_id (?n - 1) ?a)
      (mset (concat (map (unit_ids (unat ?T) 0) [0..<unat (?n - 1)]) @ unit_ids (unat ?T) (Suc (unat ?a)) (unat (?n - 1))))"
    using n by (simp add: fresh_ids_def)
  show ?thesis
  proof (cases "?a + 1 = ?T")
    case T: True
    have "unat ?T = Suc (unat ?a)" using word_succ_nat [OF lt] T by simp
    then have "mset (fresh_ids (unat ?T) (unat ?a) (unat ?n)) =
        add_mset (stats_id (?n - 1) ?a) (mset (fresh_ids (unat ?T) 0 (unat (?n - 1))))"
      unfolding fresh fresh_ids_all by (simp add: unit_ids_def)
    with assms True T show ?thesis
      by (auto simp: nfp_get_stats_entry_def Let_def stats_ok_def stats_avail_def stats_ring_def word_gt_0)
  next
    case F: False
    have s: "unat (?a + 1) = Suc (unat ?a)" using word_succ_nat [OF lt] by simp
    then have "?a + 1 < ?T" using lt F by (metis Suc_lessI word_less_nat_alt word_unat_eq_iff)
    moreover have "mset (fresh_ids (unat ?T) (unat ?a) (unat ?n)) =
        add_mset (stats_id (?n - 1) ?a) (mset (fresh_ids (unat ?T) (unat (?a + 1)) (unat ?n)))"
      unfolding fresh s using n by (simp add: fresh_ids_def)
    ultimately show ?thesis
      using assms True F by (auto simp: nfp_get_stats_entry_def Let_def stats_ok_def stats_avail_def stats_ring_def)
  qed
next
  case False
  let ?ring = "stats_ring priv" and ?f = "of_nat (2 ^ k) :: u32"
  have ok: "ring_ok (2 ^ k) ?ring" "stats_ring_size priv = 2 ^ k" using assms(1) by (simp_all add: stats_ok_def)
  obtain ring where r: "ring_get (2 ^ k) ?f ?ring = (Inr x, ring)"
    "priv' = priv\<lparr> stats_ids := (stats_ids priv)\<lparr> free_list := ring \<rparr> \<rparr>"
    using assms(2) False ok(2)
    by (auto simp: nfp_get_stats_entry_def Let_def stats_ring_def split: sum.splits prod.splits)
  obtain y ys where c: "ring_content (2 ^ k) ?ring = y # ys"
    using ring.get_empty [OF ok(1), of ?f] r(1) by (cases "ring_content (2 ^ k) ?ring") auto
  from ring.get_first [OF ok(1) c, of ?f] r have "y = x" "ring_ok (2 ^ k) ring" "ring_content (2 ^ k) ring = ys" by auto
  with c r(2) False assms(1) show ?thesis by (simp add: stats_ok_def stats_avail_def stats_ring_def)
qed

lemma stats_release:
  assumes "stats_ok k priv" "nfp_release_stats_entry x priv = (r, priv')"
  shows "r = Inr () \<Longrightarrow> stats_ok k priv' \<and> stats_avail k priv' = add_mset x (stats_avail k priv)"
    and "r = Inl err \<Longrightarrow> priv' = priv \<and> err = ENOBUFS"
    and "length (ring_content (2 ^ k) (stats_ring priv)) < 2 ^ k - 1 \<longleftrightarrow> r = Inr ()"
proof -
  let ?ring = "stats_ring priv"
  have ok: "ring_ok (2 ^ k) ?ring" "stats_ring_size priv = 2 ^ k" using assms(1) by (simp_all add: stats_ok_def)
  have room: "length (ring_content (2 ^ k) ?ring) < 2 ^ k - 1 \<or> length (ring_content (2 ^ k) ?ring) = 2 ^ k - 1"
    using ring.content_bound [OF ok(1)] by linarith
  have "(r = Inr () \<longrightarrow> stats_ok k priv' \<and> stats_avail k priv' = add_mset x (stats_avail k priv)) \<and>
    (\<forall>err. r = Inl err \<longrightarrow> priv' = priv \<and> err = ENOBUFS) \<and>
    (length (ring_content (2 ^ k) ?ring) < 2 ^ k - 1 \<longleftrightarrow> r = Inr ())"
    using room
  proof
    assume lt: "length (ring_content (2 ^ k) ?ring) < 2 ^ k - 1"
    obtain ring where "ring_put (2 ^ k) x ?ring = (Inr (), ring)" "ring_ok (2 ^ k) ring"
      "ring_content (2 ^ k) ring = ring_content (2 ^ k) ?ring @ [x]"
      using ring.put_room [OF ok(1) lt, of x] by blast
    with assms lt ok(2) show ?thesis
      by (auto simp: nfp_release_stats_entry_def stats_ring_def stats_ok_def stats_avail_def)
  next
    assume full: "length (ring_content (2 ^ k) ?ring) = 2 ^ k - 1"
    have "ring_put (2 ^ k) x ?ring = (Inl ENOBUFS, ?ring)" by (rule ring.put_full [OF ok(1) full])
    with assms full ok(2) show ?thesis
      by (auto simp: nfp_release_stats_entry_def stats_ring_def)
  qed
  then show "r = Inr () \<Longrightarrow> stats_ok k priv' \<and> stats_avail k priv' = add_mset x (stats_avail k priv)"
    and "r = Inl err \<Longrightarrow> priv' = priv \<and> err = ENOBUFS"
    and "length (ring_content (2 ^ k) (stats_ring priv)) < 2 ^ k - 1 \<longleftrightarrow> r = Inr ()" by auto
qed

interpretation stats_pool: roomy_pool "\<lambda>_ :: unit. nfp_get_stats_entry" "\<lambda>_ :: unit. nfp_release_stats_entry"
  "stats_avail k" "stats_ok k" "2 ^ k - 1" for k :: nat
proof
  show "s' = s" if "stats_ok k s" "nfp_get_stats_entry s = (Inl e, s')" for s e s'
    using that(2) by (auto simp: nfp_get_stats_entry_def Let_def split: sum.splits prod.splits if_splits)
  show "s' = s" if "stats_ok k s" "nfp_release_stats_entry x s = (Inl e, s')" for s x e s'
    using stats_release(2) [OF that refl] by simp
  show "fst (nfp_release_stats_entry x s) = Inr ()" if "stats_ok k s" "size (stats_avail k s) < 2 ^ k - 1" for s x
  proof -
    have "length (ring_content (2 ^ k) (stats_ring s)) < 2 ^ k - 1" using that(2) by (simp add: stats_avail_def)
    with stats_release(3) [OF that(1)] show ?thesis by (metis prod.collapse)
  qed
qed (use stats_get_takes stats_release(1) in blast)+

section \<open>Histories of the pools\<close>

text \<open>What the initialisation is called with: buffers of the right size, and contexts that fit the
  identifier fields.\<close>

definition init_ok :: "nat \<Rightarrow> u8 list \<Rightarrow> u32 list \<Rightarrow> u64 \<Rightarrow> u32 \<Rightarrow> nfp_flower_priv \<Rightarrow> bool" where
  "init_ok k mask_buf stats_buf host_ctx_count host_num_mems priv \<longleftrightarrow>
     length mask_buf = NFP_FLOWER_MASK_ENTRY_RS \<and> length stats_buf = 2 ^ k \<and> stats_ring_size priv = 2 ^ k \<and>
     unat host_ctx_count < 2 ^ 22 \<and> 0 < unat host_num_mems \<and> unat host_num_mems \<le> 2 ^ 9 \<and>
     total_mem_units priv = host_num_mems \<and> active_mem_unit priv = 0"

lemma ring_content_empty: "ring_content sz \<lparr> cb_buf = b, cb_head = 0, cb_tail = 0 \<rparr> = []"
  by (simp add: ring_content_def ring_count_def)

lemma init_mask:
  assumes "init_ok k mask_buf stats_buf host_ctx_count host_num_mems priv"
    and "priv0 = nfp_flower_metadata_init mask_buf stats_buf stamps stats seed host_ctx_count host_num_mems priv"
  shows "mask_ok priv0" "mask_avail priv0 = mset (map of_nat [1..<256])"
  using assms
  by (simp_all add: init_ok_def nfp_flower_metadata_init_def mask_ok_def mask_avail_def mask_ring_def ring_ok_def
      NFP_FLOWER_MASK_ENTRY_RS_def ring_content_empty)

lemma mask_ids_distinct: "distinct (map (of_nat :: nat \<Rightarrow> u8) [1..<256])"
  by (auto simp: distinct_map inj_on_def word_of_nat_eq_iff take_bit_nat_eq_self)

lemma mask_id_0: "(0 :: u8) \<notin> set (map of_nat [1..<256])"
  by (auto simp: word_of_nat_eq_0_iff elim!: dvdE)

text \<open>C16. In every history of allocations and releases of mask identifiers, at any times, the identifiers in
  use and the free ones together are 1 to 255, each once: none is handed out twice, none is lost, and a
  release never fails.\<close>

theorem mask_pool_exact:
  assumes "init_ok k mask_buf stats_buf host_ctx_count host_num_mems priv"
    and "priv0 = nfp_flower_metadata_init mask_buf stats_buf stamps stats seed host_ctx_count host_num_mems priv"
    and "pool_run nfp_mask_alloc nfp_release_mask_id priv0 priv1 used"
  shows "mask_avail priv1 + used = mset (map of_nat [1..<256]) \<and>
    (case nfp_mask_alloc now priv1 of (Inr x, _) \<Rightarrow> x \<notin># used \<and> x \<noteq> 0 | (Inl err, priv2) \<Rightarrow> err = ENOENT \<and> priv2 = priv1) \<and>
    (\<forall>x. x \<in># used \<longrightarrow> fst (nfp_release_mask_id now x priv1) = Inr ())"
proof -
  note init = init_mask [OF assms(1,2)]
  have ok: "mask_ok priv1" and all: "mask_avail priv1 + used = mset (map of_nat [1..<256])"
    using mask_pool.run_lossless [OF assms(3) init(1)] init(2) by simp_all
  have count: "count (mask_avail priv0) x \<le> 1" for x
    unfolding init(2) using mask_ids_distinct by (simp add: distinct_count_atmost_1)
  have rel: "fst (nfp_release_mask_id now x priv1) = Inr ()" if "x \<in># used" for x
  proof (rule mask_pool.release_room [OF ok])
    have "size (mask_avail priv1) + size used = 255" using arg_cong [OF all, of size] by simp
    moreover have "0 < size used" using that by (metis nonempty_has_size empty_not_add_mset multi_member_split)
    ultimately show "size (mask_avail priv1) < 255" by simp
  qed
  have "case nfp_mask_alloc now priv1 of (Inr x, _) \<Rightarrow> x \<notin># used \<and> x \<noteq> 0 | (Inl err, priv2) \<Rightarrow> err = ENOENT \<and> priv2 = priv1"
  proof (cases "nfp_mask_alloc now priv1")
    case (Pair r priv2)
    show ?thesis
    proof (cases r)
      case (Inl err)
      then show ?thesis using Pair
        by (auto simp: nfp_mask_alloc_def Let_def split: sum.splits prod.splits if_splits)
    next
      case (Inr x)
      have "x \<notin># used \<and> x \<in># mask_avail priv0"
        using mask_pool.alloc_unique [OF assms(3) init(1) count, of now x priv2] Pair Inr by simp
      then show ?thesis using Pair Inr mask_id_0 init(2) by auto
    qed
  qed
  with all rel show ?thesis by blast
qed

lemma stats_fields: "field_mask NFP_FL_STAT_ID_STAT 21 0" "field_mask NFP_FL_STAT_ID_MU_NUM 31 22"
  by (simp_all add: field_mask_def NFP_FL_STAT_ID_STAT_def NFP_FL_STAT_ID_MU_NUM_def)

text \<open>An identifier is the number in the low 22 bits and the memory unit above.\<close>

lemma stats_fields_value:
  assumes "unat s < 2 ^ 22" "unat m < 2 ^ 10"
  shows "unat (ucast (FIELD_PREP NFP_FL_STAT_ID_STAT s OR FIELD_PREP NFP_FL_STAT_ID_MU_NUM m) :: u32) = unat s + unat m * 2 ^ 22"
proof -
  have t: "take_bit 22 s = s" "take_bit 10 m = m"
    using assms by (simp_all add: word_unat_eq_iff unsigned_take_bit_eq take_bit_nat_eq_self)
  have "FIELD_PREP NFP_FL_STAT_ID_STAT s OR FIELD_PREP NFP_FL_STAT_ID_MU_NUM m = s OR push_bit 22 m"
    by (simp add: FIELD_PREP_mask [OF stats_fields(1)] FIELD_PREP_mask [OF stats_fields(2)] t)
  also have "\<dots> = s + push_bit 22 m"
  proof (rule disjunctive_add_eq_or [symmetric])
    have "s AND push_bit 22 m = take_bit 22 s AND push_bit 22 m" by (simp add: t)
    also have "\<dots> = 0" by (rule bit_word_eqI) (auto simp: bit_simps)
    finally show "s AND push_bit 22 m = 0" .
  qed
  also have "unat (s + push_bit 22 m) = unat s + unat m * 2 ^ 22"
    using assms by (simp add: push_bit_eq_mult unat_word_ariths)
  finally have "unat (FIELD_PREP NFP_FL_STAT_ID_STAT s OR FIELD_PREP NFP_FL_STAT_ID_MU_NUM m) = unat s + unat m * 2 ^ 22" .
  moreover have "unat s + unat m * 2 ^ 22 < 2 ^ 32" using assms by simp
  ultimately show ?thesis by (simp add: unsigned_ucast_eq take_bit_nat_eq_self)
qed

lemma stats_id_value:
  assumes "n < 2 ^ 22" "m < 2 ^ 10"
  shows "unat (stats_id (of_nat n) (of_nat m)) = n + m * 2 ^ 22"
proof -
  have u: "unat (ucast (of_nat n :: u32) :: u64) = n" "unat (ucast (of_nat m :: u32) :: u64) = m"
    using assms by (simp_all add: unsigned_ucast_eq unsigned_of_nat take_bit_nat_eq_self)
  show ?thesis unfolding stats_id_def by (subst stats_fields_value) (simp_all only: u assms)
qed

lemma fresh_ids_product:
  "fresh_ids T 0 n = map (\<lambda>(s, m). stats_id (of_nat s) (of_nat m)) (List.product [0..<n] [0..<T])"
proof -
  have "concat (map (unit_ids T 0) ns) = map (\<lambda>(s, m). stats_id (of_nat s) (of_nat m)) (List.product ns [0..<T])" for ns
    by (induction ns) (simp_all add: unit_ids_def)
  then show ?thesis by (simp add: fresh_ids_all)
qed

lemma fresh_ids_distinct:
  assumes "n \<le> 2 ^ 22" "T \<le> 2 ^ 10"
  shows "distinct (fresh_ids T 0 n)"
proof -
  have "inj_on (\<lambda>(s, m). stats_id (of_nat s) (of_nat m)) ({0..<n} \<times> {0..<T})"
  proof (rule inj_onI, clarsimp)
    fix s m s' m' assume b: "s < n" "m < T" "s' < n" "m' < T" and eq: "stats_id (of_nat s) (of_nat m) = stats_id (of_nat s') (of_nat m')"
    from arg_cong [OF eq, of unat] have e: "s + m * 2 ^ 22 = s' + m' * 2 ^ 22"
      using b assms by (simp add: stats_id_value)
    have "(s + m * 2 ^ 22) mod 2 ^ 22 = s" "(s' + m' * 2 ^ 22) mod 2 ^ 22 = s'" using b assms by simp_all
    with e show "s = s' \<and> m = m'" by auto
  qed
  then show ?thesis by (simp add: fresh_ids_product distinct_map distinct_product)
qed

lemma init_stats:
  assumes "init_ok k mask_buf stats_buf host_ctx_count host_num_mems priv"
    and "priv0 = nfp_flower_metadata_init mask_buf stats_buf stamps stats seed host_ctx_count host_num_mems priv"
  shows "stats_ok k priv0"
    and "stats_avail k priv0 = mset (fresh_ids (unat host_num_mems) 0 (unat host_ctx_count div unat host_num_mems))"
    and "stats_size priv0 = unat host_ctx_count + (unat host_num_mems - 1) * 2 ^ 22"
proof -
  have b: "unat host_ctx_count < 2 ^ 22" "0 < unat host_num_mems" "unat host_num_mems \<le> 2 ^ 9" using assms(1) by (simp_all add: init_ok_def)
  have m: "take_bit 64 (unat host_num_mems) = unat host_num_mems" using b(3) by (simp add: take_bit_nat_eq_self)
  have "unat host_ctx_count div unat host_num_mems < 2 ^ 32"
    using le_less_trans [OF div_le_dividend b(1)] by (rule less_trans) simp
  from take_bit_nat_eq_self [OF this] have "unat (ucast (host_ctx_count div ucast host_num_mems) :: u32) = unat host_ctx_count div unat host_num_mems"
    by (simp add: unsigned_ucast_eq unat_div m)
  then show "stats_avail k priv0 = mset (fresh_ids (unat host_num_mems) 0 (unat host_ctx_count div unat host_num_mems))"
    using assms by (simp add: init_ok_def nfp_flower_metadata_init_def stats_avail_def stats_ring_def ring_content_empty)
  show "stats_ok k priv0"
    using assms b(2) by (simp add: init_ok_def nfp_flower_metadata_init_def stats_ok_def stats_ring_def ring_ok_def word_less_nat_alt)
  have "unat (ucast (host_num_mems - 1) :: u64) = unat host_num_mems - 1"
    using b(2,3) by (simp add: unsigned_ucast_eq unat_minus_one unat_gt_0 take_bit_nat_eq_self)
  then show "stats_size priv0 = unat host_ctx_count + (unat host_num_mems - 1) * 2 ^ 22"
    using assms(2) b by (simp add: nfp_flower_metadata_init_def stats_fields_value)
qed

text \<open>In every history of the statistics contexts an identifier that is handed out is not in use and lies
  within the statistics array, whatever the firmware's number of contexts and memory units.\<close>

theorem stats_pool_unique:
  assumes "init_ok k mask_buf stats_buf host_ctx_count host_num_mems priv"
    and "priv0 = nfp_flower_metadata_init mask_buf stats_buf stamps stats seed host_ctx_count host_num_mems priv"
    and "pool_run (\<lambda>_ :: unit. nfp_get_stats_entry) (\<lambda>_ :: unit. nfp_release_stats_entry) priv0 priv1 used"
    and "nfp_get_stats_entry priv1 = (Inr x, priv2)"
  shows "x \<notin># used \<and> unat x < stats_size priv0"
proof -
  let ?c = "unat host_ctx_count" and ?m = "unat host_num_mems"
  note init = init_stats [OF assms(1,2)]
  have b: "?c < 2 ^ 22" "0 < ?m" "?m \<le> 2 ^ 9" using assms(1) by (simp_all add: init_ok_def)
  have lt: "?c div ?m < 2 ^ 22" by (rule le_less_trans [OF div_le_dividend b(1)])
  have "distinct (fresh_ids ?m 0 (?c div ?m))" using b lt by (intro fresh_ids_distinct) simp_all
  then have "count (stats_avail k priv0) y \<le> 1" for y by (simp add: init(2) distinct_count_atmost_1)
  from stats_pool.alloc_unique [OF assms(3) init(1) this assms(4)]
  have x: "x \<notin># used" "x \<in> set (fresh_ids ?m 0 (?c div ?m))" by (simp_all add: init(2))
  then obtain n m where nm: "n < ?c div ?m" "m < ?m" "x = stats_id (of_nat n) (of_nat m)"
    by (auto simp: fresh_ids_product)
  then have "unat x = n + m * 2 ^ 22" using b lt by (simp add: stats_id_value)
  moreover have "n < ?c" "m \<le> ?m - 1" using less_le_trans [OF nm(1) div_le_dividend] nm(2) by simp_all
  then have "n + m * 2 ^ 22 < ?c + (?m - 1) * 2 ^ 22" by (intro add_less_le_mono) simp_all
  ultimately show ?thesis using x(1) init(3) by simp
qed

text \<open>C39. When the number of contexts equals the ring size (the default is 2 ^ 17 for both), the release of
  the last one in use fails once all have been handed out, and the identifier is lost: a ring of 2 ^ k slots
  holds only 2 ^ k - 1.\<close>

theorem stats_last_release_fails:
  assumes "stats_ok k priv0" "size (stats_avail k priv0) = 2 ^ k"
    and "pool_run (\<lambda>_ :: unit. nfp_get_stats_entry) (\<lambda>_ :: unit. nfp_release_stats_entry) priv0 priv1 {#x#}"
    and "stats_avail k priv1 + {#x#} = stats_avail k priv0" "init_unalloc (stats_ids priv1) = 0"
  shows "nfp_release_stats_entry x priv1 = (Inl ENOBUFS, priv1)"
proof -
  have ok: "stats_ok k priv1" using stats_pool.run_conserves [OF assms(3,1)] by simp
  have "size (stats_avail k priv1) = 2 ^ k - 1" using arg_cong [OF assms(4), of size] assms(2) by simp
  then have "length (ring_content (2 ^ k) (stats_ring priv1)) = 2 ^ k - 1"
    using assms(5) by (simp add: stats_avail_def fresh_ids_def)
  then show ?thesis
    using stats_release(2,3) [OF ok, of x] by (cases "nfp_release_stats_entry x priv1"; cases "fst (nfp_release_stats_entry x priv1)") auto
qed

section \<open>Masks are shared by reference count\<close>

lemma find_append_first: "\<forall>x\<in>set xs. \<not> P x \<Longrightarrow> P y \<Longrightarrow> find P (xs @ y # ys) = Some y"
  by (induction xs) auto

lemma find_split:
  assumes "find P zs = Some y"
  obtains xs ys where "zs = xs @ y # ys" "\<forall>x\<in>set xs. \<not> P x" "P y"
proof -
  have "\<exists>xs ys. zs = xs @ y # ys \<and> (\<forall>x\<in>set xs. \<not> P x) \<and> P y"
    using assms
  proof (induction zs)
    case (Cons z zs)
    show ?case
    proof (cases "P z")
      case True
      with Cons.prems show ?thesis by (intro exI [of _ "[]"] exI [of _ zs]) simp
    next
      case False
      with Cons obtain xs ys where "zs = xs @ y # ys" "\<forall>x\<in>set xs. \<not> P x" "P y" by auto
      with False show ?thesis by (intro exI [of _ "z # xs"] exI [of _ ys]) simp
    qed
  qed simp
  with that show thesis by blast
qed

lemma update_first:
  "\<forall>x\<in>set xs. hash_key x \<noteq> key \<Longrightarrow> hash_key e = key \<Longrightarrow> update_entry key f (xs @ e # ys) = xs @ f e # ys"
  using extract_Some_iff [of "\<lambda>e. hash_key e = key" "xs @ e # ys" xs e ys] by (simp add: update_entry_def)

lemma delete_first:
  "\<forall>x\<in>set xs. hash_key x \<noteq> key \<Longrightarrow> hash_key e = key \<Longrightarrow> delete_entry key (xs @ e # ys) = xs @ ys"
  using extract_Some_iff [of "\<lambda>e. hash_key e = key" "xs @ e # ys" xs e ys] by (simp add: delete_entry_def)

text \<open>The well-formedness the mask operations keep: no entry without references, and room in the ring for
  the identifiers in use.\<close>

definition masks_wf :: "nfp_flower_priv \<Rightarrow> bool" where
  "masks_wf priv \<longleftrightarrow> mask_ok priv \<and> size (mask_avail priv) \<le> 255 \<and> (\<forall>e\<in>set (mask_table priv). ref_cnt e \<noteq> 0)"

definition masks_only :: "nfp_flower_priv \<Rightarrow> nfp_flower_priv \<Rightarrow> bool" where
  "masks_only priv priv' \<longleftrightarrow> (\<exists>ids tbl. priv' = priv\<lparr> mask_ids := ids, mask_table := tbl \<rparr>)"

lemma mask_alloc_only: "nfp_mask_alloc now priv = (r, priv') \<Longrightarrow> masks_only priv priv' \<and> mask_table priv' = mask_table priv"
  unfolding masks_only_def
  by (cases priv) (auto simp: nfp_mask_alloc_def Let_def split: sum.splits prod.splits if_splits)

lemma mask_release_only: "nfp_release_mask_id now x priv = (r, priv') \<Longrightarrow> masks_only priv priv' \<and> mask_table priv' = mask_table priv"
  unfolding masks_only_def
  by (cases priv) (auto simp: nfp_release_mask_id_def split: sum.splits prod.splits)

lemma masks_only_trans: "masks_only a b \<Longrightarrow> masks_only b c \<Longrightarrow> masks_only a c"
  unfolding masks_only_def by (cases a) auto

lemma masks_only_table: "masks_only a b \<Longrightarrow> masks_only a (b\<lparr> mask_table := t \<rparr>)"
  unfolding masks_only_def by (cases a) auto

lemma mask_alloc_release:
  assumes "masks_wf priv" "nfp_mask_alloc now priv = (Inr x, priv1)" "nfp_release_mask_id now' x priv1 = (r, priv2)"
  shows "mask_ok priv2 \<and> mask_avail priv2 = mask_avail priv"
proof -
  have a: "mask_ok priv1" "mask_avail priv = add_mset x (mask_avail priv1)"
    using mask_alloc_takes [OF _ assms(2)] assms(1) by (simp_all add: masks_wf_def)
  then have "size (mask_avail priv1) < 255" using assms(1) by (simp add: masks_wf_def)
  from mask_release(3) [OF a(1) assms(3) this] mask_release(1) [OF a(1) assms(3)] a(2) show ?thesis by simp
qed

text \<open>The outcomes of adding a mask: nothing changes, the entry of the mask gets one more reference, or
  a new entry has a fresh identifier.\<close>

lemma mask_add_cases:
  assumes "masks_wf priv" "nfp_check_mask_add jhash now alloc_ok data priv = (r, priv1)"
  defines "key \<equiv> jhash data (mask_id_seed priv)"
  shows "mask_ok priv1 \<and> masks_only priv priv1 \<and>
   (case r of
      None \<Rightarrow> mask_avail priv1 = mask_avail priv \<and> mask_table priv1 = mask_table priv
    | Some (i, False) \<Rightarrow> mask_avail priv1 = mask_avail priv \<and>
        (\<exists>xs e ys. mask_table priv = xs @ e # ys \<and> (\<forall>x\<in>set xs. hash_key x \<noteq> key) \<and> hash_key e = key \<and> mask_id e = i \<and>
           mask_table priv1 = xs @ e\<lparr> ref_cnt := ref_cnt e + 1 \<rparr> # ys)
    | Some (i, True) \<Rightarrow> mask_avail priv = add_mset i (mask_avail priv1) \<and>
        (\<forall>x\<in>set (mask_table priv). hash_key x \<noteq> key) \<and>
        mask_table priv1 = \<lparr> hash_key = key, ref_cnt = 1, mask_id = i \<rparr> # mask_table priv)"
proof (cases "nfp_search_mask_table jhash data priv")
  case (Some e)
  then obtain xs ys where t: "mask_table priv = xs @ e # ys" "\<forall>x\<in>set xs. hash_key x \<noteq> key" "hash_key e = key"
    unfolding nfp_search_mask_table_def key_def by (rule find_split) auto
  have r: "r = Some (mask_id e, False)"
    "priv1 = priv\<lparr> mask_table := xs @ e\<lparr> ref_cnt := ref_cnt e + 1 \<rparr> # ys \<rparr>"
    using assms(2) Some t by (auto simp: nfp_check_mask_add_def nfp_find_in_mask_table_def update_first)
  then have "masks_only priv priv1" unfolding masks_only_def by (cases priv) auto
  with r t assms(1) show ?thesis by (auto simp: masks_wf_def mask_ok_def mask_avail_def mask_ring_def)
next
  case None
  then have nk: "\<forall>x\<in>set (mask_table priv). hash_key x \<noteq> key"
    unfolding nfp_search_mask_table_def key_def by (simp add: find_None_iff)
  obtain r0 p0 where a: "nfp_mask_alloc now priv = (r0, p0)" by (cases "nfp_mask_alloc now priv")
  have add: "nfp_check_mask_add jhash now alloc_ok data priv =
      (case nfp_add_mask_table jhash now alloc_ok data priv of (Inl _, p) \<Rightarrow> (None, p) | (Inr i, p) \<Rightarrow> (Some (i, True), p))"
    using None by (simp add: nfp_check_mask_add_def nfp_find_in_mask_table_def)
  show ?thesis
  proof (cases r0)
    case (Inl err)
    with a mask_pool.alloc_fails [of priv now err p0] assms(1) have "p0 = priv" by (simp add: masks_wf_def)
    with Inl a assms(1,2) add show ?thesis
      by (auto simp: nfp_add_mask_table_def masks_wf_def masks_only_def intro!: exI [of _ "mask_ids priv"] exI [of _ "mask_table priv"])
  next
    case (Inr x)
    note only = mask_alloc_only [OF a]
    show ?thesis
    proof (cases alloc_ok)
      case True
      have seed: "mask_id_seed p0 = mask_id_seed priv" using only by (auto simp: masks_only_def)
      have "r = Some (x, True)" "priv1 = p0\<lparr> mask_table := \<lparr> hash_key = key, ref_cnt = 1, mask_id = x \<rparr> # mask_table priv \<rparr>"
        using assms(2) add True Inr a only seed by (auto simp: nfp_add_mask_table_def key_def)
      with mask_alloc_takes [of priv now x p0] a Inr assms(1) nk masks_only_table [of priv p0] only show ?thesis
        by (simp add: masks_wf_def mask_ok_def mask_avail_def mask_ring_def)
    next
      case False
      obtain r2 p2 where rel: "nfp_release_mask_id now x p0 = (r2, p2)" by (cases "nfp_release_mask_id now x p0")
      have "r = None" "priv1 = p2" using assms(2) add False Inr a rel by (auto simp: nfp_add_mask_table_def)
      moreover have "mask_ok p2 \<and> mask_avail p2 = mask_avail priv" using mask_alloc_release [OF assms(1) _ rel] a Inr by simp
      ultimately show ?thesis
        using only mask_release_only [OF rel] masks_only_trans [of priv p0 p2] by simp
    qed
  qed
qed

lemma u32_succ_pred: "(x :: u32) + 1 - 1 = x"
  by simp

lemma mask_add_remove:
  assumes "masks_wf priv" "nfp_check_mask_add jhash now alloc_ok data priv = (Some (i, new), priv1)"
    and "mask_ids p = mask_ids priv1" "mask_table p = mask_table priv1" "mask_id_seed p = mask_id_seed priv"
    and "nfp_check_mask_remove jhash now' data p = (r, p')"
  shows "r = Some (i, new) \<and> mask_table p' = mask_table priv \<and> mask_avail p' = mask_avail priv \<and> mask_ok p' \<and> masks_only p p'"
proof -
  let ?key = "jhash data (mask_id_seed priv)"
  note add = mask_add_cases [OF assms(1,2)]
  have p: "mask_ok p" "mask_avail p = mask_avail priv1"
    using add assms(3) by (simp_all add: mask_ok_def mask_avail_def mask_ring_def)
  show ?thesis
  proof (cases new)
    case False
    with add obtain xs e ys where t: "mask_table priv = xs @ e # ys" "\<forall>x\<in>set xs. hash_key x \<noteq> ?key" "hash_key e = ?key"
      "mask_id e = i" "mask_table priv1 = xs @ e\<lparr> ref_cnt := ref_cnt e + 1 \<rparr> # ys" by auto
    have ref: "ref_cnt e \<noteq> 0" using assms(1) t(1) by (simp add: masks_wf_def)
    have "nfp_search_mask_table jhash data p = Some (e\<lparr> ref_cnt := ref_cnt e + 1 \<rparr>)"
      using t assms(4,5) by (simp add: nfp_search_mask_table_def find_append_first)
    then have "r = Some (i, False)" "p' = p\<lparr> mask_table := mask_table priv \<rparr>"
      using assms(4,6) t ref u32_succ_pred [of "ref_cnt e"]
      by (auto simp: nfp_check_mask_remove_def update_first [of xs ?key])
    moreover have "masks_only p (p\<lparr> mask_table := mask_table priv \<rparr>)" unfolding masks_only_def by (cases p) auto
    ultimately show ?thesis using add p False by (simp add: mask_ok_def mask_avail_def mask_ring_def)
  next
    case True
    let ?e = "\<lparr> hash_key = ?key, ref_cnt = 1, mask_id = i \<rparr>" and ?q = "p\<lparr> mask_table := mask_table priv \<rparr>"
    have t: "mask_table p = ?e # mask_table priv" "mask_avail priv = add_mset i (mask_avail priv1)"
      using add True assms(4) by simp_all
    have "nfp_search_mask_table jhash data p = Some ?e" using t(1) assms(5) by (simp add: nfp_search_mask_table_def)
    moreover have "delete_entry ?key (?e # mask_table priv) = mask_table priv" using delete_first [of "[]" ?key ?e] by simp
    ultimately have r: "r = Some (i, True)" "nfp_release_mask_id now' i ?q = (fst (nfp_release_mask_id now' i ?q), p')"
      using assms(6) t(1) by (auto simp: nfp_check_mask_remove_def)
    have q: "mask_ok ?q" "mask_avail ?q = mask_avail priv1" using p by (simp_all add: mask_ok_def mask_avail_def mask_ring_def)
    have "size (mask_avail ?q) < 255" using q(2) t(2) assms(1) by (simp add: masks_wf_def)
    from mask_release(3) [OF q(1) r(2) this] mask_release(1) [OF q(1) r(2)] q(2) t(2)
    have "mask_ok p' \<and> mask_avail p' = mask_avail priv" by simp
    moreover have "masks_only p ?q" unfolding masks_only_def by (cases p) auto
    ultimately show ?thesis
      using r(1) True mask_release_only [OF r(2)] masks_only_trans [of p ?q p'] by simp
  qed
qed

section \<open>Offloading a flow\<close>

definition stats_same :: "nfp_flower_priv \<Rightarrow> nfp_flower_priv \<Rightarrow> bool" where
  "stats_same p q \<longleftrightarrow> stats_ids p = stats_ids q \<and> stats_ring_size p = stats_ring_size q \<and>
     active_mem_unit p = active_mem_unit q \<and> total_mem_units p = total_mem_units q"

lemma stats_same_avail: "stats_same p q \<Longrightarrow> stats_avail k p = stats_avail k q \<and> (stats_ok k p \<longleftrightarrow> stats_ok k q)"
  by (simp add: stats_same_def stats_avail_def stats_ok_def stats_ring_def)

lemma masks_only_frame:
  "masks_only p q \<Longrightarrow> stats_same q p \<and> stats_ctx_table q = stats_ctx_table p \<and> mask_id_seed q = mask_id_seed p \<and>
     flow_table q = flow_table p"
  by (auto simp: masks_only_def stats_same_def)

lemma get_stats_frame:
  "nfp_get_stats_entry priv = (r, priv1) \<Longrightarrow>
   mask_ids priv1 = mask_ids priv \<and> mask_table priv1 = mask_table priv \<and> mask_id_seed priv1 = mask_id_seed priv \<and>
   stats_ctx_table priv1 = stats_ctx_table priv \<and> flow_table priv1 = flow_table priv"
  by (auto simp: nfp_get_stats_entry_def Let_def split: sum.splits prod.splits if_splits)

lemma release_stats_frame:
  "nfp_release_stats_entry x priv = (r, priv1) \<Longrightarrow>
   mask_ids priv1 = mask_ids priv \<and> mask_table priv1 = mask_table priv \<and> mask_id_seed priv1 = mask_id_seed priv \<and>
   stats_ctx_table priv1 = stats_ctx_table priv \<and> flow_table priv1 = flow_table priv"
  by (auto simp: nfp_release_stats_entry_def split: sum.splits prod.splits)

lemma stats_get_release:
  assumes "stats_ok k priv" "size (stats_avail k priv) < 2 ^ k" "nfp_get_stats_entry priv = (Inr x, priv1)"
    and "stats_same p priv1" "nfp_release_stats_entry x p = (r, p')"
  shows "r = Inr () \<and> stats_ok k p' \<and> stats_avail k p' = stats_avail k priv"
proof -
  note get = stats_get_takes [OF assms(1,3)]
  have p: "stats_ok k p" "stats_avail k p = stats_avail k priv1" using stats_same_avail [OF assms(4)] get by simp_all
  have "size (stats_avail k p) < 2 ^ k - 1" using assms(2) get p(2) by simp
  then have "length (ring_content (2 ^ k) (stats_ring p)) < 2 ^ k - 1" by (simp add: stats_avail_def)
  then have "r = Inr ()" using stats_release(3) [OF p(1) assms(5)] by simp
  with stats_release(1) [OF p(1) assms(5)] p(2) get show ?thesis by simp
qed

text \<open>The state in which a flow can be offloaded and its resources taken back: the pools are well-formed and
  not all contexts are unused, and no unused context is in the table.\<close>

definition flows_wf :: "nat \<Rightarrow> nfp_flower_priv \<Rightarrow> bool" where
  "flows_wf k priv \<longleftrightarrow> masks_wf priv \<and> stats_ok k priv \<and> size (stats_avail k priv) < 2 ^ k \<and>
     (\<forall>x. x \<in># stats_avail k priv \<longrightarrow> stats_ctx_table priv x = None)"

text \<open>What a flow holds: contexts, mask identifiers, references to masks, and table entries.\<close>

definition same_resources :: "nat \<Rightarrow> nfp_flower_priv \<Rightarrow> nfp_flower_priv \<Rightarrow> bool" where
  "same_resources k p q \<longleftrightarrow> stats_avail k p = stats_avail k q \<and> mask_avail p = mask_avail q \<and>
     mask_table p = mask_table q \<and> stats_ctx_table p = stats_ctx_table q"

lemma masks_cong:
  "mask_ids p = mask_ids q \<Longrightarrow> mask_avail p = mask_avail q \<and> (mask_ok p \<longleftrightarrow> mask_ok q)"
  by (simp add: mask_avail_def mask_ok_def mask_ring_def)

lemma give_back:
  assumes "flows_wf k priv" "nfp_get_stats_entry priv = (Inr x, priv1)" "stats_same p priv1"
    and "mask_avail p = mask_avail priv" "mask_table p = mask_table priv"
  shows "stats_ctx_table p = stats_ctx_table priv \<Longrightarrow> same_resources k (err_release_stats x p) priv"
    and "stats_ctx_table p = (stats_ctx_table priv)(x \<mapsto> c) \<Longrightarrow> same_resources k (err_remove_rhash x p) priv"
proof -
  have wf: "stats_ok k priv" "size (stats_avail k priv) < 2 ^ k" using assms(1) by (simp_all add: flows_wf_def)
  have "x \<in># stats_avail k priv" using stats_get_takes [OF wf(1) assms(2)] by simp
  then have x: "stats_ctx_table priv x = None" using assms(1) by (simp add: flows_wf_def)
  have rel: "same_resources k (err_release_stats x q) priv"
    if "stats_same q priv1" "mask_avail q = mask_avail priv" "mask_table q = mask_table priv" "stats_ctx_table q = stats_ctx_table priv"
    for q
  proof -
    obtain r q' where q': "nfp_release_stats_entry x q = (r, q')" by (cases "nfp_release_stats_entry x q")
    from stats_get_release [OF wf assms(2) that(1) q'] release_stats_frame [OF q'] masks_cong [of q' q] that(2-4) q'
    show ?thesis by (simp add: same_resources_def err_release_stats_def)
  qed
  show "same_resources k (err_release_stats x p) priv" if "stats_ctx_table p = stats_ctx_table priv"
    using rel assms(3-5) that by blast
  show "same_resources k (err_remove_rhash x p) priv" if "stats_ctx_table p = (stats_ctx_table priv)(x \<mapsto> c)"
    unfolding err_remove_rhash_def
    by (rule rel) (use assms(3-5) that x in \<open>auto simp: stats_same_def mask_avail_def mask_ring_def\<close>)
qed

lemma ctx_update_frame:
  "stats_same (p\<lparr> stats_ctx_table := t \<rparr>) p" "mask_ids (p\<lparr> stats_ctx_table := t \<rparr>) = mask_ids p"
  by (simp_all add: stats_same_def)

lemma stats_same_trans: "stats_same p q \<Longrightarrow> stats_same q r \<Longrightarrow> stats_same p r"
  by (simp add: stats_same_def)

text \<open>The state after the context is taken and entered in the table, when the mask is added.\<close>

lemma after_mask_add:
  assumes "flows_wf k priv" "nfp_get_stats_entry priv = (Inr x, priv1)"
    and "nfp_check_mask_add jhash now alloc_ok data (priv1\<lparr> stats_ctx_table := t \<rparr>) = (r, priv2)"
  shows "masks_wf (priv1\<lparr> stats_ctx_table := t \<rparr>)" "stats_same priv2 priv1" "stats_ctx_table priv2 = t"
    "mask_id_seed priv2 = mask_id_seed priv" "flow_table priv2 = flow_table priv"
    "r = None \<Longrightarrow> mask_avail priv2 = mask_avail priv \<and> mask_table priv2 = mask_table priv"
proof -
  let ?q = "priv1\<lparr> stats_ctx_table := t \<rparr>"
  note g = get_stats_frame [OF assms(2)]
  have q: "mask_avail ?q = mask_avail priv" "mask_ok ?q = mask_ok priv"
    using masks_cong [of ?q priv] g by simp_all
  then show wf: "masks_wf ?q" using assms(1) g by (simp add: flows_wf_def masks_wf_def)
  note add = mask_add_cases [OF wf assms(3)]
  then have "masks_only ?q priv2" by simp
  from masks_only_frame [OF this] g
  show "stats_same priv2 priv1" "stats_ctx_table priv2 = t" "mask_id_seed priv2 = mask_id_seed priv" "flow_table priv2 = flow_table priv"
    by (simp_all add: stats_same_def)
  show "mask_avail priv2 = mask_avail priv \<and> mask_table priv2 = mask_table priv" if "r = None"
    using add that q g by simp
qed

lemma undo_mask:
  assumes "flows_wf k priv" "nfp_get_stats_entry priv = (Inr x, priv1)"
    and "nfp_check_mask_add jhash now alloc_ok data (priv1\<lparr> stats_ctx_table := t \<rparr>) = (Some (i, new), priv2)"
    and "mask_ids p = mask_ids priv2" "mask_table p = mask_table priv2" "mask_id_seed p = mask_id_seed priv2"
    and "stats_same p priv2" "stats_ctx_table p = t"
    and "nfp_check_mask_remove jhash now' data p = (r, p')"
  shows "stats_same p' priv1" "stats_ctx_table p' = t" "mask_avail p' = mask_avail priv" "mask_table p' = mask_table priv"
    "r = Some (i, new)"
proof -
  let ?q = "priv1\<lparr> stats_ctx_table := t \<rparr>"
  note g = get_stats_frame [OF assms(2)]
  note m = after_mask_add [OF assms(1-3)]
  have "mask_id_seed p = mask_id_seed ?q" using assms(6) m(4) g by simp
  note undo = mask_add_remove [OF m(1) assms(3,4,5) this assms(9)]
  then have "masks_only p p'" by simp
  from masks_only_frame [OF this] show "stats_same p' priv1" "stats_ctx_table p' = t"
    using m(2) assms(7,8) by (auto simp: stats_same_def)
  show "mask_avail p' = mask_avail priv" "mask_table p' = mask_table priv" "r = Some (i, new)"
    using undo masks_cong [of ?q priv] g by simp_all
qed

text \<open>The update of version and statistics when all resources are taken.\<close>

definition flow_added :: "compile_env \<Rightarrow> u32 \<Rightarrow> nfp_flower_priv \<Rightarrow> nfp_flower_priv" where
  "flow_added env x p = p\<lparr> flower_version := flower_version p + 1, fl_stats := (fl_stats p)(x :=
      \<lparr> stats_pkts = 0, stats_bytes = 0, stats_used = env_jiffies env \<rparr>) \<rparr>"

lemma flow_added_frame [simp]:
  "mask_ids (flow_added env x p) = mask_ids p" "mask_table (flow_added env x p) = mask_table p"
  "mask_id_seed (flow_added env x p) = mask_id_seed p" "stats_same (flow_added env x p) p"
  "stats_ctx_table (flow_added env x p) = stats_ctx_table p"
  by (simp_all add: flow_added_def stats_same_def)

text \<open>The state after a call that obtained a context, for each way it can end.\<close>

lemma compile_cases:
  assumes "nfp_get_stats_entry priv = (Inr x, priv1)"
    and "nfp_compile_flow_metadata jhash env cookie flow netdev priv = (r, flow', priv')"
  defines "q \<equiv> priv1\<lparr> stats_ctx_table := (stats_ctx_table priv1)(x \<mapsto> tc_flower_cookie flow) \<rparr>"
  defines "add \<equiv> nfp_check_mask_add jhash (env_now env) (env_mask_alloc env) (flow_mask flow) q"
  shows "\<not> (env_ctx_alloc env \<and> env_insert env) \<Longrightarrow> r \<noteq> Inr () \<and> priv' = err_release_stats x priv1"
    and "env_ctx_alloc env \<and> env_insert env \<Longrightarrow> pre_tun_dev flow \<Longrightarrow>
      priv' = (if r = Inr () then flow_added env x q else err_remove_rhash x (flow_added env x q))"
    and "env_ctx_alloc env \<and> env_insert env \<Longrightarrow> \<not> pre_tun_dev flow \<Longrightarrow> add = (None, priv2) \<Longrightarrow>
      r \<noteq> Inr () \<and> priv' = err_remove_rhash x priv2"
    and "env_ctx_alloc env \<and> env_insert env \<Longrightarrow> \<not> pre_tun_dev flow \<Longrightarrow> add = (Some (i, new), priv2) \<Longrightarrow>
      priv' = (if r = Inr () then flow_added env x priv2
               else err_remove_rhash x (snd (nfp_check_mask_remove jhash (env_now env) (flow_mask flow) (flow_added env x priv2))))"
  using assms(1,2) unfolding q_def add_def nfp_compile_flow_metadata_def flow_added_def
  by (auto simp: Let_def err_remove_mask_def flow_mask_def split: if_splits)

lemma compile_flow:
  assumes "nfp_get_stats_entry priv = (Inr x, priv1)"
    and "nfp_compile_flow_metadata jhash env cookie flow netdev priv = (Inr u, flow', priv')"
  shows "host_ctx_id (meta flow') = x" "flow_mask flow' = flow_mask flow" "pre_tun_dev flow' = pre_tun_dev flow"
  using assms unfolding nfp_compile_flow_metadata_def
  by (auto simp: Let_def flow_mask_def split: if_splits prod.splits option.splits)


lemma modify_releases:
  assumes "flows_wf k priv" "nfp_get_stats_entry priv = (Inr x, priv1)" "host_ctx_id (meta flow) = x"
    and "(if pre_tun_dev flow then (None, p) else nfp_check_mask_remove jhash now (flow_mask flow) p) = (r, p1)"
    and "p = snd (nfp_modify_flow_metadata_meta flow priv')"
    and "stats_same p1 priv1" "mask_avail p1 = mask_avail priv" "mask_table p1 = mask_table priv"
    and "stats_ctx_table p1 = (stats_ctx_table priv)(x \<mapsto> c)"
  shows "\<exists>flow'' priv''. nfp_modify_flow_metadata jhash now flow priv' = (Inr (), flow'', priv'') \<and> same_resources k priv'' priv"
proof -
  let ?p2 = "p1\<lparr> stats_ctx_table := (stats_ctx_table p1)(x := None) \<rparr>"
  have wf: "stats_ok k priv" "size (stats_avail k priv) < 2 ^ k" using assms(1) by (simp_all add: flows_wf_def)
  obtain r2 p3 where rel: "nfp_release_stats_entry x ?p2 = (r2, p3)" by (meson surj_pair)
  have "stats_same ?p2 priv1" using assms(6) by (simp add: stats_same_def)
  then have "r2 = Inr ()" using stats_get_release [OF wf assms(2) _ rel] by simp
  moreover have "same_resources k p3 priv"
    using give_back(2) [OF assms(1,2,6-9)] rel by (simp add: err_remove_rhash_def err_release_stats_def)
  moreover obtain f0 where f0: "nfp_modify_flow_metadata_meta flow priv' = (f0, p)"
    using assms(5) by (cases "nfp_modify_flow_metadata_meta flow priv'") auto
  then have flow0: "flow_mask f0 = flow_mask flow" "pre_tun_dev f0 = pre_tun_dev flow" "host_ctx_id (meta f0) = x"
    using assms(3) by (auto simp: nfp_modify_flow_metadata_meta_def flow_mask_def)
  have "(if pre_tun_dev f0 then (None, p) else nfp_check_mask_remove jhash now (flow_mask f0) p) = (r, p1)"
    unfolding flow0 by (rule assms(4))
  then have "\<exists>flow''. nfp_modify_flow_metadata jhash now flow priv' = (r2, flow'', p3)"
    unfolding nfp_modify_flow_metadata_def f0 prod.case using assms(9) rel flow0(3) by (simp add: Let_def)
  ultimately show ?thesis by blast
qed


text \<open>The check for duplicates looks up the cookie truncated to 32 bits: flows whose cookie is a kernel
  address are never found.\<close>

lemma check_mask_add_flows: "flow_table (snd (nfp_check_mask_add jhash now alloc_ok data p)) = flow_table p"
proof (cases "nfp_search_mask_table jhash data p")
  case None
  obtain r0 p0 where a: "nfp_mask_alloc now p = (r0, p0)" by (meson surj_pair)
  have "flow_table p0 = flow_table p" using mask_alloc_only [OF a] masks_only_frame by blast
  moreover have "flow_table (snd (nfp_release_mask_id now x p0)) = flow_table p0" for x
    using mask_release_only [of now x p0] masks_only_frame by (metis prod.collapse)
  ultimately show ?thesis
    using None a by (cases r0) (auto simp: nfp_check_mask_add_def nfp_find_in_mask_table_def nfp_add_mask_table_def)
qed (simp add: nfp_check_mask_add_def nfp_find_in_mask_table_def)

lemma compile_misses_duplicates:
  assumes "\<forall>f\<in>set (flow_table priv). 2 ^ 32 \<le> unat (tc_flower_cookie f)"
  shows "fst (nfp_compile_flow_metadata jhash env cookie flow netdev priv) \<noteq> Inl EEXIST"
proof -
  have "unat cookie < 2 ^ 32" using unsigned_less [of cookie] by simp
  then have c: "unat (ucast cookie :: u64) < 2 ^ 32" by (simp add: unsigned_ucast_eq le_less_trans [OF take_bit_nat_less_eq_self])
  have none: "nfp_flower_search_fl_table (ucast cookie) netdev p = None" if "flow_table p = flow_table priv" for p
    unfolding nfp_flower_search_fl_table_def that find_None_iff using assms c by (metis not_le)
  obtain r priv1 where get: "nfp_get_stats_entry priv = (r, priv1)" by (meson surj_pair)
  have r: "r \<noteq> Inl EEXIST"
    using get by (auto simp: nfp_get_stats_entry_def ring_get_def Let_def split: if_splits)
  show ?thesis
  proof (cases r)
    case (Inl err)
    with r get show ?thesis by (simp add: nfp_compile_flow_metadata_def)
  next
    case (Inr x)
    let ?q = "priv1\<lparr> stats_ctx_table := (stats_ctx_table priv1)(x \<mapsto> tc_flower_cookie flow) \<rparr>"
    obtain ra p2 where add: "(if pre_tun_dev flow then (Some (0, False), ?q)
        else nfp_check_mask_add jhash (env_now env) (env_mask_alloc env) (flow_mask flow) ?q) = (ra, p2)" by (meson surj_pair)
    have "flow_table p2 = flow_table priv"
      using add get_stats_frame [OF get] check_mask_add_flows [of jhash "env_now env" "env_mask_alloc env" "flow_mask flow" ?q]
      by (cases "pre_tun_dev flow") auto
    then show ?thesis
      using add get Inr none
      by (cases "pre_tun_dev flow"; cases ra) (auto simp: nfp_compile_flow_metadata_def Let_def flow_mask_def)
  qed
qed

section \<open>Witnesses\<close>

text \<open>An empty state with a ring of four slots, for three contexts on one memory unit.\<close>

definition sample_stats :: nfp_fl_stats where "sample_stats = \<lparr> stats_pkts = 0, stats_bytes = 0, stats_used = 0 \<rparr>"

definition sample_priv :: "nat \<Rightarrow> nfp_flower_priv" where
  "sample_priv n = \<lparr> mask_id_seed = 0, flower_version = 0,
     stats_ids = \<lparr> free_list = \<lparr> cb_buf = [], cb_head = 0, cb_tail = 0 \<rparr>, init_unalloc = 0 \<rparr>,
     mask_ids = \<lparr> mask_id_free_list = \<lparr> cb_buf = [], cb_head = 0, cb_tail = 0 \<rparr>, last_used = (\<lambda>_. 0), init_unallocated = 0 \<rparr>,
     mask_table = [], stats_ring_size = n, active_mem_unit = 0, total_mem_units = 1, fl_stats = (\<lambda>_. sample_stats),
     stats_size = 0, stats_ctx_table = Map.empty, flow_table = [] \<rparr>"

definition sample_init :: "nat \<Rightarrow> u64 \<Rightarrow> nfp_flower_priv" where
  "sample_init k ctxs = nfp_flower_metadata_init (replicate 256 0) (replicate (2 ^ k) 0) (\<lambda>_. 0) (\<lambda>_. sample_stats) 0 ctxs 1
     (sample_priv (2 ^ k))"

lemma sample_init_ok: "unat ctxs < 2 ^ 22 \<Longrightarrow> init_ok k (replicate 256 0) (replicate (2 ^ k) 0) ctxs 1 (sample_priv (2 ^ k))"
  by (simp add: init_ok_def sample_priv_def NFP_FLOWER_MASK_ENTRY_RS_def)

theorem mask_pool_exact_witness:
  "\<exists>priv1. nfp_mask_alloc 0 (sample_init 2 3) = (Inr 255, priv1) \<and> fst (nfp_release_mask_id 1 255 priv1) = Inr ()"
proof -
  let ?p = "sample_init 2 3"
  obtain priv1 where a: "nfp_mask_alloc 0 ?p = (Inr 255, priv1)"
    by (simp add: nfp_mask_alloc_def sample_init_def nfp_flower_metadata_init_def NFP_FLOWER_MASK_ENTRY_RS_def)
  have "pool_run nfp_mask_alloc nfp_release_mask_id ?p priv1 {#255#}"
    by (rule run_alloc [where alloc = nfp_mask_alloc and t = 0, OF run_start a])
  from mask_pool_exact [OF sample_init_ok sample_init_def this, of 1] a show ?thesis by auto
qed

theorem stats_pool_unique_witness:
  "\<exists>priv1 priv2. nfp_get_stats_entry (sample_init 2 3) = (Inr 2, priv1) \<and> nfp_get_stats_entry priv1 = (Inr 1, priv2) \<and>
     unat (1 :: u32) < stats_size (sample_init 2 3)"
proof -
  let ?p = "sample_init 2 3"
  have ids: "stats_id 2 0 = 2" "stats_id 1 0 = 1" using stats_id_value [of 2 0] stats_id_value [of 1 0] by (simp_all add: word_unat_eq_iff)
  obtain priv1 where a: "nfp_get_stats_entry ?p = (Inr 2, priv1)" "priv1 = ?p\<lparr> stats_ids := (stats_ids ?p)\<lparr> init_unalloc := 2 \<rparr> \<rparr>"
    by (simp add: nfp_get_stats_entry_def sample_init_def sample_priv_def nfp_flower_metadata_init_def ids)
  obtain priv2 where b: "nfp_get_stats_entry priv1 = (Inr 1, priv2)"
    by (simp add: a(2) nfp_get_stats_entry_def sample_init_def sample_priv_def nfp_flower_metadata_init_def ids)
  have "pool_run (\<lambda>_ :: unit. nfp_get_stats_entry) (\<lambda>_ :: unit. nfp_release_stats_entry) ?p priv1 {#2#}"
    by (rule run_alloc [where alloc = "\<lambda>_ :: unit. nfp_get_stats_entry", OF run_start a(1)])
  from stats_pool_unique [OF sample_init_ok sample_init_def this b] a(1) b show ?thesis by auto
qed

text \<open>Two contexts in a ring of two slots: the second release fails.\<close>

theorem stats_last_release_fails_witness:
  "\<exists>p1 p2 p3. nfp_get_stats_entry (sample_init 1 2) = (Inr 1, p1) \<and> nfp_get_stats_entry p1 = (Inr 0, p2) \<and>
     nfp_release_stats_entry 1 p2 = (Inr (), p3) \<and> nfp_release_stats_entry 0 p3 = (Inl ENOBUFS, p3)"
proof -
  let ?p = "sample_init 1 2" and ?get = "\<lambda>_ :: unit. nfp_get_stats_entry" and ?rel = "\<lambda>_ :: unit. nfp_release_stats_entry"
  have ids: "stats_id 1 0 = 1" "stats_id 0 0 = 0" using stats_id_value [of 1 0] stats_id_value [of 0 0] by (simp_all add: word_unat_eq_iff)
  obtain p1 where g1: "nfp_get_stats_entry ?p = (Inr 1, p1)" "p1 = ?p\<lparr> stats_ids := (stats_ids ?p)\<lparr> init_unalloc := 1 \<rparr> \<rparr>"
    by (simp add: nfp_get_stats_entry_def sample_init_def sample_priv_def nfp_flower_metadata_init_def ids)
  obtain p2 where g2: "nfp_get_stats_entry p1 = (Inr 0, p2)" "p2 = ?p\<lparr> stats_ids := (stats_ids ?p)\<lparr> init_unalloc := 0 \<rparr> \<rparr>"
    by (simp add: g1(2) nfp_get_stats_entry_def sample_init_def sample_priv_def nfp_flower_metadata_init_def ids)
  obtain p3 where r: "nfp_release_stats_entry 1 p2 = (Inr (), p3)" "init_unalloc (stats_ids p3) = 0"
    by (simp add: g2(2) nfp_release_stats_entry_def sample_init_def sample_priv_def nfp_flower_metadata_init_def ring_put_def
      CIRC_SPACE_def)
  note init = init_stats [OF sample_init_ok sample_init_def, of 2 1, simplified]
  have ok: "stats_ok 1 ?p" "size (stats_avail 1 ?p) = 2 ^ 1"
    using init(1,2) by (simp_all add: fresh_ids_product)
  note t1 = stats_get_takes [OF ok(1) g1(1)]
  note t2 = stats_get_takes [OF t1 [THEN conjunct1] g2(1)]
  note t3 = stats_release(1) [OF t2 [THEN conjunct1] r(1) refl]
  have "pool_run ?get ?rel ?p p1 {#1#}" by (rule run_alloc [where alloc = ?get, OF run_start g1(1)])
  then have "pool_run ?get ?rel ?p p2 {#0, 1#}" by (rule run_alloc [where alloc = ?get]) (rule g2(1))
  then have "pool_run ?get ?rel ?p p2 (add_mset 1 {#0#})" by (simp add: add_mset_commute)
  then have "pool_run ?get ?rel ?p p3 {#0#}" by (rule run_release [where release = ?rel]) (rule r(1))
  moreover have "stats_avail 1 p3 + {#0#} = stats_avail 1 ?p" using t1 t2 t3 by simp
  ultimately have "nfp_release_stats_entry 0 p3 = (Inl ENOBUFS, p3)"
    by (rule stats_last_release_fails [OF ok _ _ r(2)])
  with g1(1) g2(1) r(1) show ?thesis by blast
qed

definition sample_flow :: nfp_fl_payload where
  "sample_flow = \<lparr> meta = \<lparr> mask_len = 2, meta_flags = 0, host_ctx_id = 0, host_cookie = 0, flow_version = 0 \<rparr>,
     tc_flower_cookie = 5, ingress_dev = 0, unmasked_data = [1, 2], mask_data = [0xff, 0xf0], pre_tun_dev = False \<rparr>"

definition sample_compile :: "bool \<Rightarrow> compile_env" where
  "sample_compile ok = \<lparr> env_ctx_alloc = True, env_insert = True, env_mask_alloc = ok, env_now = 0, env_jiffies = 0 \<rparr>"

lemma sample_flows_wf: "flows_wf 2 (sample_init 2 3)"
proof -
  note init = init_stats [OF sample_init_ok sample_init_def, of 3 2, simplified]
  note mask = init_mask [OF sample_init_ok sample_init_def, of 3 2, simplified]
  have "mask_table (sample_init 2 3) = []" "stats_ctx_table (sample_init 2 3) = Map.empty"
    by (simp_all add: sample_init_def nfp_flower_metadata_init_def)
  then show ?thesis using init mask by (simp add: flows_wf_def masks_wf_def fresh_ids_product)
qed



end
