(* ===== verification/NFP_Tlv.thy ===== *)
theory NFP_Tlv
  imports NFP_Bus
begin

text \<open>
  The capability list of a vNIC: \<^verbatim>\<open>src/nfp_net_ctrl.c\<close>, with the layout of \<^verbatim>\<open>src/nfp_net_ctrl.h\<close>, and
  the reader of the statistics area it announces (\<^verbatim>\<open>src/nfp_net_ethtool.c\<close>).  The control memory is the
  list of its bytes, a pointer into it an offset, and a read that leaves the mapping has no value, so
  that the parser and the reader are total only if no input makes them read outside of it.
\<close>

section \<open>The control memory\<close>

definition NFP_NET_CFG_BAR_SZ :: nat where
  "NFP_NET_CFG_BAR_SZ = 32 * 1024"

definition NFP_NET_CFG_TLV_BASE :: nat where
  "NFP_NET_CFG_TLV_BASE = 0x0058"

definition NFP_NET_CFG_MBOX_BASE :: nat where
  "NFP_NET_CFG_MBOX_BASE = 0x1800"

definition NFP_NET_CFG_MBOX_VAL_MAX_SZ :: nat where
  "NFP_NET_CFG_MBOX_VAL_MAX_SZ = 0x1F8"

definition NFP_NET_CFG_TLV_LENGTH_INC :: nat where
  "NFP_NET_CFG_TLV_LENGTH_INC = 4"

definition NFP_NET_CFG_TLV_HEADER_REQUIRED :: u64 where
  "NFP_NET_CFG_TLV_HEADER_REQUIRED = 0x80000000"

definition NFP_NET_CFG_TLV_HEADER_TYPE :: u64 where
  "NFP_NET_CFG_TLV_HEADER_TYPE = 0x7fff0000"

definition NFP_NET_CFG_TLV_HEADER_LENGTH :: u64 where
  "NFP_NET_CFG_TLV_HEADER_LENGTH = 0x0000ffff"

definition NFP_NET_CFG_TLV_TYPE_UNKNOWN :: nat where
  "NFP_NET_CFG_TLV_TYPE_UNKNOWN = 0"

definition NFP_NET_CFG_TLV_TYPE_RESERVED :: nat where
  "NFP_NET_CFG_TLV_TYPE_RESERVED = 1"

definition NFP_NET_CFG_TLV_TYPE_END :: nat where
  "NFP_NET_CFG_TLV_TYPE_END = 2"

definition NFP_NET_CFG_TLV_TYPE_ME_FREQ :: nat where
  "NFP_NET_CFG_TLV_TYPE_ME_FREQ = 3"

definition NFP_NET_CFG_TLV_TYPE_MBOX :: nat where
  "NFP_NET_CFG_TLV_TYPE_MBOX = 4"

definition NFP_NET_CFG_TLV_TYPE_EXPERIMENTAL0 :: nat where
  "NFP_NET_CFG_TLV_TYPE_EXPERIMENTAL0 = 5"

definition NFP_NET_CFG_TLV_TYPE_EXPERIMENTAL1 :: nat where
  "NFP_NET_CFG_TLV_TYPE_EXPERIMENTAL1 = 6"

definition NFP_NET_CFG_TLV_TYPE_REPR_CAP :: nat where
  "NFP_NET_CFG_TLV_TYPE_REPR_CAP = 7"

definition NFP_NET_CFG_TLV_TYPE_MBOX_CMSG_TYPES :: nat where
  "NFP_NET_CFG_TLV_TYPE_MBOX_CMSG_TYPES = 10"

definition NFP_NET_CFG_TLV_TYPE_CRYPTO_OPS :: nat where
  "NFP_NET_CFG_TLV_TYPE_CRYPTO_OPS = 11"

definition NFP_NET_CFG_TLV_TYPE_VNIC_STATS :: nat where
  "NFP_NET_CFG_TLV_TYPE_VNIC_STATS = 12"

definition NFP_NET_CFG_TLV_TYPE_CRYPTO_OPS_RX_SCAN :: nat where
  "NFP_NET_CFG_TLV_TYPE_CRYPTO_OPS_RX_SCAN = 13"

lemmas tlv_consts = NFP_NET_CFG_BAR_SZ_def NFP_NET_CFG_TLV_BASE_def NFP_NET_CFG_MBOX_BASE_def
  NFP_NET_CFG_MBOX_VAL_MAX_SZ_def NFP_NET_CFG_TLV_LENGTH_INC_def

lemmas tlv_types = NFP_NET_CFG_TLV_TYPE_UNKNOWN_def NFP_NET_CFG_TLV_TYPE_RESERVED_def
  NFP_NET_CFG_TLV_TYPE_END_def NFP_NET_CFG_TLV_TYPE_ME_FREQ_def NFP_NET_CFG_TLV_TYPE_MBOX_def
  NFP_NET_CFG_TLV_TYPE_EXPERIMENTAL0_def NFP_NET_CFG_TLV_TYPE_EXPERIMENTAL1_def
  NFP_NET_CFG_TLV_TYPE_REPR_CAP_def NFP_NET_CFG_TLV_TYPE_MBOX_CMSG_TYPES_def
  NFP_NET_CFG_TLV_TYPE_CRYPTO_OPS_def NFP_NET_CFG_TLV_TYPE_VNIC_STATS_def
  NFP_NET_CFG_TLV_TYPE_CRYPTO_OPS_RX_SCAN_def

definition readl :: "u8 list \<Rightarrow> nat \<Rightarrow> u32 option" where
  "readl mem off = (if off + 4 \<le> length mem then Some (get_unaligned_le32 (drop off mem)) else None)"

definition readq :: "u8 list \<Rightarrow> nat \<Rightarrow> u64 option" where
  "readq mem off = (if off + 8 \<le> length mem then Some (get_unaligned_le64 (drop off mem)) else None)"

section \<open>The parser\<close>

record nfp_net_tlv_caps =
  me_freq_mhz :: u32
  mbox_off :: nat
  mbox_len :: nat
  repr_cap :: u32
  mbox_cmsg_types :: u32
  crypto_ops :: u32
  crypto_enable_off :: nat
  vnic_stats_off :: nat
  vnic_stats_cnt :: nat
  tls_resync_ss :: bool

definition nfp_net_tlv_caps_reset :: nfp_net_tlv_caps where
  "nfp_net_tlv_caps_reset =
     \<lparr> me_freq_mhz = 1200, mbox_off = NFP_NET_CFG_MBOX_BASE, mbox_len = NFP_NET_CFG_MBOX_VAL_MAX_SZ,
       repr_cap = 0, mbox_cmsg_types = 0, crypto_ops = 0, crypto_enable_off = 0,
       vnic_stats_off = 0, vnic_stats_cnt = 0, tls_resync_ss = False \<rparr>"

text \<open>One entry of the list is read, rejected, or ends the list; \<open>data\<close> is the offset of its value.\<close>

datatype tlv_step = Break nfp_net_tlv_caps | Ret "unit result" nfp_net_tlv_caps

definition nfp_net_tls_parse_crypto_ops ::
  "u8 list \<Rightarrow> nfp_net_tlv_caps \<Rightarrow> nat \<Rightarrow> nat \<Rightarrow> bool \<Rightarrow> (bool \<times> nfp_net_tlv_caps) option" where
  "nfp_net_tls_parse_crypto_ops mem caps data len rx_stream_scan =
     (if tls_resync_ss caps \<and> \<not> rx_stream_scan then Some (True, caps)
      else if len < 32 then Some (False, caps)
      else
        case readl mem data of
          None \<Rightarrow> None
        | Some v \<Rightarrow> Some (True, caps\<lparr> crypto_ops := v, crypto_enable_off := data + 16,
                                     tls_resync_ss := rx_stream_scan \<rparr>))"

definition crypto_step :: "(bool \<times> nfp_net_tlv_caps) option \<Rightarrow> tlv_step option" where
  "crypto_step r = map_option (\<lambda>(ok, caps). if ok then Break caps else Ret (Inl EINVAL) caps) r"

definition tlv_switch :: "u8 list \<Rightarrow> u32 \<Rightarrow> nat \<Rightarrow> nat \<Rightarrow> nfp_net_tlv_caps \<Rightarrow> tlv_step option" where
  "tlv_switch mem hdr data len caps =
     (let type = unat (FIELD_GET NFP_NET_CFG_TLV_HEADER_TYPE (ucast hdr)) in
      if type = NFP_NET_CFG_TLV_TYPE_UNKNOWN then Some (Ret (Inl EINVAL) caps)
      else if type = NFP_NET_CFG_TLV_TYPE_RESERVED then Some (Break caps)
      else if type = NFP_NET_CFG_TLV_TYPE_END then
        Some (Ret (if len = 0 then Inr () else Inl EINVAL) caps)
      else if type = NFP_NET_CFG_TLV_TYPE_ME_FREQ then
        (if len \<noteq> 4 then Some (Ret (Inl EINVAL) caps)
         else map_option (\<lambda>v. Break (caps\<lparr> me_freq_mhz := v \<rparr>)) (readl mem data))
      else if type = NFP_NET_CFG_TLV_TYPE_MBOX then
        Some (Break (if len = 0 then caps\<lparr> mbox_off := 0, mbox_len := 0 \<rparr>
                     else caps\<lparr> mbox_off := data, mbox_len := len \<rparr>))
      else if type = NFP_NET_CFG_TLV_TYPE_EXPERIMENTAL0 \<or> type = NFP_NET_CFG_TLV_TYPE_EXPERIMENTAL1 then
        Some (Break caps)
      else if type = NFP_NET_CFG_TLV_TYPE_REPR_CAP then
        (if len < 4 then Some (Ret (Inl EINVAL) caps)
         else map_option (\<lambda>v. Break (caps\<lparr> repr_cap := v \<rparr>)) (readl mem data))
      else if type = NFP_NET_CFG_TLV_TYPE_MBOX_CMSG_TYPES then
        (if len \<ge> 4 then map_option (\<lambda>v. Break (caps\<lparr> mbox_cmsg_types := v \<rparr>)) (readl mem data)
         else Some (Break caps))
      else if type = NFP_NET_CFG_TLV_TYPE_CRYPTO_OPS then
        crypto_step (nfp_net_tls_parse_crypto_ops mem caps data len False)
      else if type = NFP_NET_CFG_TLV_TYPE_VNIC_STATS then
        Some (Break (if data mod 8 \<noteq> 0 then caps
                     else caps\<lparr> vnic_stats_off := data, vnic_stats_cnt := len div 10 \<rparr>))
      else if type = NFP_NET_CFG_TLV_TYPE_CRYPTO_OPS_RX_SCAN then
        crypto_step (nfp_net_tls_parse_crypto_ops mem caps data len True)
      else if FIELD_GET NFP_NET_CFG_TLV_HEADER_REQUIRED (ucast hdr) = 0 then Some (Break caps)
      else Some (Ret (Inl EINVAL) caps))"

definition tlv_len :: "u32 \<Rightarrow> nat" where
  "tlv_len hdr = unat (FIELD_GET NFP_NET_CFG_TLV_HEADER_LENGTH (ucast hdr))"

function tlv_loop :: "u8 list \<Rightarrow> nat \<Rightarrow> nfp_net_tlv_caps \<Rightarrow> (unit result \<times> nfp_net_tlv_caps) option" where
  "tlv_loop mem data caps =
     (case readl mem data of
        None \<Rightarrow> None
      | Some hdr \<Rightarrow>
          let len = tlv_len hdr in
          if len mod NFP_NET_CFG_TLV_LENGTH_INC \<noteq> 0 then Some (Inl EINVAL, caps)
          else if data + 4 + len > NFP_NET_CFG_BAR_SZ then Some (Inl EINVAL, caps)
          else
            case tlv_switch mem hdr (data + 4) len caps of
              None \<Rightarrow> None
            | Some (Ret r caps) \<Rightarrow> Some (r, caps)
            | Some (Break caps) \<Rightarrow>
                if data + 4 + len + 4 > NFP_NET_CFG_BAR_SZ then Some (Inl EINVAL, caps)
                else tlv_loop mem (data + 4 + len) caps)"
  by pat_completeness auto

termination
  by (relation "measure (\<lambda>(mem, data, caps). NFP_NET_CFG_BAR_SZ - data)") auto

declare tlv_loop.simps [simp del]

definition nfp_net_tlv_caps_parse :: "u8 list \<Rightarrow> (unit result \<times> nfp_net_tlv_caps) option" where
  "nfp_net_tlv_caps_parse mem =
     (case readl mem NFP_NET_CFG_TLV_BASE of
        None \<Rightarrow> None
      | Some hdr \<Rightarrow>
          if hdr = 0 then Some (Inr (), nfp_net_tlv_caps_reset)
          else tlv_loop mem NFP_NET_CFG_TLV_BASE nfp_net_tlv_caps_reset)"

section \<open>The statistics the list announces\<close>

definition NFP_NET_CFG_TXR_STATS :: "nat \<Rightarrow> nat" where
  "NFP_NET_CFG_TXR_STATS i = 0x1000 + i * 0x10"

definition NFP_NET_CFG_RXR_STATS :: "nat \<Rightarrow> nat" where
  "NFP_NET_CFG_RXR_STATS i = 0x1400 + i * 0x10"

definition NFP_NET_TXR_MAX :: nat where
  "NFP_NET_TXR_MAX = 64"

definition roundup :: "nat \<Rightarrow> nat \<Rightarrow> nat" where
  "roundup x y = (x + (y - 1)) div y * y"

definition nfp_tlv_stat_names :: "string list" where
  "nfp_tlv_stat_names =
     [[],
      ''dev_rx_discards'', ''dev_rx_errors'', ''dev_rx_bytes'', ''dev_rx_uc_bytes'', ''dev_rx_mc_bytes'',
      ''dev_rx_bc_bytes'', ''dev_rx_pkts'', ''dev_rx_mc_pkts'', ''dev_rx_bc_pkts'',
      ''dev_tx_discards'', ''dev_tx_errors'', ''dev_tx_bytes'', ''dev_tx_uc_bytes'', ''dev_tx_mc_bytes'',
      ''dev_tx_bc_bytes'', ''dev_tx_pkts'', ''dev_tx_mc_pkts'', ''dev_tx_bc_pkts'']"

text \<open>The conversion \<open>%u\<close>.\<close>

fun decimal :: "nat \<Rightarrow> string" where
  "decimal n = (if n < 10 then [char_of (48 + n)] else decimal (n div 10) @ [char_of (48 + n mod 10)])"

declare decimal.simps [simp del]

definition nfp_vnic_get_tlv_stats_count :: "nat \<Rightarrow> nfp_net_tlv_caps \<Rightarrow> nat" where
  "nfp_vnic_get_tlv_stats_count max_r_vecs caps = vnic_stats_cnt caps + max_r_vecs * 4"

definition tlv_stat_name :: "nat \<Rightarrow> string" where
  "tlv_stat_name i =
     (if i < length nfp_tlv_stat_names \<and> nfp_tlv_stat_names ! i \<noteq> [] then nfp_tlv_stat_names ! i
      else ''dev_unknown_stat'' @ decimal i)"

text \<open>The loop over the statistics' identifiers: four of them are read at a time.\<close>

primrec tlv_stat_strings :: "u8 list \<Rightarrow> nat \<Rightarrow> nat \<Rightarrow> nat \<Rightarrow> u64 \<Rightarrow> string list option" where
  "tlv_stat_strings ctrl_bar mem i 0 id_word = Some []"
| "tlv_stat_strings ctrl_bar mem i (Suc n) id_word =
     (case (if i mod 4 = 0 then readq ctrl_bar (mem + i * 2) else Some id_word) of
        None \<Rightarrow> None
      | Some id_word \<Rightarrow>
          map_option ((#) (tlv_stat_name (unat (ucast id_word :: u16))))
            (tlv_stat_strings ctrl_bar mem (i + 1) n (drop_bit 16 id_word)))"


definition ring_stat_strings :: "nat \<Rightarrow> string list" where
  "ring_stat_strings i =
     [''rxq_'' @ decimal i @ ''_pkts'', ''rxq_'' @ decimal i @ ''_bytes'',
      ''txq_'' @ decimal i @ ''_pkts'', ''txq_'' @ decimal i @ ''_bytes'']"

definition nfp_vnic_get_tlv_stats_strings :: "u8 list \<Rightarrow> nat \<Rightarrow> nfp_net_tlv_caps \<Rightarrow> string list option" where
  "nfp_vnic_get_tlv_stats_strings ctrl_bar max_r_vecs caps =
     map_option (\<lambda>ss. ss @ concat (map ring_stat_strings [0..<max_r_vecs]))
       (tlv_stat_strings ctrl_bar (vnic_stats_off caps) 0 (vnic_stats_cnt caps) 0)"

primrec readqs :: "u8 list \<Rightarrow> nat list \<Rightarrow> u64 list option" where
  "readqs mem [] = Some []"
| "readqs mem (a # as) =
     (case readq mem a of None \<Rightarrow> None | Some v \<Rightarrow> map_option ((#) v) (readqs mem as))"

definition ring_stat_offs :: "nat \<Rightarrow> nat list" where
  "ring_stat_offs i = [NFP_NET_CFG_RXR_STATS i, NFP_NET_CFG_RXR_STATS i + 8,
                       NFP_NET_CFG_TXR_STATS i, NFP_NET_CFG_TXR_STATS i + 8]"

definition nfp_vnic_get_tlv_stats :: "u8 list \<Rightarrow> nat \<Rightarrow> nfp_net_tlv_caps \<Rightarrow> u64 list option" where
  "nfp_vnic_get_tlv_stats ctrl_bar max_r_vecs caps =
     (let mem = vnic_stats_off caps + roundup (2 * vnic_stats_cnt caps) 8 in
      readqs ctrl_bar (map (\<lambda>i. mem + i * 8) [0..<vnic_stats_cnt caps]
                       @ concat (map ring_stat_offs [0..<max_r_vecs])))"

section \<open>Bounds\<close>

text \<open>What the parser guarantees of the areas it reports.\<close>

definition caps_in_bar :: "nfp_net_tlv_caps \<Rightarrow> bool" where
  "caps_in_bar caps \<longleftrightarrow>
     mbox_off caps + mbox_len caps \<le> NFP_NET_CFG_BAR_SZ \<and>
     crypto_enable_off caps + 16 \<le> NFP_NET_CFG_BAR_SZ \<and>
     vnic_stats_off caps mod 8 = 0 \<and>
     vnic_stats_off caps + roundup (2 * vnic_stats_cnt caps) 8 + 8 * vnic_stats_cnt caps \<le> NFP_NET_CFG_BAR_SZ"

lemma readl_ok: "off + 4 \<le> length mem \<Longrightarrow> \<exists>v. readl mem off = Some v"
  by (simp add: readl_def)

lemma roundup8: "roundup x 8 = (x + 7) div 8 * 8"
  by (simp add: roundup_def)

text \<open>The padding between the identifiers and the counters can leave the entry, but not the memory:
  the header of the entry that follows makes up for it.\<close>

lemma stats_area:
  assumes "data mod 8 = 0" and "data + len + 4 \<le> 32768"
  shows "data + roundup (2 * (len div 10)) 8 + 8 * (len div 10) \<le> 32768"
proof -
  define c where "c = len div 10"
  define k where "k = (2 * c + 7) div 8"
  have c: "10 * c \<le> len" by (simp add: c_def)
  have k: "8 * k \<le> 2 * c + 7" by (simp add: k_def)
  obtain d where d: "data = 8 * d" using assms(1) by auto
  have "8 * (d + k + c) < 32768 + 8" using c k assms(2) d by (simp add: distrib_left)
  then have "d + k + c \<le> 4096" by simp
  then have "8 * (d + k + c) \<le> 32768" by simp
  then show ?thesis by (simp add: d roundup8 flip: c_def k_def)
qed

lemma caps_in_bar_reset: "caps_in_bar nfp_net_tlv_caps_reset"
  by (simp add: caps_in_bar_def nfp_net_tlv_caps_reset_def tlv_consts roundup8)

definition step_in_bar :: "bool \<Rightarrow> tlv_step option \<Rightarrow> bool" where
  "step_in_bar room s \<longleftrightarrow>
     (case s of None \<Rightarrow> False | Some (Ret r caps) \<Rightarrow> caps_in_bar caps | Some (Break caps) \<Rightarrow> room \<longrightarrow> caps_in_bar caps)"

lemma step_in_bar_simps [simp]:
  "step_in_bar room (Some (Ret r caps)) = caps_in_bar caps"
  "step_in_bar room (Some (Break caps)) = (room \<longrightarrow> caps_in_bar caps)"
  by (simp_all add: step_in_bar_def)

lemma step_in_bar_if:
  "(c \<Longrightarrow> step_in_bar room s) \<Longrightarrow> (\<not> c \<Longrightarrow> step_in_bar room t) \<Longrightarrow> step_in_bar room (if c then s else t)"
  by simp

lemma crypto_in_bar:
  assumes "length mem = NFP_NET_CFG_BAR_SZ" and "data + len \<le> NFP_NET_CFG_BAR_SZ" and "caps_in_bar caps"
  shows "step_in_bar room (crypto_step (nfp_net_tls_parse_crypto_ops mem caps data len b))"
proof (cases "len < 32")
  case False
  then obtain v where "readl mem data = Some v" using assms readl_ok [of data mem] by auto
  with assms False show ?thesis by (simp add: crypto_step_def nfp_net_tls_parse_crypto_ops_def caps_in_bar_def)
qed (simp add: assms crypto_step_def nfp_net_tls_parse_crypto_ops_def)

lemma tlv_switch_bounds:
  assumes mem: "length mem = NFP_NET_CFG_BAR_SZ" and len: "data + len \<le> NFP_NET_CFG_BAR_SZ"
    and inv: "caps_in_bar caps"
  shows "step_in_bar (data + len + 4 \<le> NFP_NET_CFG_BAR_SZ) (tlv_switch mem hdr data len caps)"
proof -
  have rd: "4 \<le> len \<Longrightarrow> (\<And>v. caps_in_bar (f v)) \<Longrightarrow> step_in_bar room (map_option (\<lambda>v. Break (f v)) (readl mem data))" for f room
    using mem len readl_ok [of data mem] by auto
  have s: "data mod 8 = 0 \<Longrightarrow> data + len + 4 \<le> NFP_NET_CFG_BAR_SZ \<Longrightarrow>
      caps_in_bar (caps\<lparr> vnic_stats_off := data, vnic_stats_cnt := len div 10 \<rparr>)"
    using stats_area [of data len] inv by (simp add: caps_in_bar_def tlv_consts)
  have upd: "caps_in_bar (caps\<lparr> me_freq_mhz := v \<rparr>)" "caps_in_bar (caps\<lparr> repr_cap := v \<rparr>)"
    "caps_in_bar (caps\<lparr> mbox_cmsg_types := v \<rparr>)" "caps_in_bar (caps\<lparr> mbox_off := data, mbox_len := len \<rparr>)"
    "caps_in_bar (caps\<lparr> mbox_off := 0, mbox_len := 0 \<rparr>)" for v
    using inv len by (auto simp: caps_in_bar_def)
  show ?thesis
    unfolding tlv_switch_def Let_def
    by (intro step_in_bar_if rd crypto_in_bar [OF mem len inv]) (auto simp: s upd inv)
qed

lemma tlv_loop_bounds:
  assumes "length mem = NFP_NET_CFG_BAR_SZ" and "data + 4 \<le> NFP_NET_CFG_BAR_SZ" and "caps_in_bar caps"
  shows "\<exists>r caps'. tlv_loop mem data caps = Some (r, caps') \<and> (r = Inr () \<longrightarrow> caps_in_bar caps')"
  using assms
proof (induction mem data caps rule: tlv_loop.induct)
  case (1 mem data caps)
  obtain hdr where hdr: "readl mem data = Some hdr" using 1 readl_ok [of data mem] by auto
  define bad where "bad \<longleftrightarrow> tlv_len hdr mod NFP_NET_CFG_TLV_LENGTH_INC \<noteq> 0 \<or> data + 4 + tlv_len hdr > NFP_NET_CFG_BAR_SZ"
  show ?case
  proof (cases bad)
    case True
    then show ?thesis by (auto simp: tlv_loop.simps [of mem data] hdr bad_def Let_def)
  next
    case False
    then have "step_in_bar (data + 4 + tlv_len hdr + 4 \<le> NFP_NET_CFG_BAR_SZ) (tlv_switch mem hdr (data + 4) (tlv_len hdr) caps)"
      using tlv_switch_bounds [of mem "data + 4" "tlv_len hdr" caps hdr] "1.prems" by (simp add: bad_def)
    then consider r c where "tlv_switch mem hdr (data + 4) (tlv_len hdr) caps = Some (Ret r c)" "caps_in_bar c"
      | c where "tlv_switch mem hdr (data + 4) (tlv_len hdr) caps = Some (Break c)"
          "data + 4 + tlv_len hdr + 4 \<le> NFP_NET_CFG_BAR_SZ \<longrightarrow> caps_in_bar c"
      by (auto simp: step_in_bar_def split: option.splits tlv_step.splits)
    then show ?thesis
    proof cases
      case ret: 1
      with False show ?thesis by (simp add: tlv_loop.simps [of mem data] hdr bad_def Let_def)
    next
      case brk: 2
      with False "1.IH" [OF hdr refl _ _ brk(1) refl] "1.prems" show ?thesis
        by (auto simp: tlv_loop.simps [of mem data] hdr bad_def Let_def)
    qed
  qed
qed

lemma parse_bounds:
  assumes "length mem = NFP_NET_CFG_BAR_SZ"
  shows "\<exists>r caps. nfp_net_tlv_caps_parse mem = Some (r, caps) \<and> (r = Inr () \<longrightarrow> caps_in_bar caps)"
  using assms tlv_loop_bounds [of mem NFP_NET_CFG_TLV_BASE nfp_net_tlv_caps_reset]
    readl_ok [of NFP_NET_CFG_TLV_BASE mem] caps_in_bar_reset
  by (auto simp: nfp_net_tlv_caps_parse_def tlv_consts)


lemma readq_ok: "off + 8 \<le> length mem \<Longrightarrow> \<exists>v. readq mem off = Some v"
  by (simp add: readq_def)

lemma readqs_ok: "\<forall>a\<in>set as. a + 8 \<le> length mem \<Longrightarrow> \<exists>vs. readqs mem as = Some vs \<and> length vs = length as"
proof (induction as)
  case (Cons a as)
  then obtain v vs where "readq mem a = Some v" "readqs mem as = Some vs" "length vs = length as"
    using readq_ok [of a mem] by auto
  then show ?case by simp
qed simp

lemma tlv_stat_strings_ok:
  "mem + roundup (2 * (i + n)) 8 \<le> length ctrl_bar \<Longrightarrow>
   \<exists>ss. tlv_stat_strings ctrl_bar mem i n w = Some ss \<and> length ss = n"
proof (induction n arbitrary: i w)
  case (Suc n)
  have "mem + i * 2 + 8 \<le> length ctrl_bar" if "i mod 4 = 0"
  proof -
    obtain q where q: "i = 4 * q" using \<open>i mod 4 = 0\<close> by auto
    have "q + 1 \<le> (2 * (i + Suc n) + 7) div 8" by (simp add: q)
    then have "8 * (q + 1) \<le> roundup (2 * (i + Suc n)) 8" by (simp add: roundup8)
    with Suc.prems show ?thesis by (simp add: q)
  qed
  then obtain v where v: "(if i mod 4 = 0 then readq ctrl_bar (mem + i * 2) else Some w) = Some v"
    using readq_ok [of "mem + i * 2" ctrl_bar] by (cases "i mod 4 = 0") auto
  obtain ss where "tlv_stat_strings ctrl_bar mem (i + 1) n (drop_bit 16 v) = Some ss" "length ss = n"
    using Suc.IH [of "i + 1" "drop_bit 16 v"] Suc.prems by auto
  with v show ?case by (simp only: tlv_stat_strings.simps option.case option.map) simp
qed simp

lemma length_concat_const: "(\<And>x. length (f x) = k) \<Longrightarrow> length (concat (map f xs)) = length xs * k"
  by (induction xs) simp_all

lemma tlv_stats_ok:
  assumes mem: "length mem = NFP_NET_CFG_BAR_SZ" and caps: "caps_in_bar caps" and vecs: "max_r_vecs \<le> NFP_NET_TXR_MAX"
  shows "\<exists>ss. nfp_vnic_get_tlv_stats_strings mem max_r_vecs caps = Some ss \<and>
      length ss = nfp_vnic_get_tlv_stats_count max_r_vecs caps"
    and "\<exists>vs. nfp_vnic_get_tlv_stats mem max_r_vecs caps = Some vs \<and>
      length vs = nfp_vnic_get_tlv_stats_count max_r_vecs caps"
proof -
  have "vnic_stats_off caps + roundup (2 * (0 + vnic_stats_cnt caps)) 8 \<le> length mem"
    using caps mem by (simp add: caps_in_bar_def)
  from tlv_stat_strings_ok [OF this, of 0] obtain ss where
    "tlv_stat_strings mem (vnic_stats_off caps) 0 (vnic_stats_cnt caps) 0 = Some ss" "length ss = vnic_stats_cnt caps"
    by blast
  then show "\<exists>ss. nfp_vnic_get_tlv_stats_strings mem max_r_vecs caps = Some ss \<and>
      length ss = nfp_vnic_get_tlv_stats_count max_r_vecs caps"
    by (simp add: nfp_vnic_get_tlv_stats_strings_def nfp_vnic_get_tlv_stats_count_def
        length_concat_const [of ring_stat_strings 4] ring_stat_strings_def)
  define base where "base = vnic_stats_off caps + roundup (2 * vnic_stats_cnt caps) 8"
  define as where "as = map (\<lambda>i. base + i * 8) [0..<vnic_stats_cnt caps] @ concat (map ring_stat_offs [0..<max_r_vecs])"
  have "\<forall>a\<in>set as. a + 8 \<le> length mem"
    using caps mem vecs
    by (auto simp: as_def base_def caps_in_bar_def ring_stat_offs_def NFP_NET_CFG_RXR_STATS_def
        NFP_NET_CFG_TXR_STATS_def NFP_NET_TXR_MAX_def tlv_consts)
  from readqs_ok [OF this] show "\<exists>vs. nfp_vnic_get_tlv_stats mem max_r_vecs caps = Some vs \<and>
      length vs = nfp_vnic_get_tlv_stats_count max_r_vecs caps"
    by (simp add: nfp_vnic_get_tlv_stats_def Let_def nfp_vnic_get_tlv_stats_count_def as_def base_def
        length_concat_const [of ring_stat_offs 4] ring_stat_offs_def)
qed

text \<open>C7. The capability parser reads nothing outside the control memory, whatever bytes the firmware put
  there, and it returns.  When it succeeds the mailbox, the crypto enable words and the whole statistics area
  lie inside the memory, the padding after the identifiers included, and the two ethtool readers of that area
  read nothing outside of it either and fill in exactly the announced number of strings and values.\<close>

theorem tlv_parse_safe:
  assumes "length mem = NFP_NET_CFG_BAR_SZ" and "max_r_vecs \<le> NFP_NET_TXR_MAX"
  shows "\<exists>r caps. nfp_net_tlv_caps_parse mem = Some (r, caps) \<and>
    (r = Inr () \<longrightarrow>
       mbox_off caps + mbox_len caps \<le> NFP_NET_CFG_BAR_SZ \<and>
       crypto_enable_off caps + 16 \<le> NFP_NET_CFG_BAR_SZ \<and>
       vnic_stats_off caps + roundup (2 * vnic_stats_cnt caps) 8 + 8 * vnic_stats_cnt caps \<le> NFP_NET_CFG_BAR_SZ \<and>
       (\<exists>ss vs. nfp_vnic_get_tlv_stats_strings mem max_r_vecs caps = Some ss \<and>
          nfp_vnic_get_tlv_stats mem max_r_vecs caps = Some vs \<and>
          length ss = nfp_vnic_get_tlv_stats_count max_r_vecs caps \<and> length vs = length ss))"
proof -
  obtain r caps where *: "nfp_net_tlv_caps_parse mem = Some (r, caps)" "r = Inr () \<longrightarrow> caps_in_bar caps"
    using parse_bounds [OF assms(1)] by blast
  moreover have "\<exists>ss vs. nfp_vnic_get_tlv_stats_strings mem max_r_vecs caps = Some ss \<and>
      nfp_vnic_get_tlv_stats mem max_r_vecs caps = Some vs \<and>
      length ss = nfp_vnic_get_tlv_stats_count max_r_vecs caps \<and> length vs = length ss" if "caps_in_bar caps"
    using tlv_stats_ok [OF assms(1) that assms(2)] by auto
  ultimately show ?thesis by (auto simp: caps_in_bar_def)
qed


section \<open>What a list of entries means\<close>

text \<open>An entry, its encoding in the control memory, and the offsets at which the values of a list of entries
  lie.\<close>

datatype tlv = Tlv (tlv_req: bool) (tlv_type: nat) (tlv_val: "u8 list")

definition tlv_wf :: "tlv \<Rightarrow> bool" where
  "tlv_wf t \<longleftrightarrow> tlv_type t < 2 ^ 15 \<and> length (tlv_val t) < 2 ^ 16 \<and> length (tlv_val t) mod 4 = 0"

definition tlv_hdr :: "tlv \<Rightarrow> u32" where
  "tlv_hdr t = of_nat (of_bool (tlv_req t) * 2 ^ 31 + tlv_type t * 2 ^ 16 + length (tlv_val t))"

definition tlv_encode :: "tlv \<Rightarrow> u8 list" where
  "tlv_encode t = put_unaligned_le32 (tlv_hdr t) @ tlv_val t"

primrec tlv_place :: "nat \<Rightarrow> tlv list \<Rightarrow> (nat \<times> tlv) list" where
  "tlv_place off [] = []"
| "tlv_place off (t # ts) = (off + 4, t) # tlv_place (off + 4 + length (tlv_val t)) ts"

text \<open>The entries the driver accepts, given those before, and the capabilities a list stands for: of each
  type the last entry counts, except that the legacy crypto entry counts only without the newer one.\<close>

definition tlv_accept :: "(nat \<times> tlv) list \<Rightarrow> tlv \<Rightarrow> bool" where
  "tlv_accept seen t \<longleftrightarrow>
     tlv_type t \<noteq> NFP_NET_CFG_TLV_TYPE_UNKNOWN \<and> tlv_type t \<noteq> NFP_NET_CFG_TLV_TYPE_END \<and>
     (tlv_type t = NFP_NET_CFG_TLV_TYPE_ME_FREQ \<longrightarrow> length (tlv_val t) = 4) \<and>
     (tlv_type t = NFP_NET_CFG_TLV_TYPE_REPR_CAP \<longrightarrow> 4 \<le> length (tlv_val t)) \<and>
     (tlv_type t = NFP_NET_CFG_TLV_TYPE_CRYPTO_OPS \<longrightarrow>
        32 \<le> length (tlv_val t) \<or> (\<exists>p\<in>set seen. tlv_type (snd p) = NFP_NET_CFG_TLV_TYPE_CRYPTO_OPS_RX_SCAN)) \<and>
     (tlv_type t = NFP_NET_CFG_TLV_TYPE_CRYPTO_OPS_RX_SCAN \<longrightarrow> 32 \<le> length (tlv_val t)) \<and>
     (tlv_req t \<longrightarrow> tlv_type t \<notin> {8, 9} \<and> tlv_type t < 14)"

primrec tlvs_accepted :: "(nat \<times> tlv) list \<Rightarrow> (nat \<times> tlv) list \<Rightarrow> bool" where
  "tlvs_accepted seen [] \<longleftrightarrow> True"
| "tlvs_accepted seen (p # ps) \<longleftrightarrow> tlv_accept seen (snd p) \<and> tlvs_accepted (seen @ [p]) ps"

definition last_tlv :: "(nat \<Rightarrow> tlv \<Rightarrow> bool) \<Rightarrow> (nat \<times> tlv) list \<Rightarrow> (nat \<times> tlv) option" where
  "last_tlv P ps = find (\<lambda>(data, t). P data t) (rev ps)"

definition of_tlv :: "'a \<Rightarrow> (nat \<Rightarrow> tlv \<Rightarrow> 'a) \<Rightarrow> (nat \<times> tlv) option \<Rightarrow> 'a" where
  "of_tlv dflt f p = (case p of None \<Rightarrow> dflt | Some (data, t) \<Rightarrow> f data t)"

definition crypto_tlv :: "(nat \<times> tlv) list \<Rightarrow> (nat \<times> tlv) option" where
  "crypto_tlv ps =
     (case last_tlv (\<lambda>_ t. tlv_type t = NFP_NET_CFG_TLV_TYPE_CRYPTO_OPS_RX_SCAN) ps of
        Some p \<Rightarrow> Some p
      | None \<Rightarrow> last_tlv (\<lambda>_ t. tlv_type t = NFP_NET_CFG_TLV_TYPE_CRYPTO_OPS) ps)"

definition tlv_caps_of :: "(nat \<times> tlv) list \<Rightarrow> nfp_net_tlv_caps" where
  "tlv_caps_of ps =
     (let freq = last_tlv (\<lambda>_ t. tlv_type t = NFP_NET_CFG_TLV_TYPE_ME_FREQ) ps;
          mbox = last_tlv (\<lambda>_ t. tlv_type t = NFP_NET_CFG_TLV_TYPE_MBOX) ps;
          repr = last_tlv (\<lambda>_ t. tlv_type t = NFP_NET_CFG_TLV_TYPE_REPR_CAP) ps;
          cmsg = last_tlv (\<lambda>_ t. tlv_type t = NFP_NET_CFG_TLV_TYPE_MBOX_CMSG_TYPES \<and> 4 \<le> length (tlv_val t)) ps;
          stats = last_tlv (\<lambda>data t. tlv_type t = NFP_NET_CFG_TLV_TYPE_VNIC_STATS \<and> data mod 8 = 0) ps;
          word = (\<lambda>data t. get_unaligned_le32 (tlv_val t)) in
      \<lparr> me_freq_mhz = of_tlv 1200 word freq,
        mbox_off = of_tlv NFP_NET_CFG_MBOX_BASE (\<lambda>data t. if tlv_val t = [] then 0 else data) mbox,
        mbox_len = of_tlv NFP_NET_CFG_MBOX_VAL_MAX_SZ (\<lambda>data t. length (tlv_val t)) mbox,
        repr_cap = of_tlv 0 word repr,
        mbox_cmsg_types = of_tlv 0 word cmsg,
        crypto_ops = of_tlv 0 word (crypto_tlv ps),
        crypto_enable_off = of_tlv 0 (\<lambda>data t. data + 16) (crypto_tlv ps),
        vnic_stats_off = of_tlv 0 (\<lambda>data t. data) stats,
        vnic_stats_cnt = of_tlv 0 (\<lambda>data t. length (tlv_val t) div 10) stats,
        tls_resync_ss = (\<exists>p\<in>set ps. tlv_type (snd p) = NFP_NET_CFG_TLV_TYPE_CRYPTO_OPS_RX_SCAN) \<rparr>)"

lemma tlv_masks:
  "field_mask NFP_NET_CFG_TLV_HEADER_REQUIRED 31 31"
  "field_mask NFP_NET_CFG_TLV_HEADER_TYPE 30 16"
  "field_mask NFP_NET_CFG_TLV_HEADER_LENGTH 15 0"
  by (simp_all add: field_mask_eval NFP_NET_CFG_TLV_HEADER_REQUIRED_def
      NFP_NET_CFG_TLV_HEADER_TYPE_def NFP_NET_CFG_TLV_HEADER_LENGTH_def)

lemma unat_field: "unat (take_bit k (drop_bit l (ucast (h :: u32) :: u64))) = unat h div 2 ^ l mod 2 ^ k"
proof -
  have "unat h < 2 ^ 32" using unsigned_less [of h] by simp
  then have "take_bit 64 (unat h) = unat h" by (simp add: take_bit_nat_eq_self)
  then have "unat (take_bit k (drop_bit l (ucast h :: u64))) = take_bit k (drop_bit l (unat h))"
    by (simp add: unsigned_take_bit_eq unsigned_drop_bit_eq unsigned_ucast_eq)
  then show ?thesis by (simp add: take_bit_eq_mod drop_bit_eq_div)
qed

lemma hdr_parts:
  fixes r ty len :: nat
  assumes "ty < 2 ^ 15" "len < 2 ^ 16"
  defines "n \<equiv> r * 2 ^ 31 + ty * 2 ^ 16 + len"
  shows "n mod 2 ^ 16 = len" "n div 2 ^ 16 mod 2 ^ 15 = ty" "n div 2 ^ 31 = r"
proof -
  have n: "n = (r * 2 ^ 15 + ty) * 2 ^ 16 + len" by (simp add: n_def)
  have d: "n div 2 ^ 16 = r * 2 ^ 15 + ty" unfolding n using assms(2) by simp
  show "n mod 2 ^ 16 = len" unfolding n using assms(2) by (simp only: mod_mult_self3 mod_less)
  show "n div 2 ^ 16 mod 2 ^ 15 = ty" unfolding d using assms(1) by (simp only: mod_mult_self3 mod_less)
  have "n div 2 ^ 31 = n div 2 ^ 16 div 2 ^ 15" by (simp add: div_mult2_eq [symmetric])
  then show "n div 2 ^ 31 = r" unfolding d using assms(1) by simp
qed

lemma tlv_hdr_fields:
  assumes "tlv_wf t"
  shows "tlv_len (tlv_hdr t) = length (tlv_val t)"
    and "unat (FIELD_GET NFP_NET_CFG_TLV_HEADER_TYPE (ucast (tlv_hdr t))) = tlv_type t"
    and "FIELD_GET NFP_NET_CFG_TLV_HEADER_REQUIRED (ucast (tlv_hdr t)) = 0 \<longleftrightarrow> \<not> tlv_req t"
proof -
  define n where "n = of_bool (tlv_req t) * 2 ^ 31 + tlv_type t * 2 ^ 16 + length (tlv_val t)"
  have wf: "tlv_type t < 2 ^ 15" "length (tlv_val t) < 2 ^ 16" using assms by (simp_all add: tlv_wf_def)
  have "n < 2 ^ 32" using wf by (cases "tlv_req t") (simp_all add: n_def)
  then have h: "unat (tlv_hdr t) = n"
    by (simp only: tlv_hdr_def n_def [symmetric]) (simp add: unat_of_nat take_bit_nat_eq_self)
  note parts = hdr_parts [OF wf, of "of_bool (tlv_req t)", folded n_def]
  show "tlv_len (tlv_hdr t) = length (tlv_val t)"
    using unat_field [of 16 0 "tlv_hdr t"] parts(1) by (simp add: tlv_len_def FIELD_GET_mask [OF tlv_masks(3)] h)
  show "unat (FIELD_GET NFP_NET_CFG_TLV_HEADER_TYPE (ucast (tlv_hdr t))) = tlv_type t"
    using unat_field [of 15 16 "tlv_hdr t"] parts(2) by (simp add: FIELD_GET_mask [OF tlv_masks(2)] h)
  have "unat (FIELD_GET NFP_NET_CFG_TLV_HEADER_REQUIRED (ucast (tlv_hdr t))) = of_bool (tlv_req t)"
    using unat_field [of 1 31 "tlv_hdr t"] parts(3) by (simp add: FIELD_GET_mask [OF tlv_masks(1)] h)
  then show "FIELD_GET NFP_NET_CFG_TLV_HEADER_REQUIRED (ucast (tlv_hdr t)) = 0 \<longleftrightarrow> \<not> tlv_req t"
    by (cases "tlv_req t") (auto simp flip: unat_eq_0)
qed


lemma last_tlv_snoc [simp]: "last_tlv P (ps @ [(data, t)]) = (if P data t then Some (data, t) else last_tlv P ps)"
  by (simp add: last_tlv_def)

lemma last_tlv_type_None: "last_tlv (\<lambda>_ t. tlv_type t = ty) ps = None \<longleftrightarrow> (\<forall>p\<in>set ps. tlv_type (snd p) \<noteq> ty)"
  by (fastforce simp: last_tlv_def find_None_iff)

lemma crypto_tlv_snoc [simp]:
  "crypto_tlv (ps @ [(data, t)]) =
     (if tlv_type t = NFP_NET_CFG_TLV_TYPE_CRYPTO_OPS_RX_SCAN then Some (data, t)
      else if tlv_type t = NFP_NET_CFG_TLV_TYPE_CRYPTO_OPS \<and>
              (\<forall>p\<in>set ps. tlv_type (snd p) \<noteq> NFP_NET_CFG_TLV_TYPE_CRYPTO_OPS_RX_SCAN) then Some (data, t)
      else crypto_tlv ps)"
  using last_tlv_type_None [of NFP_NET_CFG_TLV_TYPE_CRYPTO_OPS_RX_SCAN ps]
  by (auto simp: crypto_tlv_def split: option.splits)

lemma of_tlv_simps [simp]: "of_tlv d f (Some (data, t)) = f data t" "of_tlv d f None = d"
  by (simp_all add: of_tlv_def)

lemma le32_prefix: "4 \<le> length p \<Longrightarrow> get_unaligned_le32 (p @ q) = get_unaligned_le32 p"
proof -
  assume "4 \<le> length p"
  then have "(p @ q) ! i = p ! i" if "i < 4" for i using that by (simp add: nth_append)
  then show ?thesis by (simp add: get_unaligned_le32_def)
qed

lemma tlv_caps_of_Nil: "tlv_caps_of [] = nfp_net_tlv_caps_reset"
  by (simp add: tlv_caps_of_def nfp_net_tlv_caps_reset_def last_tlv_def crypto_tlv_def Let_def)

lemma resync_caps_of:
  "tls_resync_ss (tlv_caps_of ps) \<longleftrightarrow> (\<exists>p\<in>set ps. tlv_type (snd p) = NFP_NET_CFG_TLV_TYPE_CRYPTO_OPS_RX_SCAN)"
  by (simp add: tlv_caps_of_def Let_def)

text \<open>One entry that is accepted adds to the capabilities what it means; one that is not is rejected.\<close>

lemma readl_val:
  assumes "drop data mem = tlv_val t @ rest" "4 \<le> length (tlv_val t)"
  shows "readl mem data = Some (get_unaligned_le32 (tlv_val t))"
proof -
  have "length (drop data mem) \<ge> 4" using assms by simp
  then have "data + 4 \<le> length mem" by simp
  with assms show ?thesis by (simp add: readl_def le32_prefix)
qed

lemmas switch_simps = tlv_switch_def tlv_types Let_def tlv_hdr_fields tlv_accept_def crypto_step_def
  nfp_net_tls_parse_crypto_ops_def resync_caps_of

lemma tlv_switch_accept:
  assumes wf: "tlv_wf t" and at: "drop data mem = tlv_val t @ rest" and acc: "tlv_accept seen t"
  shows "tlv_switch mem (tlv_hdr t) data (length (tlv_val t)) (tlv_caps_of seen) =
    Some (Break (tlv_caps_of (seen @ [(data, t)])))"
proof -
  note rd = readl_val [OF at]
  have "tlv_type t \<noteq> 0" "tlv_type t \<noteq> 2" using acc by (simp_all add: tlv_accept_def tlv_types)
  then have "tlv_type t = 3 \<or> tlv_type t = 4 \<or> tlv_type t = 7 \<or> tlv_type t = 10 \<or> tlv_type t = 11 \<or>
      tlv_type t = 12 \<or> tlv_type t = 13 \<or> (tlv_type t = 1 \<or> tlv_type t = 5 \<or> tlv_type t = 6) \<or>
      (tlv_type t = 8 \<or> tlv_type t = 9 \<or> 13 < tlv_type t)"
    by presburger
  then consider "tlv_type t = 3" | "tlv_type t = 4" | "tlv_type t = 7" | "tlv_type t = 10" | "tlv_type t = 11"
    | "tlv_type t = 12" | "tlv_type t = 13" | "tlv_type t = 1 \<or> tlv_type t = 5 \<or> tlv_type t = 6"
    | "tlv_type t = 8 \<or> tlv_type t = 9 \<or> 13 < tlv_type t"
    by blast
  then show ?thesis
  proof cases
    case 5
    show ?thesis
    proof (cases "\<exists>p\<in>set seen. tlv_type (snd p) = 13")
      case True
      with 5 wf acc show ?thesis
        by (simp add: switch_simps) (simp add: tlv_caps_of_def tlv_types Let_def, blast)
    next
      case False
      with 5 wf acc rd show ?thesis
        by (simp add: switch_simps) (simp add: tlv_caps_of_def tlv_types Let_def)
    qed
  next
    case 8
    with wf show ?thesis by (elim disjE) (simp_all add: switch_simps, simp_all add: tlv_caps_of_def tlv_types Let_def)
  next
    case 9
    with wf acc show ?thesis
      by (elim disjE) (simp_all add: switch_simps, simp_all add: tlv_caps_of_def tlv_types Let_def)
  qed (use wf acc rd in \<open>simp add: switch_simps, simp add: tlv_caps_of_def tlv_types Let_def\<close>)+
qed


definition tlv_is_end :: "tlv \<Rightarrow> bool" where
  "tlv_is_end t \<longleftrightarrow> tlv_type t = NFP_NET_CFG_TLV_TYPE_END \<and> tlv_val t = []"

lemma tlv_switch_reject:
  assumes wf: "tlv_wf t" and at: "drop data mem = tlv_val t @ rest" and acc: "\<not> tlv_accept seen t" and "\<not> tlv_is_end t"
  shows "tlv_switch mem (tlv_hdr t) data (length (tlv_val t)) (tlv_caps_of seen) = Some (Ret (Inl EINVAL) (tlv_caps_of seen))"
proof -
  consider "tlv_type t = 0" | "tlv_type t = 2" "tlv_val t \<noteq> []" | "tlv_type t = 3" "length (tlv_val t) \<noteq> 4"
    | "tlv_type t = 7" "length (tlv_val t) < 4"
    | "tlv_type t = 11" "length (tlv_val t) < 32" "\<not> (\<exists>p\<in>set seen. tlv_type (snd p) = 13)"
    | "tlv_type t = 13" "length (tlv_val t) < 32"
    | "tlv_req t" "tlv_type t = 8 \<or> tlv_type t = 9 \<or> 13 < tlv_type t"
    using assms(3,4) unfolding tlv_accept_def tlv_is_end_def tlv_types by fastforce
  then show ?thesis
  proof cases
    case 7
    with wf show ?thesis by (elim disjE) (simp_all add: switch_simps)
  qed (use wf in \<open>simp add: switch_simps\<close>)+
qed

lemma readl_at: "length pre = off \<Longrightarrow> readl (pre @ put_unaligned_le32 h @ rest) off = Some h"
  by (simp add: readl_def)

lemma tlv_end:
  assumes "tlv_is_end t" "tlv_wf t"
  shows "tlv_switch mem (tlv_hdr t) data 0 caps = Some (Ret (Inr ()) caps)"
  using assms by (simp add: switch_simps tlv_is_end_def)

lemma tlv_loop_list:
  assumes "length (pre @ concat (map tlv_encode ts) @ tlv_encode e @ post) = NFP_NET_CFG_BAR_SZ"
    and "\<forall>t\<in>set ts. tlv_wf t \<and> \<not> tlv_is_end t" and "tlv_wf e" "tlv_is_end e"
  shows "\<exists>caps. tlv_loop (pre @ concat (map tlv_encode ts) @ tlv_encode e @ post) (length pre) (tlv_caps_of seen) =
    Some (if tlvs_accepted seen (tlv_place (length pre) ts) then (Inr (), tlv_caps_of (seen @ tlv_place (length pre) ts))
          else (Inl EINVAL, caps))"
  using assms
proof (induction ts arbitrary: pre seen)
  case Nil
  let ?mem = "pre @ put_unaligned_le32 (tlv_hdr e) @ tlv_val e @ post"
  have rd: "readl ?mem (length pre) = Some (tlv_hdr e)" by (rule readl_at) simp
  have "tlv_len (tlv_hdr e) = 0" using Nil by (simp add: tlv_hdr_fields tlv_is_end_def)
  moreover have "length pre + 4 \<le> NFP_NET_CFG_BAR_SZ" using Nil by (simp add: tlv_encode_def)
  ultimately show ?case
    using tlv_end [OF Nil(4,3), of ?mem "length pre + 4"]
    by (simp add: tlv_encode_def tlv_loop.simps [of _ "length pre"] rd Let_def)
next
  case (Cons t ts)
  define len where "len = length (tlv_val t)"
  define mem where "mem = pre @ concat (map tlv_encode (t # ts)) @ tlv_encode e @ post"
  define pre' where "pre' = pre @ tlv_encode t"
  have mem: "mem = pre @ put_unaligned_le32 (tlv_hdr t) @ tlv_val t @ (concat (map tlv_encode ts) @ tlv_encode e @ post)"
    and mem': "mem = pre' @ concat (map tlv_encode ts) @ tlv_encode e @ post"
    by (simp_all add: mem_def pre'_def tlv_encode_def)
  have pre': "length pre' = length pre + 4 + len" by (simp add: pre'_def tlv_encode_def len_def)
  have rd: "readl mem (length pre) = Some (tlv_hdr t)" unfolding mem by (rule readl_at) simp
  have at: "drop (length pre + 4) mem = tlv_val t @ (concat (map tlv_encode ts) @ tlv_encode e @ post)" by (simp add: mem)
  have wf: "tlv_wf t" "\<not> tlv_is_end t" using Cons.prems by simp_all
  have hl: "tlv_len (tlv_hdr t) = len" "len mod 4 = 0" using wf(1) by (simp_all add: tlv_hdr_fields len_def tlv_wf_def)
  have room: "length pre + 4 + len + 4 \<le> NFP_NET_CFG_BAR_SZ"
    using Cons.prems(1) by (simp add: mem' pre' tlv_encode_def len_def)
  show ?case
  proof (cases "tlv_accept seen t")
    case True
    from tlv_switch_accept [OF wf(1) at True] room
    have "tlv_loop mem (length pre) (tlv_caps_of seen) = tlv_loop mem (length pre') (tlv_caps_of (seen @ [(length pre + 4, t)]))"
      by (simp add: tlv_loop.simps [of mem "length pre"] rd hl [unfolded len_def] Let_def NFP_NET_CFG_TLV_LENGTH_INC_def pre' len_def)
    moreover have "\<exists>caps. tlv_loop mem (length pre') (tlv_caps_of (seen @ [(length pre + 4, t)])) =
      Some (if tlvs_accepted (seen @ [(length pre + 4, t)]) (tlv_place (length pre') ts)
            then (Inr (), tlv_caps_of ((seen @ [(length pre + 4, t)]) @ tlv_place (length pre') ts)) else (Inl EINVAL, caps))"
      unfolding mem' by (rule Cons.IH) (use Cons.prems in \<open>simp_all add: pre'_def\<close>)
    ultimately show ?thesis
      unfolding mem_def [symmetric] using True by (auto simp: pre' len_def split: if_splits)
  next
    case False
    from tlv_switch_reject [OF wf(1) at False wf(2)] room show ?thesis
      unfolding mem_def [symmetric] by (simp add: tlv_loop.simps [of mem "length pre"] rd hl [unfolded len_def] Let_def
          NFP_NET_CFG_TLV_LENGTH_INC_def False len_def)
  qed
qed


lemma tlv_hdr_zero: "tlv_wf t \<Longrightarrow> tlv_hdr t = 0 \<longleftrightarrow> t = Tlv False 0 []"
proof
  assume wf: "tlv_wf t" and h: "tlv_hdr t = 0"
  from tlv_hdr_fields [OF wf] h have "length (tlv_val t) = 0" "tlv_type t = 0" "\<not> tlv_req t"
    by (simp_all add: tlv_len_def FIELD_GET_0)
  then show "t = Tlv False 0 []" by (cases t) simp
qed (simp add: tlv_hdr_def)

text \<open>C8. The parser understands every list of entries as the header file describes it.  If each entry is
  acceptable where it stands, the parser succeeds with, for each capability, the value of the last entry of its
  type or the default when there is none, where the legacy crypto entry counts only if the newer one is absent
  and a misaligned statistics entry does not count; otherwise it fails with EINVAL.\<close>

theorem tlv_parse_list:
  assumes "mem = pre @ concat (map tlv_encode ts) @ tlv_encode e @ post"
    and "length pre = NFP_NET_CFG_TLV_BASE" and "length mem = NFP_NET_CFG_BAR_SZ"
    and "\<forall>t\<in>set ts. tlv_wf t \<and> \<not> tlv_is_end t" and "tlv_wf e" and "tlv_is_end e"
    and "hd (ts @ [e]) \<noteq> Tlv False NFP_NET_CFG_TLV_TYPE_UNKNOWN []"
  shows "\<exists>caps. nfp_net_tlv_caps_parse mem =
    Some (if tlvs_accepted [] (tlv_place NFP_NET_CFG_TLV_BASE ts) then (Inr (), tlv_caps_of (tlv_place NFP_NET_CFG_TLV_BASE ts))
          else (Inl EINVAL, caps))"
proof -
  obtain rest where rest: "mem = pre @ put_unaligned_le32 (tlv_hdr (hd (ts @ [e]))) @ rest"
    using assms(1) by (cases ts) (simp_all add: tlv_encode_def)
  have "readl mem NFP_NET_CFG_TLV_BASE = Some (tlv_hdr (hd (ts @ [e])))"
    unfolding rest by (rule readl_at [OF assms(2)])
  moreover have "tlv_wf (hd (ts @ [e]))" using assms(4,5) by (cases ts) simp_all
  then have "tlv_hdr (hd (ts @ [e])) \<noteq> 0" using tlv_hdr_zero assms(7) by (simp add: NFP_NET_CFG_TLV_TYPE_UNKNOWN_def)
  ultimately have "nfp_net_tlv_caps_parse mem = tlv_loop mem NFP_NET_CFG_TLV_BASE (tlv_caps_of [])"
    by (simp add: nfp_net_tlv_caps_parse_def tlv_caps_of_Nil)
  then show ?thesis
    using tlv_loop_list [of pre ts e post "[]"] assms by (auto split: if_splits)
qed

text \<open>A firmware that gives a frequency, pads, and announces two statistics.\<close>

definition sample_tlvs :: "tlv list" where
  "sample_tlvs = [Tlv True NFP_NET_CFG_TLV_TYPE_ME_FREQ (put_unaligned_le32 800), Tlv False NFP_NET_CFG_TLV_TYPE_RESERVED [],
     Tlv False NFP_NET_CFG_TLV_TYPE_VNIC_STATS (replicate 20 0)]"

definition sample_end :: tlv where
  "sample_end = Tlv False NFP_NET_CFG_TLV_TYPE_END []"

definition sample_bar :: "u8 list" where
  "sample_bar = replicate 88 0 @ concat (map tlv_encode sample_tlvs) @ tlv_encode sample_end @ replicate 32640 0"

lemma sample_bar_length: "length sample_bar = NFP_NET_CFG_BAR_SZ"
  by (simp add: sample_bar_def sample_tlvs_def sample_end_def tlv_encode_def NFP_NET_CFG_BAR_SZ_def)

theorem tlv_parse_safe_witness:
  "length sample_bar = NFP_NET_CFG_BAR_SZ \<and>
   (\<exists>r caps. nfp_net_tlv_caps_parse sample_bar = Some (r, caps) \<and>
     (r = Inr () \<longrightarrow> (\<exists>ss. nfp_vnic_get_tlv_stats_strings sample_bar 2 caps = Some ss)))"
proof -
  have "2 \<le> NFP_NET_TXR_MAX" by (simp add: NFP_NET_TXR_MAX_def)
  from tlv_parse_safe [OF sample_bar_length this] sample_bar_length show ?thesis by blast
qed

theorem tlv_parse_list_witness:
  "\<exists>caps. nfp_net_tlv_caps_parse sample_bar = Some (Inr (), caps) \<and>
     me_freq_mhz caps = 800 \<and> mbox_off caps = NFP_NET_CFG_MBOX_BASE \<and> vnic_stats_off caps = 0x68 \<and> vnic_stats_cnt caps = 2"
proof -
  have wf: "\<forall>t\<in>set sample_tlvs. tlv_wf t \<and> \<not> tlv_is_end t" "tlv_wf sample_end" "tlv_is_end sample_end"
    "hd (sample_tlvs @ [sample_end]) \<noteq> Tlv False NFP_NET_CFG_TLV_TYPE_UNKNOWN []"
    by (simp_all add: sample_tlvs_def sample_end_def tlv_wf_def tlv_is_end_def tlv_types)
  have acc: "tlvs_accepted [] (tlv_place NFP_NET_CFG_TLV_BASE sample_tlvs)"
    by (simp add: sample_tlvs_def tlv_accept_def tlv_types NFP_NET_CFG_TLV_BASE_def)
  have "length (replicate 88 (0::u8)) = NFP_NET_CFG_TLV_BASE" by (simp add: NFP_NET_CFG_TLV_BASE_def)
  from tlv_parse_list [OF sample_bar_def this sample_bar_length wf] acc
  have "nfp_net_tlv_caps_parse sample_bar = Some (Inr (), tlv_caps_of (tlv_place NFP_NET_CFG_TLV_BASE sample_tlvs))" by simp
  then show ?thesis
    by (simp add: tlv_caps_of_def Let_def last_tlv_def of_tlv_def sample_tlvs_def tlv_types NFP_NET_CFG_TLV_BASE_def)
qed

end
