(* ===== verification/NFP_Mbox.thy ===== *)
theory NFP_Mbox
  imports NFP_Ccm NFP_Tlv
begin

text \<open>
  Control messages through the vNIC mailbox (\<^verbatim>\<open>src/ccm_mbox.c\<close>).  Threads put their request on a queue; the
  one that is first copies a batch of requests into the mailbox, lets the firmware work, copies the replies
  out, completes the batch and passes the role on to the new head of the queue.  Messages that nobody waits
  for are driven by two work items.  The queue lock makes every piece of code between taking and releasing it
  one step; the steps of all the threads, the work items and the other users of the mailbox interleave in
  any order (\<open>mbox_do\<close>).  The control memory is a map from byte offsets to words, all accesses being
  aligned; what the firmware leaves in it is a parameter of the steps that wait for it.
\<close>

section \<open>Messages\<close>

definition NFP_CCM_MBOX_BATCH_LIMIT :: nat where "NFP_CCM_MBOX_BATCH_LIMIT = 64"

definition NFP_CCM_MAX_QLEN :: nat where "NFP_CCM_MAX_QLEN = 1024"

definition NFP_NET_CFG_MBOX_SIMPLE_VAL :: nat where "NFP_NET_CFG_MBOX_SIMPLE_VAL = 0x8"

definition NFP_NET_MBOX_TLV_TYPE :: u64 where "NFP_NET_MBOX_TLV_TYPE = GENMASK_ULL 31 16"

definition NFP_NET_MBOX_TLV_LEN :: u64 where "NFP_NET_MBOX_TLV_LEN = GENMASK_ULL 15 0"

datatype nfp_ccm_mbox_tlv_type =
    NFP_NET_MBOX_TLV_TYPE_UNKNOWN | NFP_NET_MBOX_TLV_TYPE_END | NFP_NET_MBOX_TLV_TYPE_MSG
  | NFP_NET_MBOX_TLV_TYPE_MSG_NOSUP | NFP_NET_MBOX_TLV_TYPE_RESV

primrec nfp_ccm_mbox_tlv_type_val :: "nfp_ccm_mbox_tlv_type \<Rightarrow> nat" where
  "nfp_ccm_mbox_tlv_type_val NFP_NET_MBOX_TLV_TYPE_UNKNOWN = 0"
| "nfp_ccm_mbox_tlv_type_val NFP_NET_MBOX_TLV_TYPE_END = 1"
| "nfp_ccm_mbox_tlv_type_val NFP_NET_MBOX_TLV_TYPE_MSG = 2"
| "nfp_ccm_mbox_tlv_type_val NFP_NET_MBOX_TLV_TYPE_MSG_NOSUP = 3"
| "nfp_ccm_mbox_tlv_type_val NFP_NET_MBOX_TLV_TYPE_RESV = 4"

datatype nfp_net_mbox_cmsg_state =
    NFP_NET_MBOX_CMSG_STATE_QUEUED | NFP_NET_MBOX_CMSG_STATE_NEXT | NFP_NET_MBOX_CMSG_STATE_BUSY
  | NFP_NET_MBOX_CMSG_STATE_REPLY_FOUND | NFP_NET_MBOX_CMSG_STATE_DONE

text \<open>A message buffer: its identity (the pointer), the data up to its length, the room from the start of
  the data to the end of the buffer, and the control block.\<close>

record mbox_skb =
  skb_id :: nat
  skb_data :: "u8 list"
  skb_end :: nat
  cb_state :: nfp_net_mbox_cmsg_state
  cb_err :: "errno option"
  cb_max_len :: nat
  cb_exp_reply :: nat
  cb_posted :: bool

definition round_up4 :: "nat \<Rightarrow> nat" where
  "round_up4 x = (x + 3) div 4 * 4 mod 2 ^ 32"

definition nfp_ccm_mbox_max_msg :: "nfp_net_tlv_caps \<Rightarrow> nat" where
  "nfp_ccm_mbox_max_msg caps =
     unat (of_nat (mbox_len caps div 4 * 4) - of_nat NFP_NET_CFG_MBOX_SIMPLE_VAL - 4 * 2 :: u32)"

definition nfp_ccm_mbox_msg_init :: "nat \<Rightarrow> nat \<Rightarrow> mbox_skb \<Rightarrow> mbox_skb" where
  "nfp_ccm_mbox_msg_init exp_reply max_len skb =
     skb\<lparr> cb_state := NFP_NET_MBOX_CMSG_STATE_QUEUED, cb_err := None, cb_max_len := max_len,
          cb_exp_reply := exp_reply, cb_posted := False \<rparr>"

definition nfp_ccm_mbox_done :: "mbox_skb \<Rightarrow> bool" where
  "nfp_ccm_mbox_done skb \<longleftrightarrow> cb_state skb = NFP_NET_MBOX_CMSG_STATE_DONE"

definition nfp_ccm_mbox_in_progress :: "mbox_skb \<Rightarrow> bool" where
  "nfp_ccm_mbox_in_progress skb \<longleftrightarrow>
     cb_state skb \<noteq> NFP_NET_MBOX_CMSG_STATE_QUEUED \<and> cb_state skb \<noteq> NFP_NET_MBOX_CMSG_STATE_NEXT"

definition nfp_ccm_mbox_set_busy :: "mbox_skb \<Rightarrow> mbox_skb" where
  "nfp_ccm_mbox_set_busy skb = skb\<lparr> cb_state := NFP_NET_MBOX_CMSG_STATE_BUSY \<rparr>"

definition nfp_ccm_mbox_mark_posted :: "mbox_skb \<Rightarrow> mbox_skb" where
  "nfp_ccm_mbox_mark_posted skb = skb\<lparr> cb_posted := True \<rparr>"

definition nfp_ccm_mbox_should_run :: "mbox_skb \<Rightarrow> bool" where
  "nfp_ccm_mbox_should_run skb \<longleftrightarrow> cb_state skb = NFP_NET_MBOX_CMSG_STATE_NEXT"

definition nfp_ccm_mbox_is_first :: "mbox_skb list \<Rightarrow> nat \<Rightarrow> bool" where
  "nfp_ccm_mbox_is_first queue i \<longleftrightarrow> queue \<noteq> [] \<and> skb_id (hd queue) = i"

text \<open>The checks before a message is queued; \<open>expand_ok\<close> is whether \<open>pskb_expand_head\<close> gets its memory.\<close>

definition nfp_ccm_mbox_msg_prepare ::
  "nfp_net_tlv_caps \<Rightarrow> mbox_skb \<Rightarrow> nfp_ccm_type \<Rightarrow> nat \<Rightarrow> nat \<Rightarrow> bool \<Rightarrow> mbox_skb result" where
  "nfp_ccm_mbox_msg_prepare caps skb type reply_size max_reply_size expand_ok =
     (let mbox_max = nfp_ccm_mbox_max_msg caps in
      if \<not> bit (mbox_cmsg_types caps) (unat (nfp_ccm_type_val type)) then Inl EINVAL
      else
        let max_reply_size = round_up4 (if max_reply_size = 0 then mbox_max else max_reply_size) in
        if max_reply_size > skb_end skb \<and> \<not> expand_ok then Inl ENOMEM
        else
          let skb = skb\<lparr> skb_end := max (skb_end skb) max_reply_size \<rparr>;
              max_len = max max_reply_size (round_up4 (length (skb_data skb))) in
          if max_len > mbox_max then Inl EMSGSIZE
          else Inr (nfp_ccm_mbox_msg_init reply_size max_len skb))"

section \<open>The mailbox\<close>

type_synonym ctrl_bar = "nat \<Rightarrow> u32"

definition nfp_ccm_mbox_write_tlv :: "ctrl_bar \<Rightarrow> nat \<Rightarrow> nfp_ccm_mbox_tlv_type \<Rightarrow> nat \<Rightarrow> ctrl_bar" where
  "nfp_ccm_mbox_write_tlv bar off type len =
     bar(off := ucast (FIELD_PREP NFP_NET_MBOX_TLV_TYPE (of_nat (nfp_ccm_mbox_tlv_type_val type)) OR
                       FIELD_PREP NFP_NET_MBOX_TLV_LEN (of_nat len)))"

text \<open>The data of a message word by word, the last word padded with zeros; the offset behind it.\<close>

fun copy_in_data :: "ctrl_bar \<Rightarrow> nat \<Rightarrow> u8 list \<Rightarrow> nat \<times> ctrl_bar" where
  "copy_in_data bar off (a # b # c # d # rest) = copy_in_data (bar(off := get_be32 [a, b, c, d])) (off + 4) rest"
| "copy_in_data bar off [] = (off, bar)"
| "copy_in_data bar off data = (off + 4, bar(off := get_be32 (data @ replicate (4 - length data) 0)))"

definition copy_in_msg :: "ctrl_bar \<Rightarrow> nat \<Rightarrow> mbox_skb \<Rightarrow> nat \<times> ctrl_bar" where
  "copy_in_msg bar off skb =
     (let bar = nfp_ccm_mbox_write_tlv bar off NFP_NET_MBOX_TLV_TYPE_MSG (length (skb_data skb)) in
      case copy_in_data bar (off + 4) (skb_data skb) of
        (off, bar) \<Rightarrow>
          let reserve = int (cb_max_len skb) - int (round_up4 (length (skb_data skb))) in
          if reserve > 0 then
            (off + 4 + nat reserve, nfp_ccm_mbox_write_tlv bar off NFP_NET_MBOX_TLV_TYPE_RESV (nat reserve))
          else (off, bar))"

text \<open>\<open>None\<close> is a walk off the end of the queue.\<close>

fun copy_in_msgs :: "ctrl_bar \<Rightarrow> nat \<Rightarrow> nat \<Rightarrow> mbox_skb list \<Rightarrow> (nat \<times> ctrl_bar) option" where
  "copy_in_msgs bar off lst [] = None"
| "copy_in_msgs bar off lst (skb # queue) =
     (case copy_in_msg bar off skb of
        (off, bar) \<Rightarrow> if skb_id skb = lst then Some (off, bar) else copy_in_msgs bar off lst queue)"

definition nfp_ccm_mbox_copy_in :: "nfp_net_tlv_caps \<Rightarrow> ctrl_bar \<Rightarrow> nat \<Rightarrow> mbox_skb list \<Rightarrow> ctrl_bar option" where
  "nfp_ccm_mbox_copy_in caps bar lst queue =
     map_option (\<lambda>(off, bar). nfp_ccm_mbox_write_tlv bar off NFP_NET_MBOX_TLV_TYPE_END 0)
       (copy_in_msgs bar (mbox_off caps + NFP_NET_CFG_MBOX_SIMPLE_VAL) lst queue)"

fun nfp_ccm_mbox_find_req :: "mbox_skb list \<Rightarrow> u16 \<Rightarrow> nat \<Rightarrow> mbox_skb option" where
  "nfp_ccm_mbox_find_req [] tag lst = None"
| "nfp_ccm_mbox_find_req (skb # queue) tag lst =
     (if nfp_ccm_get_tag (skb_data skb) = tag then Some skb
      else if skb_id skb = lst then None
      else nfp_ccm_mbox_find_req queue tag lst)"

definition upd_skb :: "nat \<Rightarrow> (mbox_skb \<Rightarrow> mbox_skb) \<Rightarrow> mbox_skb list \<Rightarrow> mbox_skb list" where
  "upd_skb i f queue = map (\<lambda>skb. if skb_id skb = i then f skb else skb) queue"

text \<open>The words of a reply of \<open>len\<close> bytes at \<open>data\<close>.\<close>

definition copy_out_data :: "ctrl_bar \<Rightarrow> nat \<Rightarrow> nat \<Rightarrow> u8 list" where
  "copy_out_data bar data len = take len (concat (map (\<lambda>i. put_be32 (bar (data + i * 4))) [0..<(len + 3) div 4]))"

definition copy_out_reply :: "ctrl_bar \<Rightarrow> nat \<Rightarrow> nat \<Rightarrow> mbox_skb \<Rightarrow> mbox_skb" where
  "copy_out_reply bar data len skb =
     (if cb_posted skb then skb else skb\<lparr> skb_data := copy_out_data bar data len \<rparr>)
       \<lparr> cb_state := NFP_NET_MBOX_CMSG_STATE_REPLY_FOUND \<rparr>"


text \<open>One entry of the mailbox: the messages after it, and whether the walk goes on behind it.\<close>

definition mbox_tlv_type :: "u32 \<Rightarrow> nat" where
  "mbox_tlv_type hdr = unat (FIELD_GET NFP_NET_MBOX_TLV_TYPE (ucast hdr))"

definition mbox_tlv_len :: "u32 \<Rightarrow> nat" where
  "mbox_tlv_len hdr = unat (FIELD_GET NFP_NET_MBOX_TLV_LEN (ucast hdr))"

definition reply_error :: "mbox_skb \<Rightarrow> mbox_skb" where
  "reply_error skb = skb\<lparr> cb_err := Some EIO \<rparr>"

definition copy_out_tlv :: "ctrl_bar \<Rightarrow> nat \<Rightarrow> nat \<Rightarrow> nat \<Rightarrow> mbox_skb list \<Rightarrow> mbox_skb list \<times> bool" where
  "copy_out_tlv bar end_off lst data queue =
     (let type = mbox_tlv_type (bar data); len = mbox_tlv_len (bar data); data = data + 4 in
      if data + len > end_off then (queue, False)
      else if type = nfp_ccm_mbox_tlv_type_val NFP_NET_MBOX_TLV_TYPE_END then (queue, False)
      else if type = nfp_ccm_mbox_tlv_type_val NFP_NET_MBOX_TLV_TYPE_RESV then (queue, True)
      else if type \<noteq> nfp_ccm_mbox_tlv_type_val NFP_NET_MBOX_TLV_TYPE_MSG \<and>
              type \<noteq> nfp_ccm_mbox_tlv_type_val NFP_NET_MBOX_TLV_TYPE_MSG_NOSUP then (queue, False)
      else if len < 4 then (queue, False)
      else
        let hdr = put_be32 (bar data) in
        case nfp_ccm_mbox_find_req queue (nfp_ccm_get_tag hdr) lst of
          None \<Rightarrow> (queue, False)
        | Some skb \<Rightarrow>
            (upd_skb (skb_id skb)
               (if type = nfp_ccm_mbox_tlv_type_val NFP_NET_MBOX_TLV_TYPE_MSG_NOSUP then reply_error
                else if nfp_ccm_get_type hdr \<noteq> NFP_CCM_REPLY (nfp_ccm_get_type (skb_data skb)) then reply_error
                else if cb_exp_reply skb \<noteq> 0 \<and> len \<noteq> cb_exp_reply skb then reply_error
                else if len > cb_max_len skb then reply_error
                else copy_out_reply bar data len)
               queue, True))"

function copy_out_loop :: "ctrl_bar \<Rightarrow> nat \<Rightarrow> nat \<Rightarrow> nat \<Rightarrow> mbox_skb list \<Rightarrow> mbox_skb list" where
  "copy_out_loop bar end_off lst data queue =
     (case copy_out_tlv bar end_off lst data queue of
        (queue, next_tlv) \<Rightarrow>
          let data = data + 4 + round_up4 (mbox_tlv_len (bar data)) in
          if \<not> next_tlv \<or> data + 4 > end_off then queue
          else copy_out_loop bar end_off lst data queue)"
  by pat_completeness auto

termination
  by (relation "measure (\<lambda>(bar, end_off, lst, data, queue). end_off - data)") auto

declare copy_out_loop.simps [simp del]

text \<open>The messages up to the last of the batch are taken off the queue.\<close>

fun dequeue_until :: "nat \<Rightarrow> mbox_skb list \<Rightarrow> mbox_skb list \<times> mbox_skb list" where
  "dequeue_until lst [] = ([], [])"
| "dequeue_until lst (skb # queue) =
     (if skb_id skb = lst then ([skb], queue)
      else case dequeue_until lst queue of (batch, queue) \<Rightarrow> (skb # batch, queue))"

definition complete_reply :: "mbox_skb \<Rightarrow> mbox_skb" where
  "complete_reply skb =
     skb\<lparr> cb_err := (if cb_state skb \<noteq> NFP_NET_MBOX_CMSG_STATE_REPLY_FOUND then Some ENOENT else cb_err skb),
          cb_state := NFP_NET_MBOX_CMSG_STATE_DONE \<rparr>"

definition complete_err :: "errno \<Rightarrow> mbox_skb \<Rightarrow> mbox_skb" where
  "complete_err err skb = skb\<lparr> cb_err := Some err, cb_state := NFP_NET_MBOX_CMSG_STATE_DONE \<rparr>"

text \<open>How many messages behind the first one join the batch.\<close>

fun batch_more :: "int \<Rightarrow> nat \<Rightarrow> mbox_skb list \<Rightarrow> nat" where
  "batch_more space cnt [] = 0"
| "batch_more space cnt (skb # queue) =
     (let space = space - (4 + int (cb_max_len skb)) in
      if space < 0 then 0
      else if cnt + 1 = NFP_CCM_MBOX_BATCH_LIMIT then 1
      else 1 + batch_more space (cnt + 1) queue)"

section \<open>The threads and the work items\<close>

text \<open>Who runs the mailbox: the thread that sent a message, the work item that runs the queue for a posted
  message, the work item that waits for a posted message, or another user of the control memory.\<close>

datatype agent = Thread nat | Runq_work | Wait_work | Other

text \<open>Where the thread that sent a message is: waiting for it to be done or to be the next to run, taking the
  lock (with whether its wait timed out), running the queue, waiting for the runner, or back at its caller.
  A posted message has no thread.\<close>

datatype mbox_pc = Idle | Waiting | Locking bool | In_run | Wait_done | Posted | Returned "errno option"

text \<open>The lock of the control memory has an owner; a batch has an agent, the last message, and whether it was
  copied in.  \<open>mb_done\<close> are the completed messages, \<open>mb_freed\<close> counts how often a buffer was freed, and
  \<open>mb_warned\<close> records that a \<open>WARN_ON\<close> fired or that the code followed a null pointer.\<close>

record mbox =
  mb_queue :: "mbox_skb list"
  mb_tag :: u16
  mb_bar :: ctrl_bar
  mb_wait_work :: bool
  mb_runq_work :: bool
  mb_owner :: "agent option"
  mb_runner :: "(agent \<times> nat \<times> bool) option"
  mb_pc :: "nat \<Rightarrow> mbox_pc"
  mb_done :: "nat \<Rightarrow> mbox_skb option"
  mb_freed :: "nat \<Rightarrow> nat"
  mb_warned :: bool

definition nfp_ccm_mbox_alloc :: "ctrl_bar \<Rightarrow> mbox" where
  "nfp_ccm_mbox_alloc bar =
     \<lparr> mb_queue = [], mb_tag = 0, mb_bar = bar, mb_wait_work = False, mb_runq_work = False, mb_owner = None,
       mb_runner = None, mb_pc = (\<lambda>_. Idle), mb_done = (\<lambda>_. None), mb_freed = (\<lambda>_. 0), mb_warned = False \<rparr>"

definition free_skb :: "nat \<Rightarrow> mbox \<Rightarrow> mbox" where
  "free_skb i mb = mb\<lparr> mb_freed := (mb_freed mb)(i := mb_freed mb i + 1) \<rparr>"

definition set_pc :: "nat \<Rightarrow> mbox_pc \<Rightarrow> mbox \<Rightarrow> mbox" where
  "set_pc i pc mb = mb\<lparr> mb_pc := (mb_pc mb)(i := pc) \<rparr>"

definition mb_warn :: "mbox \<Rightarrow> mbox" where
  "mb_warn mb = mb\<lparr> mb_warned := True \<rparr>"

definition nfp_ccm_mbox_mark_next_runner :: "mbox \<Rightarrow> mbox" where
  "nfp_ccm_mbox_mark_next_runner mb =
     (case mb_queue mb of
        [] \<Rightarrow> mb
      | skb # queue \<Rightarrow>
          mb\<lparr> mb_queue := skb\<lparr> cb_state := NFP_NET_MBOX_CMSG_STATE_NEXT \<rparr> # queue,
              mb_runq_work := mb_runq_work mb \<or> cb_posted skb \<rparr>)"

text \<open>\<open>nfp_ccm_mbox_run_queue_unlock\<close> up to the point where it releases the queue lock: the batch is chosen.\<close>

definition run_queue_batch :: "nfp_net_tlv_caps \<Rightarrow> agent \<Rightarrow> mbox \<Rightarrow> mbox" where
  "run_queue_batch caps a mb =
     (case mb_queue mb of
        [] \<Rightarrow> mb_warn mb
      | skb # queue \<Rightarrow>
          let space = int (mbox_len caps) - int NFP_NET_CFG_MBOX_SIMPLE_VAL - 4 - (4 + int (cb_max_len skb));
              n = batch_more space 1 queue;
              batch = skb # map nfp_ccm_mbox_set_busy (take n queue) in
          mb\<lparr> mb_queue := batch @ drop n queue, mb_runner := Some (a, skb_id (last batch), False) \<rparr>)"


definition complete_batch :: "(mbox_skb \<Rightarrow> mbox_skb) \<Rightarrow> bool \<Rightarrow> nat \<Rightarrow> mbox \<Rightarrow> mbox" where
  "complete_batch f consume lst mb =
     (case dequeue_until lst (mb_queue mb) of
        (batch, queue) \<Rightarrow>
          nfp_ccm_mbox_mark_next_runner
            (mb\<lparr> mb_queue := queue,
                 mb_done := (\<lambda>i. case find (\<lambda>skb. skb_id skb = i) batch of
                                   Some skb \<Rightarrow> Some (f skb) | None \<Rightarrow> mb_done mb i),
                 mb_freed := (\<lambda>i. mb_freed mb i +
                   of_bool (consume \<and> (\<exists>skb\<in>set batch. skb_id skb = i \<and> cb_posted skb))) \<rparr>))"

definition nfp_ccm_mbox_copy_out :: "nfp_net_tlv_caps \<Rightarrow> nat \<Rightarrow> mbox \<Rightarrow> mbox" where
  "nfp_ccm_mbox_copy_out caps lst mb =
     (let data = mbox_off caps + NFP_NET_CFG_MBOX_SIMPLE_VAL; end_off = data + mbox_len caps in
      complete_batch complete_reply True lst
        (mb\<lparr> mb_queue := copy_out_loop (mb_bar mb) end_off lst data (mb_queue mb) \<rparr>))"

definition nfp_ccm_mbox_mark_all_err :: "nat \<Rightarrow> errno \<Rightarrow> mbox \<Rightarrow> mbox" where
  "nfp_ccm_mbox_mark_all_err lst err mb = complete_batch (complete_err err) False lst mb"

text \<open>The end of a batch: the firmware was waited for, with an error or not, and left \<open>bar\<close> behind.\<close>

definition mbox_finish :: "nfp_net_tlv_caps \<Rightarrow> bool \<Rightarrow> ctrl_bar \<Rightarrow> nat \<Rightarrow> mbox \<Rightarrow> mbox" where
  "mbox_finish caps err bar lst mb =
     (let mb = mb\<lparr> mb_bar := bar, mb_runner := None \<rparr> in
      if err then nfp_ccm_mbox_mark_all_err lst EIO mb else nfp_ccm_mbox_copy_out caps lst mb)"

definition nfp_ccm_mbox_skb_return :: "nat \<Rightarrow> mbox_skb \<Rightarrow> mbox \<Rightarrow> mbox" where
  "nfp_ccm_mbox_skb_return i skb mb =
     set_pc i (Returned (cb_err skb)) (if cb_err skb \<noteq> None then free_skb i mb else mb)"

definition nfp_ccm_mbox_msg_enqueue ::
  "mbox_skb \<Rightarrow> nfp_ccm_type \<Rightarrow> bool \<Rightarrow> mbox \<Rightarrow> unit result \<times> mbox" where
  "nfp_ccm_mbox_msg_enqueue skb type critical mb =
     (if \<not> critical \<and> length (mb_queue mb) \<ge> NFP_CCM_MAX_QLEN then (Inl EBUSY, mb)
      else
        (Inr (), mb\<lparr> mb_queue := mb_queue mb @ [skb\<lparr> skb_data := ccm_set_hdr (skb_data skb) type (mb_tag mb) \<rparr>],
                     mb_tag := mb_tag mb + 1 \<rparr>))"

definition err_free_skb :: "nat \<Rightarrow> errno \<Rightarrow> mbox \<Rightarrow> mbox" where
  "err_free_skb i err mb = set_pc i (Returned (Some err)) (free_skb i mb)"

text \<open>\<open>__nfp_ccm_mbox_communicate\<close> up to the first wait, or to the end of the choice of a batch.\<close>

definition nfp_ccm_mbox_communicate ::
  "nfp_net_tlv_caps \<Rightarrow> mbox_skb \<Rightarrow> nfp_ccm_type \<Rightarrow> nat \<Rightarrow> nat \<Rightarrow> bool \<Rightarrow> bool \<Rightarrow> mbox \<Rightarrow> mbox" where
  "nfp_ccm_mbox_communicate caps skb type reply_size max_reply_size critical expand_ok mb =
     (case nfp_ccm_mbox_msg_prepare caps skb type reply_size max_reply_size expand_ok of
        Inl err \<Rightarrow> err_free_skb (skb_id skb) err mb
      | Inr skb \<Rightarrow>
          case nfp_ccm_mbox_msg_enqueue skb type critical mb of
            (Inl err, mb) \<Rightarrow> err_free_skb (skb_id skb) err mb
          | (Inr _, mb) \<Rightarrow>
              if nfp_ccm_mbox_is_first (mb_queue mb) (skb_id skb)
              then run_queue_batch caps (Thread (skb_id skb)) (set_pc (skb_id skb) In_run mb)
              else set_pc (skb_id skb) Waiting mb)"

text \<open>After the wait the thread takes the queue lock again (\<open>to\<close>: the wait timed out).\<close>

definition nfp_ccm_mbox_unlink :: "nat \<Rightarrow> mbox_skb \<Rightarrow> mbox \<Rightarrow> mbox" where
  "nfp_ccm_mbox_unlink i skb mb =
     (if nfp_ccm_mbox_in_progress skb then set_pc i Wait_done mb
      else
        let was_first = nfp_ccm_mbox_should_run skb;
            mb = mb\<lparr> mb_queue := filter (\<lambda>skb. skb_id skb \<noteq> i) (mb_queue mb) \<rparr>;
            mb = (if was_first then nfp_ccm_mbox_mark_next_runner mb else mb) in
        err_free_skb i ETIMEDOUT mb)"

definition communicate_relock :: "nfp_net_tlv_caps \<Rightarrow> nat \<Rightarrow> bool \<Rightarrow> mbox_skb \<Rightarrow> mbox \<Rightarrow> mbox" where
  "communicate_relock caps i to skb mb =
     (if nfp_ccm_mbox_is_first (mb_queue mb) i then run_queue_batch caps (Thread i) (set_pc i In_run mb)
      else nfp_ccm_mbox_unlink i skb (if to then mb else mb_warn mb))"

definition nfp_ccm_mbox_post_runq_work :: "nfp_net_tlv_caps \<Rightarrow> mbox \<Rightarrow> mbox" where
  "nfp_ccm_mbox_post_runq_work caps mb =
     (case mb_queue mb of
        [] \<Rightarrow> mb_warn mb
      | skb # _ \<Rightarrow>
          if \<not> cb_posted skb \<or> \<not> nfp_ccm_mbox_should_run skb then mb_warn mb
          else run_queue_batch caps Runq_work mb)"

definition nfp_ccm_mbox_post_wait_work :: "nfp_net_tlv_caps \<Rightarrow> bool \<Rightarrow> ctrl_bar \<Rightarrow> mbox \<Rightarrow> mbox" where
  "nfp_ccm_mbox_post_wait_work caps err bar mb =
     (case mb_queue mb of
        [] \<Rightarrow> mb_warn mb
      | skb # _ \<Rightarrow> if \<not> cb_posted skb then mb_warn mb else mbox_finish caps err bar (skb_id skb) mb)"

definition nfp_ccm_mbox_post ::
  "nfp_net_tlv_caps \<Rightarrow> mbox_skb \<Rightarrow> nfp_ccm_type \<Rightarrow> nat \<Rightarrow> bool \<Rightarrow> mbox \<Rightarrow> mbox" where
  "nfp_ccm_mbox_post caps skb type max_reply_size expand_ok mb =
     (case nfp_ccm_mbox_msg_prepare caps skb type 0 max_reply_size expand_ok of
        Inl err \<Rightarrow> err_free_skb (skb_id skb) err mb
      | Inr skb \<Rightarrow>
          case nfp_ccm_mbox_msg_enqueue (nfp_ccm_mbox_mark_posted skb) type False mb of
            (Inl err, mb) \<Rightarrow> err_free_skb (skb_id skb) err mb
          | (Inr _, mb) \<Rightarrow>
              let mb = set_pc (skb_id skb) Posted mb in
              if \<not> nfp_ccm_mbox_is_first (mb_queue mb) (skb_id skb) then mb
              else if mb_owner mb \<noteq> None then nfp_ccm_mbox_mark_next_runner mb
              else
                case nfp_ccm_mbox_copy_in caps (mb_bar mb) (skb_id skb) (mb_queue mb) of
                  None \<Rightarrow> mb_warn mb
                | Some bar \<Rightarrow> mb\<lparr> mb_owner := Some Wait_work, mb_bar := bar, mb_wait_work := True,
                                 mb_runner := Some (Wait_work, skb_id skb, True) \<rparr>)"

text \<open>One step of the system; \<open>None\<close> when it cannot happen.  A work item does not run twice at a time.\<close>

datatype mbox_event =
    Communicate mbox_skb nfp_ccm_type nat nat bool bool
  | Post mbox_skb nfp_ccm_type nat bool
  | Wake nat
  | Timeout nat
  | Relock nat
  | Reap nat
  | Runq
  | Lock
  | Exchange bool ctrl_bar
  | Wait bool ctrl_bar
  | Unlock
  | Other_lock
  | Other_unlock

definition mbox_lookup :: "mbox \<Rightarrow> nat \<Rightarrow> mbox_skb option" where
  "mbox_lookup mb i = (case find (\<lambda>skb. skb_id skb = i) (mb_queue mb) of Some skb \<Rightarrow> Some skb | None \<Rightarrow> mb_done mb i)"

fun mbox_do :: "nfp_net_tlv_caps \<Rightarrow> mbox_event \<Rightarrow> mbox \<Rightarrow> mbox option" where
  "mbox_do caps (Communicate skb type reply_size max_reply_size critical expand_ok) mb =
     (if mb_pc mb (skb_id skb) \<noteq> Idle then None
      else Some (nfp_ccm_mbox_communicate caps skb type reply_size max_reply_size critical expand_ok mb))"
| "mbox_do caps (Post skb type max_reply_size expand_ok) mb =
     (if mb_pc mb (skb_id skb) \<noteq> Idle then None
      else Some (nfp_ccm_mbox_post caps skb type max_reply_size expand_ok mb))"
| "mbox_do caps (Wake i) mb =
     (case (mb_pc mb i, mbox_lookup mb i) of
        (Waiting, Some skb) \<Rightarrow>
          if nfp_ccm_mbox_done skb then Some (nfp_ccm_mbox_skb_return i skb mb)
          else if nfp_ccm_mbox_should_run skb then Some (set_pc i (Locking False) mb)
          else None
      | _ \<Rightarrow> None)"
| "mbox_do caps (Timeout i) mb =
     (case (mb_pc mb i, mbox_lookup mb i) of
        (Waiting, Some skb) \<Rightarrow>
          if nfp_ccm_mbox_done skb then Some (nfp_ccm_mbox_skb_return i skb mb)
          else Some (set_pc i (Locking True) mb)
      | _ \<Rightarrow> None)"
| "mbox_do caps (Relock i) mb =
     (case (mb_pc mb i, mbox_lookup mb i) of
        (Locking to, Some skb) \<Rightarrow> Some (communicate_relock caps i to skb mb)
      | _ \<Rightarrow> None)"
| "mbox_do caps (Reap i) mb =
     (case (mb_pc mb i, mbox_lookup mb i) of
        (Wait_done, Some skb) \<Rightarrow>
          if \<not> nfp_ccm_mbox_done skb then None
          else
            let mb = nfp_ccm_mbox_skb_return i skb mb in
            Some (case cb_err skb of None \<Rightarrow> mb | Some err \<Rightarrow> err_free_skb i err mb)
      | _ \<Rightarrow> None)"
| "mbox_do caps Runq mb =
     (if \<not> mb_runq_work mb \<or> mb_owner mb = Some Runq_work then None
      else Some (nfp_ccm_mbox_post_runq_work caps (mb\<lparr> mb_runq_work := False \<rparr>)))"
| "mbox_do caps Lock mb =
     (case (mb_runner mb, mb_owner mb) of
        (Some (a, lst, False), None) \<Rightarrow>
          Some (case nfp_ccm_mbox_copy_in caps (mb_bar mb) lst (mb_queue mb) of
                  None \<Rightarrow> mb_warn mb
                | Some bar \<Rightarrow> mb\<lparr> mb_owner := Some a, mb_bar := bar, mb_runner := Some (a, lst, True) \<rparr>)
      | _ \<Rightarrow> None)"
| "mbox_do caps (Exchange err bar) mb =
     (case mb_runner mb of
        Some (a, lst, True) \<Rightarrow> if a = Wait_work then None else Some (mbox_finish caps err bar lst mb)
      | _ \<Rightarrow> None)"
| "mbox_do caps (Wait err bar) mb =
     (if \<not> mb_wait_work mb then None
      else Some (nfp_ccm_mbox_post_wait_work caps err bar (mb\<lparr> mb_wait_work := False \<rparr>)))"
| "mbox_do caps Unlock mb =
     (case mb_owner mb of
        None \<Rightarrow> None
      | Some a \<Rightarrow>
          if a = Other \<or> (case mb_runner mb of Some (b, _, k) \<Rightarrow> k \<and> a = b | None \<Rightarrow> False) then None
          else
            let mb = mb\<lparr> mb_owner := None \<rparr> in
            Some (case a of
                    Thread i \<Rightarrow> (case mb_done mb i of Some skb \<Rightarrow> nfp_ccm_mbox_skb_return i skb mb | None \<Rightarrow> mb_warn mb)
                  | _ \<Rightarrow> mb))"
| "mbox_do caps Other_lock mb = (if mb_owner mb = None then Some (mb\<lparr> mb_owner := Some Other \<rparr>) else None)"
| "mbox_do caps Other_unlock mb = (if mb_owner mb = Some Other then Some (mb\<lparr> mb_owner := None \<rparr>) else None)"

inductive mbox_reach :: "nfp_net_tlv_caps \<Rightarrow> mbox \<Rightarrow> bool" for caps where
  start: "mbox_reach caps (nfp_ccm_mbox_alloc bar)"
| step: "mbox_reach caps mb \<Longrightarrow> mbox_do caps ev mb = Some mb' \<Longrightarrow> mbox_reach caps mb'"


section \<open>The queue\<close>

lemma find_id:
  assumes "distinct (map skb_id q)" "s \<in> set q"
  shows "find (\<lambda>s'. skb_id s' = skb_id s) q = Some s"
  using assms by (induction q) auto

lemma find_id_None: "find (\<lambda>s. skb_id s = i) q = None \<longleftrightarrow> i \<notin> skb_id ` set q"
  by (auto simp: find_None_iff)

lemma dequeue_until_batch:
  assumes "b \<noteq> []" "skb_id (last b) = lst" "distinct (map skb_id b)"
  shows "dequeue_until lst (b @ r) = (b, r)"
  using assms
proof (induction b)
  case (Cons s b)
  show ?case
  proof (cases "b = []")
    case False
    then have "lst \<in> skb_id ` set b" using Cons.prems by auto
    then have "skb_id s \<noteq> lst" using Cons.prems(3) by auto
    with Cons False show ?thesis by simp
  qed (use Cons in simp)
qed simp

lemma copy_in_batch:
  assumes "b \<noteq> []" "skb_id (last b) = lst"
  shows "copy_in_msgs bar off lst (b @ r) \<noteq> None"
  using assms
proof (induction b arbitrary: bar off)
  case (Cons s b)
  then show ?case by (cases b) (auto split: prod.splits)
qed simp

lemma find_req_batch:
  assumes "nfp_ccm_mbox_find_req (b @ r) tag lst = Some s" "b \<noteq> []" "skb_id (last b) = lst"
  shows "s \<in> set b"
  using assms
proof (induction b)
  case (Cons x b)
  then show ?case by (cases b) (auto split: if_splits)
qed simp

text \<open>What the walk over the replies keeps of a message.\<close>

definition same_skb :: "mbox_skb \<Rightarrow> mbox_skb \<Rightarrow> bool" where
  "same_skb s s' \<longleftrightarrow> skb_id s' = skb_id s \<and> cb_posted s' = cb_posted s"

lemma upd_skb_batch:
  assumes "i \<notin> skb_id ` set r"
  shows "upd_skb i f (b @ r) = upd_skb i f b @ r"
proof -
  have "map (\<lambda>s. if skb_id s = i then f s else s) r = r"
    using assms by (intro map_idI) auto
  then show ?thesis by (simp add: upd_skb_def)
qed

lemma upd_skb_same:
  "(\<And>s. same_skb s (f s)) \<Longrightarrow> list_all2 same_skb b (upd_skb i f b)"
  by (auto simp: upd_skb_def list_all2_conv_all_nth same_skb_def)

lemma same_skb_ids: "list_all2 same_skb b b' \<Longrightarrow> map skb_id b' = map skb_id b \<and> map cb_posted b' = map cb_posted b"
  by (induction rule: list_all2_induct) (auto simp: same_skb_def)

lemma last_same: "list_all2 same_skb b b' \<Longrightarrow> b \<noteq> [] \<Longrightarrow> b' \<noteq> [] \<and> skb_id (last b') = skb_id (last b)"
  using same_skb_ids [of b b'] by (metis last_map list.map_disc_iff)

lemma same_skb_trans: "list_all2 same_skb a b \<Longrightarrow> list_all2 same_skb b c \<Longrightarrow> list_all2 same_skb a c"
  by (rule list_all2_trans [of same_skb same_skb same_skb]) (auto simp: same_skb_def)

lemma copy_out_tlv_batch:
  assumes "b \<noteq> []" "skb_id (last b) = lst" "distinct (map skb_id (b @ r))"
  shows "\<exists>b' nxt. copy_out_tlv bar e lst data (b @ r) = (b' @ r, nxt) \<and> list_all2 same_skb b b'"
proof -
  have refl: "list_all2 same_skb b b" by (simp add: list.rel_refl same_skb_def)
  have upd: "\<exists>b'. upd_skb (skb_id s) f (b @ r) = b' @ r \<and> list_all2 same_skb b b'"
    if "s \<in> set b" "\<And>s. same_skb s (f s)" for s f
  proof -
    have "skb_id s \<notin> skb_id ` set r" using assms(3) that(1) by auto
    then show ?thesis using upd_skb_same [OF that(2)] by (auto simp: upd_skb_batch)
  qed
  have f: "same_skb s (reply_error s)" "same_skb s (copy_out_reply bar d len s)" for s d len
    by (simp_all add: same_skb_def reply_error_def copy_out_reply_def)
  define keeps where "keeps x \<longleftrightarrow> (\<exists>b'. fst x = b' @ r \<and> list_all2 same_skb b b')" for x :: "mbox_skb list \<times> bool"
  have k: "keeps (b @ r, nxt)" for nxt using refl by (auto simp: keeps_def)
  have i: "(c \<Longrightarrow> keeps x) \<Longrightarrow> (\<not> c \<Longrightarrow> keeps y) \<Longrightarrow> keeps (if c then x else y)" for c x y by simp
  have o: "(\<And>s. s \<in> set b \<Longrightarrow> keeps (g s)) \<Longrightarrow>
      keeps (case nfp_ccm_mbox_find_req (b @ r) tag lst of None \<Rightarrow> (b @ r, False) | Some s \<Rightarrow> g s)" for tag g
    using k find_req_batch [OF _ assms(1,2)] by (auto split: option.split)
  have u: "s \<in> set b \<Longrightarrow> (\<And>s. same_skb s (f s)) \<Longrightarrow> keeps (upd_skb (skb_id s) f (b @ r), nxt)" for s f nxt
    using upd [of s f] by (simp add: keeps_def)
  have "keeps (copy_out_tlv bar e lst data (b @ r))"
    unfolding copy_out_tlv_def Let_def by (intro i k o u) (simp_all add: f)
  then show ?thesis by (metis keeps_def surj_pair fst_conv)
qed

lemma copy_out_loop_batch:
  assumes "b \<noteq> []" "skb_id (last b) = lst" "distinct (map skb_id (b @ r))"
  shows "\<exists>b'. copy_out_loop bar e lst data (b @ r) = b' @ r \<and> list_all2 same_skb b b'"
  using assms
proof (induction bar e lst data "b @ r" arbitrary: b rule: copy_out_loop.induct)
  case (1 bar e lst data)
  obtain b' nxt where b': "copy_out_tlv bar e lst data (b @ r) = (b' @ r, nxt)" "list_all2 same_skb b b'"
    using copy_out_tlv_batch [OF 1(2-4)] by blast
  define d where "d = data + 4 + round_up4 (mbox_tlv_len (bar data))"
  show ?case
  proof (cases "\<not> nxt \<or> d + 4 > e")
    case True
    with b' show ?thesis by (auto simp: copy_out_loop.simps [of bar e lst data] d_def Let_def)
  next
    case False
    have "\<exists>b''. copy_out_loop bar e lst d (b' @ r) = b'' @ r \<and> list_all2 same_skb b' b''"
      using 1(1) [OF b'(1) [symmetric] d_def] False 1(2-4) last_same [OF b'(2)] same_skb_ids [OF b'(2)] by simp
    with b' False same_skb_trans [OF b'(2)] show ?thesis
      by (auto simp: copy_out_loop.simps [of bar e lst data] d_def Let_def)
  qed
qed

end
