(* ===== verification/NFP_Mbox_Proto.thy ===== *)
theory NFP_Mbox_Proto
  imports NFP_Mbox
begin

text \<open>
  The protocol of the mailbox queue (\<^verbatim>\<open>src/ccm_mbox.c\<close>): the invariant of the interleaved system of
  \<open>NFP_Mbox\<close>, that no message is lost and no warning fires, that a waiting message is always being worked on,
\<close>

section \<open>The protocol\<close>

text \<open>A thread that still refers to its message.\<close>

definition live :: "mbox_pc \<Rightarrow> bool" where
  "live pc \<longleftrightarrow> (case pc of Waiting \<Rightarrow> True | Locking _ \<Rightarrow> True | In_run \<Rightarrow> True | Wait_done \<Rightarrow> True | _ \<Rightarrow> False)"

lemma live_simps [simp]:
  "live Waiting" "live (Locking b)" "live In_run" "live Wait_done" "\<not> live Idle" "\<not> live Posted" "\<not> live (Returned e)"
  by (simp_all add: live_def)

text \<open>No batch is in progress: the head of the queue was told to run.  A batch is in progress: it is a prefix
  of the queue, and all but its first message are marked busy.\<close>

definition idle_states :: "mbox_skb list \<Rightarrow> bool" where
  "idle_states q \<longleftrightarrow> (case q of [] \<Rightarrow> True | s # r \<Rightarrow>
     cb_state s = NFP_NET_MBOX_CMSG_STATE_NEXT \<and> (\<forall>s\<in>set r. cb_state s = NFP_NET_MBOX_CMSG_STATE_QUEUED))"

definition run_states :: "nat \<Rightarrow> mbox_skb list \<Rightarrow> bool" where
  "run_states lst q \<longleftrightarrow> (\<exists>s b r. q = s # b @ r \<and> skb_id (last (s # b)) = lst \<and> \<not> nfp_ccm_mbox_in_progress s \<and>
     (\<forall>s\<in>set b. cb_state s = NFP_NET_MBOX_CMSG_STATE_BUSY) \<and> (\<forall>s\<in>set r. cb_state s = NFP_NET_MBOX_CMSG_STATE_QUEUED))"

definition queue_inv :: "mbox \<Rightarrow> bool" where
  "queue_inv mb \<longleftrightarrow> distinct (map skb_id (mb_queue mb)) \<and>
     (\<forall>s\<in>set (mb_queue mb). mb_done mb (skb_id s) = None \<and>
        (if cb_posted s then mb_pc mb (skb_id s) = Posted else live (mb_pc mb (skb_id s)))) \<and>
     (\<forall>i s. mb_done mb i = Some s \<longrightarrow> cb_state s = NFP_NET_MBOX_CMSG_STATE_DONE) \<and>
     (\<forall>i. live (mb_pc mb i) \<longrightarrow> mb_done mb i = None \<longrightarrow> i \<in> skb_id ` set (mb_queue mb)) \<and>
     (\<forall>i. mb_pc mb i = Idle \<longrightarrow> mb_done mb i = None)"

definition run_inv :: "mbox \<Rightarrow> bool" where
  "run_inv mb \<longleftrightarrow>
     (case mb_runner mb of
        None \<Rightarrow> idle_states (mb_queue mb) \<and> \<not> mb_wait_work mb \<and>
          (mb_runq_work mb \<longleftrightarrow> mb_queue mb \<noteq> [] \<and> cb_posted (hd (mb_queue mb)))
      | Some (a, lst, k) \<Rightarrow> run_states lst (mb_queue mb) \<and> \<not> mb_runq_work mb \<and> (k \<longleftrightarrow> mb_owner mb = Some a) \<and>
          (mb_wait_work mb \<longleftrightarrow> a = Wait_work) \<and>
          (case a of
             Thread i \<Rightarrow> skb_id (hd (mb_queue mb)) = i \<and> \<not> cb_posted (hd (mb_queue mb)) \<and> mb_pc mb i = In_run
           | Runq_work \<Rightarrow> cb_posted (hd (mb_queue mb))
           | Wait_work \<Rightarrow> cb_posted (hd (mb_queue mb)) \<and> k \<and> lst = skb_id (hd (mb_queue mb))
           | Other \<Rightarrow> False))"

definition pc_inv :: "mbox \<Rightarrow> bool" where
  "pc_inv mb \<longleftrightarrow>
     (\<forall>i. mb_pc mb i = Wait_done \<longrightarrow> mb_done mb i = None \<longrightarrow>
        (\<exists>s\<in>set (mb_queue mb). skb_id s = i \<and> cb_state s = NFP_NET_MBOX_CMSG_STATE_BUSY)) \<and>
     (\<forall>i. mb_pc mb i = Locking False \<longrightarrow> mb_runner mb = None \<and> nfp_ccm_mbox_is_first (mb_queue mb) i) \<and>
     (\<forall>i. mb_pc mb i = In_run \<longrightarrow> (\<exists>l k. mb_runner mb = Some (Thread i, l, k)) \<or> mb_owner mb = Some (Thread i)) \<and>
     (\<forall>i. mb_owner mb = Some (Thread i) \<longrightarrow>
        mb_pc mb i = In_run \<and> (mb_done mb i \<noteq> None \<or> (\<exists>l. mb_runner mb = Some (Thread i, l, True))))"

definition mbox_inv :: "mbox \<Rightarrow> bool" where
  "mbox_inv mb \<longleftrightarrow> queue_inv mb \<and> run_inv mb \<and> pc_inv mb \<and> \<not> mb_warned mb"

lemma queue_invI:
  assumes "distinct (map skb_id (mb_queue mb))"
    and "\<And>s. s \<in> set (mb_queue mb) \<Longrightarrow> mb_done mb (skb_id s) = None"
    and "\<And>s. s \<in> set (mb_queue mb) \<Longrightarrow> cb_posted s \<Longrightarrow> mb_pc mb (skb_id s) = Posted"
    and "\<And>s. s \<in> set (mb_queue mb) \<Longrightarrow> \<not> cb_posted s \<Longrightarrow> live (mb_pc mb (skb_id s))"
    and "\<And>i s. mb_done mb i = Some s \<Longrightarrow> cb_state s = NFP_NET_MBOX_CMSG_STATE_DONE"
    and "\<And>i. live (mb_pc mb i) \<Longrightarrow> mb_done mb i = None \<Longrightarrow> i \<in> skb_id ` set (mb_queue mb)"
    and "\<And>i. mb_pc mb i = Idle \<Longrightarrow> mb_done mb i = None"
  shows "queue_inv mb"
  using assms unfolding queue_inv_def by simp

lemma queue_invD:
  assumes "queue_inv mb"
  shows "distinct (map skb_id (mb_queue mb))"
    and "s \<in> set (mb_queue mb) \<Longrightarrow> mb_done mb (skb_id s) = None"
    and "s \<in> set (mb_queue mb) \<Longrightarrow> cb_posted s \<Longrightarrow> mb_pc mb (skb_id s) = Posted"
    and "s \<in> set (mb_queue mb) \<Longrightarrow> \<not> cb_posted s \<Longrightarrow> live (mb_pc mb (skb_id s))"
    and "mb_done mb i = Some s \<Longrightarrow> cb_state s = NFP_NET_MBOX_CMSG_STATE_DONE"
    and "live (mb_pc mb i) \<Longrightarrow> mb_done mb i = None \<Longrightarrow> i \<in> skb_id ` set (mb_queue mb)"
    and "mb_pc mb i = Idle \<Longrightarrow> mb_done mb i = None"
  using assms unfolding queue_inv_def by auto

lemma pc_invI:
  assumes "\<And>i. mb_pc mb i = Wait_done \<Longrightarrow> mb_done mb i = None \<Longrightarrow>
      \<exists>s\<in>set (mb_queue mb). skb_id s = i \<and> cb_state s = NFP_NET_MBOX_CMSG_STATE_BUSY"
    and "\<And>i. mb_pc mb i = Locking False \<Longrightarrow> mb_runner mb = None \<and> nfp_ccm_mbox_is_first (mb_queue mb) i"
    and "\<And>i. mb_pc mb i = In_run \<Longrightarrow> (\<exists>l k. mb_runner mb = Some (Thread i, l, k)) \<or> mb_owner mb = Some (Thread i)"
    and "\<And>i. mb_owner mb = Some (Thread i) \<Longrightarrow> mb_pc mb i = In_run"
    and "\<And>i. mb_owner mb = Some (Thread i) \<Longrightarrow> mb_done mb i = None \<Longrightarrow> \<exists>l. mb_runner mb = Some (Thread i, l, True)"
  shows "pc_inv mb"
  using assms unfolding pc_inv_def by blast

lemma pc_invD:
  assumes "pc_inv mb"
  shows "mb_pc mb i = Wait_done \<Longrightarrow> mb_done mb i = None \<Longrightarrow>
      \<exists>s\<in>set (mb_queue mb). skb_id s = i \<and> cb_state s = NFP_NET_MBOX_CMSG_STATE_BUSY"
    and "mb_pc mb i = Locking False \<Longrightarrow> mb_runner mb = None \<and> nfp_ccm_mbox_is_first (mb_queue mb) i"
    and "mb_pc mb i = In_run \<Longrightarrow> (\<exists>l k. mb_runner mb = Some (Thread i, l, k)) \<or> mb_owner mb = Some (Thread i)"
    and "mb_owner mb = Some (Thread i) \<Longrightarrow> mb_pc mb i = In_run"
    and "mb_owner mb = Some (Thread i) \<Longrightarrow> mb_done mb i = None \<Longrightarrow> \<exists>l. mb_runner mb = Some (Thread i, l, True)"
  using assms unfolding pc_inv_def by blast+

lemmas mbox_invs = queue_inv_def run_inv_def pc_inv_def

lemma mbox_inv_start: "mbox_inv (nfp_ccm_mbox_alloc bar)"
  by (simp add: mbox_inv_def mbox_invs nfp_ccm_mbox_alloc_def idle_states_def)

text \<open>The message of a thread, wherever it is.\<close>

lemma lookup_queue: "queue_inv mb \<Longrightarrow> s \<in> set (mb_queue mb) \<Longrightarrow> mbox_lookup mb (skb_id s) = Some s"
  using find_id [of "mb_queue mb" s] by (simp add: mbox_lookup_def queue_inv_def)

lemma lookup_cases:
  assumes "mbox_lookup mb i = Some s"
  obtains "s \<in> set (mb_queue mb)" "skb_id s = i" | "mb_done mb i = Some s" "i \<notin> skb_id ` set (mb_queue mb)"
  using assms find_SomeD [of "\<lambda>s. skb_id s = i" "mb_queue mb"] find_id_None [of i "mb_queue mb"]
  by (auto simp: mbox_lookup_def split: option.splits)

lemma run_statesI:
  "q = s # b @ r \<Longrightarrow> skb_id (last (s # b)) = lst \<Longrightarrow> \<not> nfp_ccm_mbox_in_progress s \<Longrightarrow>
   (\<And>s. s \<in> set b \<Longrightarrow> cb_state s = NFP_NET_MBOX_CMSG_STATE_BUSY) \<Longrightarrow>
   (\<And>s. s \<in> set r \<Longrightarrow> cb_state s = NFP_NET_MBOX_CMSG_STATE_QUEUED) \<Longrightarrow> run_states lst q"
  unfolding run_states_def by blast

lemma run_statesE:
  assumes "run_states lst q"
  obtains s b r where "q = s # b @ r" "skb_id (last (s # b)) = lst" "\<not> nfp_ccm_mbox_in_progress s"
    "\<And>s. s \<in> set b \<Longrightarrow> cb_state s = NFP_NET_MBOX_CMSG_STATE_BUSY"
    "\<And>s. s \<in> set r \<Longrightarrow> cb_state s = NFP_NET_MBOX_CMSG_STATE_QUEUED"
  using assms unfolding run_states_def by blast

lemma run_states_append:
  assumes "run_states lst q" "cb_state x = NFP_NET_MBOX_CMSG_STATE_QUEUED"
  shows "run_states lst (q @ [x])"
  using assms(1)
proof (rule run_statesE)
  fix s b r
  assume "q = s # b @ r" "skb_id (last (s # b)) = lst" "\<not> nfp_ccm_mbox_in_progress s"
    "\<And>s. s \<in> set b \<Longrightarrow> cb_state s = NFP_NET_MBOX_CMSG_STATE_BUSY"
    "\<And>s. s \<in> set r \<Longrightarrow> cb_state s = NFP_NET_MBOX_CMSG_STATE_QUEUED"
  with assms(2) show ?thesis by (intro run_statesI [of _ s b "r @ [x]"]) auto
qed

lemma idle_states_append: "idle_states q \<Longrightarrow> q \<noteq> [] \<Longrightarrow> cb_state s = NFP_NET_MBOX_CMSG_STATE_QUEUED \<Longrightarrow> idle_states (q @ [s])"
  by (cases q) (auto simp: idle_states_def)

text \<open>The choice of a batch.\<close>

lemma run_queue_batch_ids: "map skb_id (mb_queue (run_queue_batch caps a mb)) = map skb_id (mb_queue mb)"
proof -
  have busy: "map skb_id (map nfp_ccm_mbox_set_busy q) = map skb_id q" for q by (simp add: nfp_ccm_mbox_set_busy_def)
  have "map skb_id (map nfp_ccm_mbox_set_busy (take n q) @ drop n q) = map skb_id q" for n q
    unfolding map_append busy by (simp only: append_take_drop_id flip: map_append)
  then show ?thesis by (cases "mb_queue mb") (simp_all add: run_queue_batch_def mb_warn_def Let_def)
qed

lemma run_queue_batch_states:
  assumes "mb_queue mb = s # q" "\<not> nfp_ccm_mbox_in_progress s" "\<forall>s\<in>set q. cb_state s = NFP_NET_MBOX_CMSG_STATE_QUEUED"
  obtains b r lst where "run_queue_batch caps a mb = mb\<lparr> mb_queue := s # b @ r, mb_runner := Some (a, lst, False) \<rparr>"
    "run_states lst (s # b @ r)" "map skb_id (b @ r) = map skb_id q" "map cb_posted (b @ r) = map cb_posted q"
proof -
  define n where "n = batch_more (int (mbox_len caps) - int NFP_NET_CFG_MBOX_SIMPLE_VAL - 4 - (4 + int (cb_max_len s))) 1 q"
  define b where "b = map nfp_ccm_mbox_set_busy (take n q)"
  have "map skb_id b = map skb_id (take n q)" "map cb_posted b = map cb_posted (take n q)"
    by (simp_all add: b_def nfp_ccm_mbox_set_busy_def)
  then have "map skb_id (b @ drop n q) = map skb_id q" "map cb_posted (b @ drop n q) = map cb_posted q"
    by (simp_all only: map_append) (simp_all only: append_take_drop_id flip: map_append)
  moreover have "run_states (skb_id (last (s # b))) (s # b @ drop n q)"
    by (rule run_statesI [of _ s b "drop n q"])
      (use assms in \<open>auto simp: b_def nfp_ccm_mbox_set_busy_def dest: in_set_dropD\<close>)
  moreover have "run_queue_batch caps a mb = mb\<lparr> mb_queue := s # b @ drop n q, mb_runner := Some (a, skb_id (last (s # b)), False) \<rparr>"
    using assms(1) by (simp add: run_queue_batch_def Let_def n_def b_def)
  ultimately show thesis by (intro that)
qed


lemma map_eq_set_image: "map f xs = map f ys \<Longrightarrow> f ` set xs = f ` set ys"
  by (metis list.set_map)

lemma queue_inv_cong:
  assumes "queue_inv mb" and "map skb_id (mb_queue mb') = map skb_id (mb_queue mb)"
    and "map cb_posted (mb_queue mb') = map cb_posted (mb_queue mb)"
    and "mb_pc mb' = mb_pc mb" "mb_done mb' = mb_done mb"
  shows "queue_inv mb'"
proof -
  have "\<exists>s'\<in>set (mb_queue mb). skb_id s' = skb_id s \<and> cb_posted s' = cb_posted s" if s: "s \<in> set (mb_queue mb')" for s
  proof -
    obtain n where n: "n < length (mb_queue mb')" "s = mb_queue mb' ! n" using s by (metis in_set_conv_nth)
    have l: "length (mb_queue mb') = length (mb_queue mb)" using assms(2) by (metis length_map)
    have "skb_id (mb_queue mb ! n) = skb_id s" "cb_posted (mb_queue mb ! n) = cb_posted s"
      using n l assms(2,3) by (metis nth_map)+
    with n l show ?thesis by (metis nth_mem)
  qed
  with assms map_eq_set_image [OF assms(2)] show ?thesis unfolding queue_inv_def by (metis (mono_tags, lifting))
qed

text \<open>A run starts at the head of a queue of which nothing is in progress.\<close>

lemma start_run_inv:
  assumes q: "queue_inv mb" "mb_queue mb = s # q" "\<not> nfp_ccm_mbox_in_progress s"
      "\<forall>s\<in>set q. cb_state s = NFP_NET_MBOX_CMSG_STATE_QUEUED"
    and w: "\<not> mb_wait_work mb" "\<not> mb_runq_work mb" "\<not> mb_warned mb" "mb_owner mb \<noteq> Some a"
    and a: "(\<exists>i. a = Thread i \<and> skb_id s = i \<and> \<not> cb_posted s \<and> mb_pc mb i = In_run) \<or> (a = Runq_work \<and> cb_posted s)"
    and pc: "\<And>i. mb_pc mb i = Wait_done \<Longrightarrow> mb_done mb i \<noteq> None" "\<And>i. mb_pc mb i \<noteq> Locking False"
      "\<And>i. mb_pc mb i = In_run \<Longrightarrow> a = Thread i \<or> mb_owner mb = Some (Thread i)"
      "\<And>i. mb_owner mb = Some (Thread i) \<Longrightarrow> mb_pc mb i = In_run \<and> mb_done mb i \<noteq> None"
  shows "mbox_inv (run_queue_batch caps a mb)"
proof -
  obtain b r lst where run: "run_queue_batch caps a mb = mb\<lparr> mb_queue := s # b @ r, mb_runner := Some (a, lst, False) \<rparr>"
      (is "_ = ?mb")
    and st: "run_states lst (s # b @ r)" and m: "map skb_id (b @ r) = map skb_id q" "map cb_posted (b @ r) = map cb_posted q"
    using run_queue_batch_states [OF q(2-4)] by blast
  have "queue_inv ?mb" by (rule queue_inv_cong [OF q(1)]) (use q(2) m in simp_all)
  moreover have "run_inv ?mb" using st w a by (auto simp: run_inv_def)
  moreover have "pc_inv ?mb" using pc w(4) unfolding pc_inv_def by fastforce
  ultimately show ?thesis using w(3) by (simp add: mbox_inv_def run)
qed

text \<open>What holds between batches.\<close>

lemma idle_inv:
  assumes "mbox_inv mb" "mb_runner mb = None"
  shows "s \<in> set (mb_queue mb) \<Longrightarrow> \<not> nfp_ccm_mbox_in_progress s"
    and "mb_pc mb i = Wait_done \<Longrightarrow> mb_done mb i \<noteq> None"
    and "mb_pc mb i = In_run \<longleftrightarrow> mb_owner mb = Some (Thread i)"
    and "mb_owner mb = Some (Thread i) \<Longrightarrow> mb_done mb i \<noteq> None"
    and "\<not> mb_wait_work mb" and "mb_queue mb = x # q \<Longrightarrow> \<forall>s\<in>set q. cb_state s = NFP_NET_MBOX_CMSG_STATE_QUEUED"
    and "mb_queue mb = x # q \<Longrightarrow> cb_state x = NFP_NET_MBOX_CMSG_STATE_NEXT"
    and "mb_runq_work mb \<longleftrightarrow> mb_queue mb \<noteq> [] \<and> cb_posted (hd (mb_queue mb))"
proof -
  have st: "idle_states (mb_queue mb)" and rest: "pc_inv mb" "\<not> mb_wait_work mb"
    "mb_runq_work mb \<longleftrightarrow> mb_queue mb \<noteq> [] \<and> cb_posted (hd (mb_queue mb))"
    using assms by (simp_all add: mbox_inv_def run_inv_def)
  show p: "s \<in> set (mb_queue mb) \<Longrightarrow> \<not> nfp_ccm_mbox_in_progress s" for s
    using st by (auto simp: idle_states_def nfp_ccm_mbox_in_progress_def split: list.splits)
  show "mb_pc mb i = Wait_done \<Longrightarrow> mb_done mb i \<noteq> None"
  proof
    assume "mb_pc mb i = Wait_done" "mb_done mb i = None"
    then obtain s where "s \<in> set (mb_queue mb)" "cb_state s = NFP_NET_MBOX_CMSG_STATE_BUSY"
      using pc_invD(1) [OF rest(1)] by blast
    with p [of s] show False by (simp add: nfp_ccm_mbox_in_progress_def)
  qed
  show "mb_pc mb i = In_run \<longleftrightarrow> mb_owner mb = Some (Thread i)"
    and "mb_owner mb = Some (Thread i) \<Longrightarrow> mb_done mb i \<noteq> None"
    using pc_invD(3-5) [OF rest(1), of i] assms(2) by auto
  show "mb_queue mb = x # q \<Longrightarrow> \<forall>s\<in>set q. cb_state s = NFP_NET_MBOX_CMSG_STATE_QUEUED"
    and "mb_queue mb = x # q \<Longrightarrow> cb_state x = NFP_NET_MBOX_CMSG_STATE_NEXT"
    using st by (simp_all add: idle_states_def)
qed (use assms in \<open>simp_all add: mbox_inv_def run_inv_def\<close>)

text \<open>A message joins a queue that is not empty.\<close>

lemma enqueue_inv:
  assumes inv: "mbox_inv mb" and "mb_queue mb \<noteq> []" and x: "mb_pc mb (skb_id x) = Idle" "cb_state x = NFP_NET_MBOX_CMSG_STATE_QUEUED"
    and pc: "pc = (if cb_posted x then Posted else Waiting)"
  shows "mbox_inv (mb\<lparr> mb_queue := mb_queue mb @ [x], mb_tag := t, mb_pc := (mb_pc mb)(skb_id x := pc) \<rparr>)" (is "mbox_inv ?mb")
proof -
  have new: "skb_id x \<notin> skb_id ` set (mb_queue mb)" "mb_done mb (skb_id x) = None"
    using inv x(1) by (fastforce simp: mbox_inv_def queue_inv_def split: if_splits)+
  have qi: "queue_inv mb" using inv by (simp add: mbox_inv_def)
  have old: "skb_id s \<noteq> skb_id x" if "s \<in> set (mb_queue mb)" for s using that new(1) by (metis image_eqI)
  have "queue_inv ?mb"
    by (rule queue_invI) (use queue_invD [OF qi] new old pc in \<open>auto split: if_splits\<close>)
  moreover have "run_inv ?mb"
  proof (cases "mb_runner mb")
    case None
    with inv assms(2) x(2) show ?thesis by (simp add: mbox_inv_def run_inv_def idle_states_append)
  next
    case (Some r)
    with inv assms(2) x run_states_append [of _ "mb_queue mb" x] show ?thesis
      by (auto simp: mbox_inv_def run_inv_def split: prod.splits agent.splits)
  qed
  moreover have pi: "pc_inv mb" using inv by (simp add: mbox_inv_def)
  have "pc_inv ?mb"
  proof (rule pc_invI)
    fix i assume "mb_pc ?mb i = Wait_done" "mb_done ?mb i = None"
    with pc_invD(1) [OF pi, of i] pc show "\<exists>s\<in>set (mb_queue ?mb). skb_id s = i \<and> cb_state s = NFP_NET_MBOX_CMSG_STATE_BUSY"
      by (auto split: if_splits)
  next
    fix i assume "mb_pc ?mb i = Locking False"
    with pc_invD(2) [OF pi, of i] pc show "mb_runner ?mb = None \<and> nfp_ccm_mbox_is_first (mb_queue ?mb) i"
      by (auto simp: nfp_ccm_mbox_is_first_def split: if_splits)
  qed (use pc_invD(3-5) [OF pi] pc x(1) in \<open>auto split: if_splits\<close>)
  ultimately show ?thesis using inv by (simp add: mbox_inv_def)
qed


lemma queue_inv_frame:
  assumes qi: "queue_inv mb" and same: "mb_queue mb' = mb_queue mb" "mb_done mb' = mb_done mb"
    and pc: "\<And>j. mb_pc mb' j \<noteq> mb_pc mb j \<Longrightarrow> live (mb_pc mb' j) \<and> live (mb_pc mb j)"
  shows "queue_inv mb'"
proof (rule queue_invI, unfold same)
  have np: "mb_pc mb' j = Posted \<longleftrightarrow> mb_pc mb j = Posted" "live (mb_pc mb' j) \<longleftrightarrow> live (mb_pc mb j)"
    "mb_pc mb' j = Idle \<Longrightarrow> mb_pc mb j = Idle" for j
    using pc [of j] by (metis live_simps(5,6))+
  note D = queue_invD [OF qi]
  show "s \<in> set (mb_queue mb) \<Longrightarrow> cb_posted s \<Longrightarrow> mb_pc mb' (skb_id s) = Posted" for s using D(3) np(1) by simp
  show "s \<in> set (mb_queue mb) \<Longrightarrow> \<not> cb_posted s \<Longrightarrow> live (mb_pc mb' (skb_id s))" for s using D(4) np(2) by simp
  show "live (mb_pc mb' i) \<Longrightarrow> mb_done mb i = None \<Longrightarrow> i \<in> skb_id ` set (mb_queue mb)" for i using D(6) np(2) by simp
  show "mb_pc mb' i = Idle \<Longrightarrow> mb_done mb i = None" for i using D(7) np(3) by simp
qed (use queue_invD [OF qi] in blast)+

lemma run_inv_frame:
  assumes "run_inv mb" and "mb_queue mb' = mb_queue mb" "mb_runner mb' = mb_runner mb" "mb_owner mb' = mb_owner mb"
      "mb_wait_work mb' = mb_wait_work mb" "mb_runq_work mb' = mb_runq_work mb"
    and "\<And>i. mb_pc mb i = In_run \<Longrightarrow> mb_pc mb' i = In_run"
  shows "run_inv mb'"
  using assms unfolding run_inv_def assms(2-6) by (auto split: option.splits agent.splits)

lemma pc_inv_frame:
  assumes pi: "pc_inv mb" and "mb_queue mb' = mb_queue mb" "mb_done mb' = mb_done mb" "mb_runner mb' = mb_runner mb" "mb_owner mb' = mb_owner mb"
    and pc: "\<And>j. mb_pc mb' j \<noteq> mb_pc mb j \<Longrightarrow>
      (mb_pc mb' j = Wait_done \<longrightarrow> mb_done mb j = None \<longrightarrow>
        (\<exists>s\<in>set (mb_queue mb). skb_id s = j \<and> cb_state s = NFP_NET_MBOX_CMSG_STATE_BUSY)) \<and>
      (mb_pc mb' j = Locking False \<longrightarrow> mb_runner mb = None \<and> nfp_ccm_mbox_is_first (mb_queue mb) j) \<and>
      mb_pc mb' j \<noteq> In_run \<and> mb_owner mb \<noteq> Some (Thread j)"
  shows "pc_inv mb'"
proof (rule pc_invI, unfold assms(2-5))
  fix i
  note D = pc_invD [OF pi, of i] and P = pc [of i]
  show "mb_pc mb' i = Wait_done \<Longrightarrow> mb_done mb i = None \<Longrightarrow>
      \<exists>s\<in>set (mb_queue mb). skb_id s = i \<and> cb_state s = NFP_NET_MBOX_CMSG_STATE_BUSY" using D(1) P by metis
  show "mb_pc mb' i = Locking False \<Longrightarrow> mb_runner mb = None \<and> nfp_ccm_mbox_is_first (mb_queue mb) i" using D(2) P by metis
  show "mb_pc mb' i = In_run \<Longrightarrow> (\<exists>l k. mb_runner mb = Some (Thread i, l, k)) \<or> mb_owner mb = Some (Thread i)" using D(3) P by metis
  show "mb_owner mb = Some (Thread i) \<Longrightarrow> mb_pc mb' i = In_run" using D(4) P by metis
  show "mb_owner mb = Some (Thread i) \<Longrightarrow> mb_done mb i = None \<Longrightarrow> \<exists>l. mb_runner mb = Some (Thread i, l, True)" using D(5) by blast
qed

text \<open>A thread goes back to its caller once its message is off the queue.\<close>

lemma return_inv:
  assumes inv: "mbox_inv mb" and i: "i \<notin> skb_id ` set (mb_queue mb)" "mb_owner mb \<noteq> Some (Thread i)"
  shows "mbox_inv (mb\<lparr> mb_freed := f, mb_pc := (mb_pc mb)(i := Returned e) \<rparr>)" (is "mbox_inv ?mb")
proof -
  have qi: "queue_inv mb" and ri: "run_inv mb" and pi: "pc_inv mb" using inv by (simp_all add: mbox_inv_def)
  have ne: "skb_id s \<noteq> i" if "s \<in> set (mb_queue mb)" for s using that i(1) by (metis image_eqI)
  have "queue_inv ?mb" by (rule queue_invI) (use queue_invD [OF qi] ne in \<open>auto split: if_splits\<close>)
  moreover have "run_inv ?mb"
  proof (cases "mb_runner mb")
    case (Some r)
    obtain a lst k where r: "r = (a, lst, k)" by (cases r) auto
    have "run_states lst (mb_queue mb)" using ri Some r by (simp add: run_inv_def)
    then have "hd (mb_queue mb) \<in> set (mb_queue mb)" by (auto simp: run_states_def)
    with ri ne Some r show ?thesis by (auto simp: run_inv_def split: agent.splits)
  qed (use ri in \<open>simp add: run_inv_def\<close>)
  moreover have "pc_inv ?mb" by (rule pc_inv_frame [OF pi]) (use i(2) in \<open>auto split: if_splits\<close>)
  ultimately show ?thesis using inv by (simp add: mbox_inv_def)
qed

lemma return_invs:
  assumes "mbox_inv mb" "i \<notin> skb_id ` set (mb_queue mb)" "mb_owner mb \<noteq> Some (Thread i)"
  shows "mbox_inv (err_free_skb i err mb)" and "mbox_inv (nfp_ccm_mbox_skb_return i s mb)"
proof -
  show "mbox_inv (nfp_ccm_mbox_skb_return i s mb)"
  proof (cases "cb_err s")
    case None
    then show ?thesis
      using return_inv [OF assms, where e = None and f = "mb_freed mb"] by (simp add: nfp_ccm_mbox_skb_return_def set_pc_def)
  next
    case (Some e)
    then show ?thesis
      using return_inv [OF assms, where e = "Some e" and f = "(mb_freed mb)(i := mb_freed mb i + 1)"]
      by (simp add: nfp_ccm_mbox_skb_return_def set_pc_def free_skb_def)
  qed
  show "mbox_inv (err_free_skb i err mb)"
    using return_inv [OF assms, where e = "Some err" and f = "(mb_freed mb)(i := mb_freed mb i + 1)"]
    by (simp add: err_free_skb_def set_pc_def free_skb_def)
qed


text \<open>The messages in the queue are queued, next or busy; only the first can be next, and while it is first
  its thread cannot be waiting unless no batch is in progress.\<close>

lemma queue_states:
  assumes "mbox_inv mb" "s \<in> set (mb_queue mb)"
  shows "\<not> nfp_ccm_mbox_done s" and "nfp_ccm_mbox_should_run s \<Longrightarrow> s = hd (mb_queue mb)"
    and "nfp_ccm_mbox_in_progress s \<Longrightarrow> cb_state s = NFP_NET_MBOX_CMSG_STATE_BUSY"
proof -
  have "cb_state s \<in> {NFP_NET_MBOX_CMSG_STATE_QUEUED, NFP_NET_MBOX_CMSG_STATE_NEXT, NFP_NET_MBOX_CMSG_STATE_BUSY} \<and>
    (nfp_ccm_mbox_should_run s \<longrightarrow> s = hd (mb_queue mb))"
  proof (cases "mb_runner mb")
    case None
    with assms show ?thesis
      by (auto simp: mbox_inv_def run_inv_def idle_states_def nfp_ccm_mbox_should_run_def split: list.splits)
  next
    case (Some r)
    obtain a lst k where r: "r = (a, lst, k)" by (cases r) auto
    have "run_states lst (mb_queue mb)" using assms(1) Some r by (simp add: mbox_inv_def run_inv_def)
    then show ?thesis
    proof (rule run_statesE)
      fix x b q
      assume "mb_queue mb = x # b @ q" "\<not> nfp_ccm_mbox_in_progress x"
        "\<And>s. s \<in> set b \<Longrightarrow> cb_state s = NFP_NET_MBOX_CMSG_STATE_BUSY"
        "\<And>s. s \<in> set q \<Longrightarrow> cb_state s = NFP_NET_MBOX_CMSG_STATE_QUEUED"
      with assms(2) show ?thesis
        by (auto simp: nfp_ccm_mbox_should_run_def nfp_ccm_mbox_in_progress_def)
    qed
  qed
  then show "\<not> nfp_ccm_mbox_done s" and "nfp_ccm_mbox_should_run s \<Longrightarrow> s = hd (mb_queue mb)"
    and "nfp_ccm_mbox_in_progress s \<Longrightarrow> cb_state s = NFP_NET_MBOX_CMSG_STATE_BUSY"
    by (auto simp: nfp_ccm_mbox_done_def nfp_ccm_mbox_in_progress_def)
qed

lemma first_idle:
  assumes inv: "mbox_inv mb" and first: "nfp_ccm_mbox_is_first (mb_queue mb) i" and pc: "mb_pc mb i \<noteq> In_run" "mb_pc mb i \<noteq> Posted"
  shows "mb_runner mb = None"
proof (rule ccontr)
  assume "mb_runner mb \<noteq> None"
  then obtain a lst k where r: "mb_runner mb = Some (a, lst, k)" by auto
  have hd: "hd (mb_queue mb) \<in> set (mb_queue mb)" "skb_id (hd (mb_queue mb)) = i"
    using first by (auto simp: nfp_ccm_mbox_is_first_def)
  have "\<not> cb_posted (hd (mb_queue mb))" using inv hd pc(2) queue_invD(3) [of mb "hd (mb_queue mb)"] by (auto simp: mbox_inv_def)
  with inv r hd pc(1) show False by (auto simp: mbox_inv_def run_inv_def split: agent.splits)
qed

text \<open>A waiting thread finds its message done, or goes for the lock.\<close>

lemma wait_inv:
  assumes inv: "mbox_inv mb" and pc: "mb_pc mb i = Waiting" and s: "mbox_lookup mb i = Some s"
  shows "nfp_ccm_mbox_done s \<Longrightarrow> mbox_inv (nfp_ccm_mbox_skb_return i s mb)"
    and "\<not> nfp_ccm_mbox_done s \<Longrightarrow> to \<or> nfp_ccm_mbox_should_run s \<Longrightarrow> mbox_inv (set_pc i (Locking to) mb)"
proof -
  have qi: "queue_inv mb" and pi: "pc_inv mb" and ri: "run_inv mb" using inv by (simp_all add: mbox_inv_def)
  have owner: "mb_owner mb \<noteq> Some (Thread i)" using pc_invD(4) [OF pi, of i] pc by auto
  show "mbox_inv (nfp_ccm_mbox_skb_return i s mb)" if d: "nfp_ccm_mbox_done s"
  proof -
    have "i \<notin> skb_id ` set (mb_queue mb)" using s by (rule lookup_cases) (use queue_states(1) [OF inv, of s] d in auto)
    then show ?thesis by (rule return_invs(2) [OF inv _ owner])
  qed
  show "mbox_inv (set_pc i (Locking to) mb)" if d: "\<not> nfp_ccm_mbox_done s" "to \<or> nfp_ccm_mbox_should_run s"
  proof -
    have in_q: "s \<in> set (mb_queue mb)" "skb_id s = i"
      using s by (rule lookup_cases; use d(1) queue_invD(5) [OF qi, of i s] in \<open>simp add: nfp_ccm_mbox_done_def\<close>)+
    have lf: "mb_runner mb = None \<and> nfp_ccm_mbox_is_first (mb_queue mb) i" if "\<not> to"
    proof -
      have "s = hd (mb_queue mb)" using d(2) that queue_states(2) [OF inv in_q(1)] by simp
      then have "nfp_ccm_mbox_is_first (mb_queue mb) i" using in_q by (auto simp: nfp_ccm_mbox_is_first_def)
      with first_idle [OF inv this] pc show ?thesis by simp
    qed
    let ?mb = "set_pc i (Locking to) mb"
    have "queue_inv ?mb" by (rule queue_inv_frame [OF qi]) (use pc in \<open>auto simp: set_pc_def split: if_splits\<close>)
    moreover have "run_inv ?mb" by (rule run_inv_frame [OF ri]) (use pc in \<open>auto simp: set_pc_def\<close>)
    moreover have "pc_inv ?mb"
      by (rule pc_inv_frame [OF pi]) (use lf owner in \<open>auto simp: set_pc_def split: if_splits\<close>)
    ultimately show ?thesis using inv by (simp add: mbox_inv_def set_pc_def)
  qed
qed


text \<open>A thread takes the lock again after its wait: it runs the queue, or waits for the runner, or gives up.\<close>

lemma first_hd:
  assumes inv: "mbox_inv mb" and first: "nfp_ccm_mbox_is_first (mb_queue mb) i" and pc: "live (mb_pc mb i)" "mb_pc mb i \<noteq> In_run"
  obtains s q where "mb_queue mb = s # q" "skb_id s = i" "\<not> cb_posted s" "mb_runner mb = None"
proof -
  obtain s q where q: "mb_queue mb = s # q" "skb_id s = i"
    using first by (cases "mb_queue mb") (auto simp: nfp_ccm_mbox_is_first_def)
  moreover have "\<not> cb_posted s" using inv q pc(1) queue_invD(3) [of mb s] by (auto simp: mbox_inv_def)
  moreover have "mb_runner mb = None" using first_idle [OF inv first] pc by (metis live_simps(6))
  ultimately show thesis by (rule that)
qed

lemma relock_run_inv:
  assumes inv: "mbox_inv mb" and first: "nfp_ccm_mbox_is_first (mb_queue mb) i" and pc: "mb_pc mb i = Locking to"
  shows "mbox_inv (run_queue_batch caps (Thread i) (set_pc i In_run mb))"
proof -
  have qi: "queue_inv mb" and pi: "pc_inv mb" using inv by (simp_all add: mbox_inv_def)
  obtain s q where q: "mb_queue mb = s # q" "skb_id s = i" "\<not> cb_posted s" and r: "mb_runner mb = None"
    using first_hd [OF inv first] pc by auto
  note idle = idle_inv [OF inv r]
  have lf: "mb_pc mb j \<noteq> Locking False" if "j \<noteq> i" for j
    using pc_invD(2) [OF pi, of j] q that by (auto simp: nfp_ccm_mbox_is_first_def)
  have owner: "mb_owner mb \<noteq> Some (Thread i)" using idle(3) [of i] pc by simp
  show ?thesis
  proof (rule start_run_inv [of _ s q])
    show "queue_inv (set_pc i In_run mb)"
      by (rule queue_inv_frame [OF qi]) (use pc in \<open>auto simp: set_pc_def split: if_splits\<close>)
    show "\<not> nfp_ccm_mbox_in_progress s" using idle(1) q by simp
    show "mb_pc (set_pc i In_run mb) j = Wait_done \<Longrightarrow> mb_done (set_pc i In_run mb) j \<noteq> None" for j
      using idle(2) [of j] by (auto simp: set_pc_def split: if_splits)
    show "mb_pc (set_pc i In_run mb) j = In_run \<Longrightarrow> Thread i = Thread j \<or> mb_owner (set_pc i In_run mb) = Some (Thread j)" for j
      using idle(3) [of j] by (auto simp: set_pc_def split: if_splits)
    show "mb_owner (set_pc i In_run mb) = Some (Thread j) \<Longrightarrow>
        mb_pc (set_pc i In_run mb) j = In_run \<and> mb_done (set_pc i In_run mb) j \<noteq> None" for j
      using idle(3,4) [of j] owner by (auto simp: set_pc_def)
  qed (use q idle(5,6,8) owner lf inv in \<open>auto simp: set_pc_def mbox_inv_def\<close>)
qed

lemma run_states_unlink:
  assumes "run_states lst q" "s \<in> set q" "\<not> nfp_ccm_mbox_in_progress s" "skb_id s \<noteq> skb_id (hd q)" "distinct (map skb_id q)"
  shows "run_states lst (filter (\<lambda>x. skb_id x \<noteq> skb_id s) q) \<and> hd (filter (\<lambda>x. skb_id x \<noteq> skb_id s) q) = hd q"
  using assms(1)
proof (rule run_statesE)
  fix x b r
  assume q: "q = x # b @ r" "skb_id (last (x # b)) = lst" "\<not> nfp_ccm_mbox_in_progress x"
    "\<And>s. s \<in> set b \<Longrightarrow> cb_state s = NFP_NET_MBOX_CMSG_STATE_BUSY"
    "\<And>s. s \<in> set r \<Longrightarrow> cb_state s = NFP_NET_MBOX_CMSG_STATE_QUEUED"
  have "s \<in> set r" using assms(2-4) q(1,4) by (auto simp: nfp_ccm_mbox_in_progress_def)
  then have nb: "skb_id y \<noteq> skb_id s" if "y \<in> set b" for y using assms(5) q(1) that by (auto simp: image_iff dest!: bspec)
  have "filter (\<lambda>x. skb_id x \<noteq> skb_id s) b = b" using nb by (simp add: filter_id_conv)
  moreover have "skb_id x \<noteq> skb_id s" using assms(4) q(1) by simp
  ultimately have f: "filter (\<lambda>x. skb_id x \<noteq> skb_id s) q = x # b @ filter (\<lambda>x. skb_id x \<noteq> skb_id s) r" using q(1) by simp
  show ?thesis
    unfolding f using q by (auto intro!: run_statesI [of _ x b "filter (\<lambda>x. skb_id x \<noteq> skb_id s) r"])
qed


lemma unlink_inv:
  assumes inv: "mbox_inv mb" and s: "s \<in> set (mb_queue mb)" "skb_id s = i" "\<not> nfp_ccm_mbox_in_progress s"
    and pc: "mb_pc mb i = Locking True" and nf: "\<not> nfp_ccm_mbox_is_first (mb_queue mb) i"
  shows "mbox_inv (err_free_skb i ETIMEDOUT (mb\<lparr> mb_queue := filter (\<lambda>x. skb_id x \<noteq> i) (mb_queue mb) \<rparr>))" (is "mbox_inv ?mb")
proof -
  have qi: "queue_inv mb" and pi: "pc_inv mb" and ri: "run_inv mb" using inv by (simp_all add: mbox_inv_def)
  define q where "q = filter (\<lambda>x. skb_id x \<noteq> i) (mb_queue mb)"
  have sel: "mb_queue ?mb = q" "mb_pc ?mb = (mb_pc mb)(i := Returned (Some ETIMEDOUT))" "mb_done ?mb = mb_done mb"
    "mb_runner ?mb = mb_runner mb" "mb_owner ?mb = mb_owner mb" "mb_wait_work ?mb = mb_wait_work mb"
    "mb_runq_work ?mb = mb_runq_work mb" "mb_warned ?mb = mb_warned mb"
    by (simp_all add: err_free_skb_def set_pc_def free_skb_def q_def)
  have hd: "skb_id (hd (mb_queue mb)) \<noteq> i" "mb_queue mb \<noteq> []" using nf s(1) by (auto simp: nfp_ccm_mbox_is_first_def)
  then have hdq: "hd q = hd (mb_queue mb)" "q \<noteq> []" by (cases "mb_queue mb"; simp add: q_def)+
  have inq: "x \<in> set q \<longleftrightarrow> x \<in> set (mb_queue mb) \<and> skb_id x \<noteq> i" for x by (auto simp: q_def)
  have own: "mb_owner mb \<noteq> Some (Thread i)" using pc_invD(4) [OF pi, of i] pc by auto
  note D = queue_invD [OF qi]
  have "queue_inv ?mb"
  proof (rule queue_invI, unfold sel)
    show "distinct (map skb_id q)" using D(1) by (auto simp: q_def distinct_map intro: inj_on_subset)
    show "j \<in> skb_id ` set q" if "live (((mb_pc mb)(i := Returned (Some ETIMEDOUT))) j)" "mb_done mb j = None" for j
    proof -
      have "j \<noteq> i" "live (mb_pc mb j)" using that by (auto split: if_splits)
      then show ?thesis using D(6) [of j] that(2) inq by blast
    qed
  qed (use D inq in \<open>auto split: if_splits\<close>)
  moreover have "run_inv ?mb"
  proof (cases "mb_runner mb")
    case None
    then have "idle_states q" using ri hd by (cases "mb_queue mb") (auto simp: run_inv_def idle_states_def q_def)
    with None ri hd hdq show ?thesis unfolding run_inv_def sel by simp
  next
    case (Some r)
    obtain a lst k where r: "r = (a, lst, k)" by (cases r) auto
    have "run_states lst (mb_queue mb)" using ri Some r by (simp add: run_inv_def)
    then have "run_states lst q" using run_states_unlink [OF _ s(1,3)] hd s(2) D(1) by (simp add: q_def)
    with Some r ri hdq hd show ?thesis unfolding run_inv_def sel by (auto split: agent.splits)
  qed
  moreover have "pc_inv ?mb"
  proof (rule pc_invI, unfold sel)
    fix j
    note P = pc_invD [OF pi, of j]
    show "\<exists>s\<in>set q. skb_id s = j \<and> cb_state s = NFP_NET_MBOX_CMSG_STATE_BUSY"
      if "((mb_pc mb)(i := Returned (Some ETIMEDOUT))) j = Wait_done" "mb_done mb j = None"
    proof -
      have "j \<noteq> i" "mb_pc mb j = Wait_done" using that(1) by (auto split: if_splits)
      then show ?thesis using P(1) that(2) inq by blast
    qed
    show "((mb_pc mb)(i := Returned (Some ETIMEDOUT))) j = Locking False \<Longrightarrow> mb_runner mb = None \<and> nfp_ccm_mbox_is_first q j"
      using P(2) hdq by (auto simp: nfp_ccm_mbox_is_first_def split: if_splits)
    show "((mb_pc mb)(i := Returned (Some ETIMEDOUT))) j = In_run \<Longrightarrow>
        (\<exists>l k. mb_runner mb = Some (Thread j, l, k)) \<or> mb_owner mb = Some (Thread j)" using P(3) by (auto split: if_splits)
    show "mb_owner mb = Some (Thread j) \<Longrightarrow> ((mb_pc mb)(i := Returned (Some ETIMEDOUT))) j = In_run" using P(4) own by auto
  qed (use pc_invD(5) [OF pi] in blast)
  ultimately show ?thesis using inv by (simp add: mbox_inv_def sel)
qed

lemma relock_inv:
  assumes inv: "mbox_inv mb" and pc: "mb_pc mb i = Locking to" and s: "mbox_lookup mb i = Some s"
  shows "mbox_inv (communicate_relock caps i to s mb)"
proof (cases "nfp_ccm_mbox_is_first (mb_queue mb) i")
  case True
  then show ?thesis using relock_run_inv [OF inv _ pc] by (simp add: communicate_relock_def)
next
  case False
  have qi: "queue_inv mb" and pi: "pc_inv mb" and ri: "run_inv mb" using inv by (simp_all add: mbox_inv_def)
  have to: "to" using pc_invD(2) [OF pi, of i] pc False by (cases to) auto
  have own: "mb_owner mb \<noteq> Some (Thread i)" using pc_invD(4) [OF pi, of i] pc by auto
  show ?thesis
  proof (cases "nfp_ccm_mbox_in_progress s")
    case True
    have busy: "mb_done mb i = None \<longrightarrow> (\<exists>s\<in>set (mb_queue mb). skb_id s = i \<and> cb_state s = NFP_NET_MBOX_CMSG_STATE_BUSY)"
      using s by (rule lookup_cases) (use queue_states(3) [OF inv] True in auto)
    have "queue_inv (set_pc i Wait_done mb)"
      by (rule queue_inv_frame [OF qi]) (use pc in \<open>auto simp: set_pc_def split: if_splits\<close>)
    moreover have "run_inv (set_pc i Wait_done mb)" by (rule run_inv_frame [OF ri]) (use pc in \<open>auto simp: set_pc_def\<close>)
    moreover have "pc_inv (set_pc i Wait_done mb)"
      by (rule pc_inv_frame [OF pi]) (use busy own in \<open>auto simp: set_pc_def split: if_splits\<close>)
    ultimately show ?thesis
      using inv to False True by (simp add: mbox_inv_def communicate_relock_def nfp_ccm_mbox_unlink_def set_pc_def)
  next
    case np: False
    have in_q: "s \<in> set (mb_queue mb)" "skb_id s = i"
      using s by (rule lookup_cases; use np queue_invD(5) [OF qi, of i s] in \<open>simp add: nfp_ccm_mbox_in_progress_def\<close>)+
    have "\<not> nfp_ccm_mbox_should_run s"
      using queue_states(2) [OF inv in_q(1)] in_q False by (auto simp: nfp_ccm_mbox_is_first_def)
    with unlink_inv [OF inv in_q np] pc False to np show ?thesis
      by (simp add: communicate_relock_def nfp_ccm_mbox_unlink_def Let_def)
  qed
qed


text \<open>New messages.\<close>

lemma prepare_skb:
  assumes "nfp_ccm_mbox_msg_prepare caps skb type rs ms ok = Inr skb'"
  shows "skb_id skb' = skb_id skb" "cb_state skb' = NFP_NET_MBOX_CMSG_STATE_QUEUED" "\<not> cb_posted skb'"
  using assms by (auto simp: nfp_ccm_mbox_msg_prepare_def nfp_ccm_mbox_msg_init_def Let_def split: if_splits)

lemma fresh_id:
  assumes inv: "mbox_inv mb" and idle: "mb_pc mb i = Idle"
  shows "i \<notin> skb_id ` set (mb_queue mb)" "mb_owner mb \<noteq> Some (Thread i)" "mb_done mb i = None"
proof -
  have qi: "queue_inv mb" and pi: "pc_inv mb" using inv by (simp_all add: mbox_inv_def)
  show "i \<notin> skb_id ` set (mb_queue mb)"
  proof
    assume "i \<in> skb_id ` set (mb_queue mb)"
    then obtain s where "s \<in> set (mb_queue mb)" "i = skb_id s" by blast
    with queue_invD(3,4) [OF qi, of s] idle show False by (cases "cb_posted s") simp_all
  qed
  show "mb_owner mb \<noteq> Some (Thread i)" using pc_invD(4) [OF pi, of i] idle by auto
  show "mb_done mb i = None" using queue_invD(7) [OF qi] idle by simp
qed

lemma empty_idle: "mbox_inv mb \<Longrightarrow> mb_queue mb = [] \<Longrightarrow> mb_runner mb = None"
  by (auto simp: mbox_inv_def run_inv_def run_states_def split: option.splits)

lemma pc_invI_idle:
  assumes "\<And>i. mb_pc mb i = Wait_done \<Longrightarrow> mb_done mb i \<noteq> None" "\<And>i. mb_pc mb i \<noteq> Locking False"
    "\<And>i. mb_pc mb i = In_run \<longleftrightarrow> mb_owner mb = Some (Thread i)" "\<And>i. mb_owner mb = Some (Thread i) \<Longrightarrow> mb_done mb i \<noteq> None"
  shows "pc_inv mb"
  by (rule pc_invI) (use assms in blast)+

text \<open>A message alone in the queue, its thread running or the work item called.\<close>

lemma single_queue_inv:
  assumes inv: "mbox_inv mb" and q: "mb_queue mb = []" and x: "mb_pc mb (skb_id x) = Idle"
    and pc: "if cb_posted x then pc = Posted else live pc"
  shows "queue_inv (mb\<lparr> mb_queue := [x], mb_tag := t, mb_pc := (mb_pc mb)(skb_id x := pc) \<rparr>)" (is "queue_inv ?mb")
proof (rule queue_invI)
  have qi: "queue_inv mb" using inv by (simp add: mbox_inv_def)
  note D = queue_invD [OF qi] and fresh = fresh_id [OF inv x]
  show "mb_done ?mb (skb_id s) = None" if "s \<in> set (mb_queue ?mb)" for s using that fresh by simp
  show "i \<in> skb_id ` set (mb_queue ?mb)" if "live (mb_pc ?mb i)" "mb_done ?mb i = None" for i
    using that D(6) [of i] q by (auto split: if_splits)
  show "mb_done ?mb i = None" if "mb_pc ?mb i = Idle" for i using that D(7) [of i] fresh by (auto split: if_splits)
  show "cb_state s = NFP_NET_MBOX_CMSG_STATE_DONE" if "mb_done ?mb i = Some s" for i s using that D(5) by simp
qed (use pc in \<open>auto split: if_splits\<close>)

lemma communicate_inv:
  assumes inv: "mbox_inv mb" and idle: "mb_pc mb (skb_id skb) = Idle"
  shows "mbox_inv (nfp_ccm_mbox_communicate caps skb type rs ms critical ok mb)"
proof (cases "nfp_ccm_mbox_msg_prepare caps skb type rs ms ok")
  case (Inl err)
  then show ?thesis using return_invs(1) [OF inv] fresh_id [OF inv idle] by (simp add: nfp_ccm_mbox_communicate_def)
next
  case (Inr s)
  note prep = prepare_skb [OF Inr]
  define x where "x = s\<lparr> skb_data := ccm_set_hdr (skb_data s) type (mb_tag mb) \<rparr>"
  have x: "skb_id x = skb_id skb" "cb_state x = NFP_NET_MBOX_CMSG_STATE_QUEUED" "\<not> cb_posted x"
    using prep by (simp_all add: x_def)
  show ?thesis
  proof (cases "\<not> critical \<and> length (mb_queue mb) \<ge> NFP_CCM_MAX_QLEN")
    case True
    then show ?thesis
      using return_invs(1) [OF inv] fresh_id [OF inv idle] prep
      by (simp add: nfp_ccm_mbox_communicate_def Inr nfp_ccm_mbox_msg_enqueue_def)
  next
    case room: False
    then have enq: "nfp_ccm_mbox_msg_enqueue s type critical mb =
        (Inr (), mb\<lparr> mb_queue := mb_queue mb @ [x], mb_tag := mb_tag mb + 1 \<rparr>)"
      by (auto simp: nfp_ccm_mbox_msg_enqueue_def x_def)
    show ?thesis
    proof (cases "mb_queue mb = []")
      case True
      note r = empty_idle [OF inv True] and fresh = fresh_id [OF inv idle]
      note I = idle_inv [OF inv r]
      let ?mb = "mb\<lparr> mb_queue := [x], mb_tag := mb_tag mb + 1, mb_pc := (mb_pc mb)(skb_id x := In_run) \<rparr>"
      have "mb_pc mb j \<noteq> Locking False" for j
        using inv True pc_invD(2) [of mb j] by (auto simp: mbox_inv_def nfp_ccm_mbox_is_first_def)
      then have "mbox_inv (run_queue_batch caps (Thread (skb_id x)) ?mb)"
        using I(2,3,4) fresh x
        by (intro start_run_inv [of _ x "[]"] single_queue_inv)
          (use inv True idle I(5,8) in \<open>auto simp: mbox_inv_def nfp_ccm_mbox_in_progress_def split: if_splits\<close>)
      then show ?thesis
        using True prep x by (simp add: nfp_ccm_mbox_communicate_def Inr enq nfp_ccm_mbox_is_first_def set_pc_def)
    next
      case False
      then have "\<not> nfp_ccm_mbox_is_first (mb_queue mb @ [x]) (skb_id skb)"
        using fresh_id(1) [OF inv idle] by (cases "mb_queue mb") (auto simp: nfp_ccm_mbox_is_first_def)
      with enqueue_inv [OF inv False, of x Waiting "mb_tag mb + 1"] x idle prep False show ?thesis
        by (simp add: nfp_ccm_mbox_communicate_def Inr enq set_pc_def)
    qed
  qed
qed


lemma post_inv:
  assumes inv: "mbox_inv mb" and idle: "mb_pc mb (skb_id skb) = Idle"
  shows "mbox_inv (nfp_ccm_mbox_post caps skb type ms ok mb)"
proof (cases "nfp_ccm_mbox_msg_prepare caps skb type 0 ms ok")
  case (Inl err)
  then show ?thesis using return_invs(1) [OF inv] fresh_id [OF inv idle] by (simp add: nfp_ccm_mbox_post_def)
next
  case (Inr s)
  note prep = prepare_skb [OF Inr]
  define x where "x = (nfp_ccm_mbox_mark_posted s)\<lparr> skb_data := ccm_set_hdr (skb_data (nfp_ccm_mbox_mark_posted s)) type (mb_tag mb) \<rparr>"
  have x: "skb_id x = skb_id skb" "cb_state x = NFP_NET_MBOX_CMSG_STATE_QUEUED" "cb_posted x"
    using prep by (simp_all add: x_def nfp_ccm_mbox_mark_posted_def)
  have s_id: "skb_id s = skb_id x" using prep x by simp
  show ?thesis
  proof (cases "length (mb_queue mb) \<ge> NFP_CCM_MAX_QLEN")
    case True
    then show ?thesis
      using return_invs(1) [OF inv] fresh_id [OF inv idle] prep
      by (simp add: nfp_ccm_mbox_post_def Inr nfp_ccm_mbox_msg_enqueue_def)
  next
    case room: False
    then have enq: "nfp_ccm_mbox_msg_enqueue (nfp_ccm_mbox_mark_posted s) type False mb =
        (Inr (), mb\<lparr> mb_queue := mb_queue mb @ [x], mb_tag := mb_tag mb + 1 \<rparr>)"
      by (simp add: nfp_ccm_mbox_msg_enqueue_def x_def)
    show ?thesis
    proof (cases "mb_queue mb = []")
      case True
      note r = empty_idle [OF inv True] and fresh = fresh_id [OF inv idle]
      note I = idle_inv [OF inv r]
      have pi: "pc_inv mb" using inv by (simp add: mbox_inv_def)
      have nl: "mb_pc mb j \<noteq> Locking False" for j
        using True pc_invD(2) [OF pi, of j] by (auto simp: nfp_ccm_mbox_is_first_def)
      show ?thesis
      proof (cases "mb_owner mb")
        case (Some o)
        let ?x = "x\<lparr> cb_state := NFP_NET_MBOX_CMSG_STATE_NEXT \<rparr>"
        let ?mb = "mb\<lparr> mb_tag := mb_tag mb + 1, mb_pc := (mb_pc mb)(skb_id x := Posted), mb_queue := [?x], mb_runq_work := True \<rparr>"
        have "queue_inv (mb\<lparr> mb_queue := [?x], mb_tag := mb_tag mb + 1, mb_pc := (mb_pc mb)(skb_id ?x := Posted) \<rparr>)"
          by (rule single_queue_inv [OF inv True]) (use x idle in simp_all)
        then have "queue_inv ?mb" by (rule queue_inv_frame) simp_all
        moreover have "run_inv ?mb" using r I(5) x by (simp add: run_inv_def idle_states_def)
        moreover have "pc_inv ?mb"
        proof (rule pc_invI_idle)
          fix j
          show "mb_pc ?mb j = Wait_done \<Longrightarrow> mb_done ?mb j \<noteq> None" using I(2) [of j] by (cases "j = skb_id x") simp_all
          show "mb_pc ?mb j \<noteq> Locking False" using nl [of j] by (cases "j = skb_id x") simp_all
          show "mb_pc ?mb j = In_run \<longleftrightarrow> mb_owner ?mb = Some (Thread j)"
            using I(3) [of j] fresh(2) x(1) by (cases "j = skb_id x") simp_all
          show "mb_owner ?mb = Some (Thread j) \<Longrightarrow> mb_done ?mb j \<noteq> None" using I(4) [of j] by simp
        qed
        ultimately have "mbox_inv ?mb" using inv by (simp add: mbox_inv_def)
        then show ?thesis
          using True x Some
          by (simp add: nfp_ccm_mbox_post_def Inr enq s_id Let_def nfp_ccm_mbox_is_first_def set_pc_def nfp_ccm_mbox_mark_next_runner_def)
      next
        case None
        obtain bar where bar: "nfp_ccm_mbox_copy_in caps (mb_bar mb) (skb_id x) [x] = Some bar"
          by (simp add: nfp_ccm_mbox_copy_in_def split: prod.splits)
        let ?mb = "mb\<lparr> mb_queue := [x], mb_tag := mb_tag mb + 1, mb_pc := (mb_pc mb)(skb_id x := Posted), mb_owner := Some Wait_work,
            mb_bar := bar, mb_wait_work := True, mb_runner := Some (Wait_work, skb_id x, True) \<rparr>"
        have "queue_inv (mb\<lparr> mb_queue := [x], mb_tag := mb_tag mb + 1, mb_pc := (mb_pc mb)(skb_id x := Posted) \<rparr>)"
          by (rule single_queue_inv [OF inv True]) (use x idle in simp_all)
        then have "queue_inv ?mb" by (rule queue_inv_frame) simp_all
        moreover have "run_states (skb_id x) [x]"
          by (rule run_statesI [of _ x "[]" "[]"]) (use x in \<open>simp_all add: nfp_ccm_mbox_in_progress_def\<close>)
        then have "run_inv ?mb" using I(8) True x by (simp add: run_inv_def)
        moreover have "pc_inv ?mb"
        proof (rule pc_invI_idle)
          fix j
          show "mb_pc ?mb j = Wait_done \<Longrightarrow> mb_done ?mb j \<noteq> None" using I(2) [of j] by (cases "j = skb_id x") simp_all
          show "mb_pc ?mb j \<noteq> Locking False" using nl [of j] by (cases "j = skb_id x") simp_all
          show "mb_pc ?mb j = In_run \<longleftrightarrow> mb_owner ?mb = Some (Thread j)" using I(3) [of j] None by (cases "j = skb_id x") simp_all
        qed simp
        ultimately have "mbox_inv ?mb" using inv by (simp add: mbox_inv_def)
        then show ?thesis
          using True x None bar
          by (simp add: nfp_ccm_mbox_post_def Inr enq s_id Let_def nfp_ccm_mbox_is_first_def set_pc_def)
      qed
    next
      case False
      then have "\<not> nfp_ccm_mbox_is_first (mb_queue mb @ [x]) (skb_id x)"
        using fresh_id(1) [OF inv idle] x(1) by (cases "mb_queue mb") (auto simp: nfp_ccm_mbox_is_first_def)
      with enqueue_inv [OF inv False, of x Posted "mb_tag mb + 1"] x idle False show ?thesis
        by (simp add: nfp_ccm_mbox_post_def Inr enq s_id Let_def set_pc_def)
    qed
  qed
qed

text \<open>The work item starts a run; the runner gets the control memory.\<close>

lemma runq_inv:
  assumes inv: "mbox_inv mb" and w: "mb_runq_work mb" "mb_owner mb \<noteq> Some Runq_work"
  shows "mbox_inv (nfp_ccm_mbox_post_runq_work caps (mb\<lparr> mb_runq_work := False \<rparr>))"
proof -
  have r: "mb_runner mb = None" using inv w(1) by (auto simp: mbox_inv_def run_inv_def split: option.splits)
  note I = idle_inv [OF inv r]
  obtain s q where q: "mb_queue mb = s # q" "cb_posted s" using I(8) w(1) by (cases "mb_queue mb") auto
  have pi: "pc_inv mb" and qi: "queue_inv mb" using inv by (simp_all add: mbox_inv_def)
  have nl: "mb_pc mb j \<noteq> Locking False" for j
    using pc_invD(2) [OF pi, of j] q queue_invD(3) [OF qi, of s] by (auto simp: nfp_ccm_mbox_is_first_def)
  have st: "cb_state s = NFP_NET_MBOX_CMSG_STATE_NEXT" "\<forall>s\<in>set q. cb_state s = NFP_NET_MBOX_CMSG_STATE_QUEUED"
    using I(6,7) q(1) by simp_all
  have "mbox_inv (run_queue_batch caps Runq_work (mb\<lparr> mb_runq_work := False \<rparr>))"
  proof (rule start_run_inv [of _ s q])
    show "queue_inv (mb\<lparr> mb_runq_work := False \<rparr>)" by (rule queue_inv_frame [OF qi]) simp_all
  qed (use q st I(2-5) nl w(2) inv in \<open>auto simp: nfp_ccm_mbox_in_progress_def mbox_inv_def\<close>)
  then show ?thesis using q st by (simp add: nfp_ccm_mbox_post_runq_work_def nfp_ccm_mbox_should_run_def)
qed

lemma lock_inv:
  assumes inv: "mbox_inv mb" and r: "mb_runner mb = Some (a, lst, False)" "mb_owner mb = None"
  obtains bar where "nfp_ccm_mbox_copy_in caps (mb_bar mb) lst (mb_queue mb) = Some bar"
    "mbox_inv (mb\<lparr> mb_owner := Some a, mb_bar := bar, mb_runner := Some (a, lst, True) \<rparr>)"
proof -
  have qi: "queue_inv mb" and pi: "pc_inv mb" and ri: "run_inv mb" using inv by (simp_all add: mbox_inv_def)
  have "run_states lst (mb_queue mb)" using ri r by (simp add: run_inv_def)
  then obtain s b q where q: "mb_queue mb = (s # b) @ q" "skb_id (last (s # b)) = lst" by (auto elim: run_statesE)
  have "copy_in_msgs (mb_bar mb) (mbox_off caps + NFP_NET_CFG_MBOX_SIMPLE_VAL) lst (mb_queue mb) \<noteq> None"
    unfolding q(1) by (rule copy_in_batch [OF _ q(2)]) simp
  then obtain bar where bar: "nfp_ccm_mbox_copy_in caps (mb_bar mb) lst (mb_queue mb) = Some bar"
    by (auto simp: nfp_ccm_mbox_copy_in_def)
  let ?mb = "mb\<lparr> mb_owner := Some a, mb_bar := bar, mb_runner := Some (a, lst, True) \<rparr>"
  have a: "a = Thread i \<Longrightarrow> mb_pc mb i = In_run" for i using ri r by (simp add: run_inv_def)
  have "queue_inv ?mb" by (rule queue_inv_frame [OF qi]) simp_all
  moreover have "run_inv ?mb" using ri r by (auto simp: run_inv_def split: agent.splits)
  moreover have "pc_inv ?mb"
  proof (rule pc_invI)
    fix j
    note P = pc_invD [OF pi, of j]
    show "mb_pc ?mb j = Wait_done \<Longrightarrow> mb_done ?mb j = None \<Longrightarrow>
        \<exists>s\<in>set (mb_queue ?mb). skb_id s = j \<and> cb_state s = NFP_NET_MBOX_CMSG_STATE_BUSY" using P(1) by simp
    show "mb_pc ?mb j = Locking False \<Longrightarrow> mb_runner ?mb = None \<and> nfp_ccm_mbox_is_first (mb_queue ?mb) j" using P(2) r by simp
    show "mb_pc ?mb j = In_run \<Longrightarrow> (\<exists>l k. mb_runner ?mb = Some (Thread j, l, k)) \<or> mb_owner ?mb = Some (Thread j)"
      using P(3) r by auto
    show "mb_owner ?mb = Some (Thread j) \<Longrightarrow> mb_pc ?mb j = In_run" using a by simp
  qed simp
  ultimately show thesis using that bar inv by (simp add: mbox_inv_def)
qed


text \<open>The end of a batch: its messages are done, and the new head of the queue is told to run.\<close>

lemma complete_batch_fields:
  fixes f :: "mbox_skb \<Rightarrow> mbox_skb" and consume :: bool
  assumes "dequeue_until lst (mb_queue mb) = (b, r)"
  defines "mb' \<equiv> complete_batch f consume lst mb"
  shows "mb_queue mb' = (case r of [] \<Rightarrow> [] | x # r \<Rightarrow> x\<lparr> cb_state := NFP_NET_MBOX_CMSG_STATE_NEXT \<rparr> # r)"
    and "mb_done mb' i = (case find (\<lambda>s. skb_id s = i) b of Some s \<Rightarrow> Some (f s) | None \<Rightarrow> mb_done mb i)"
    and "mb_runq_work mb' \<longleftrightarrow> mb_runq_work mb \<or> (r \<noteq> [] \<and> cb_posted (hd r))"
    and "mb_pc mb' = mb_pc mb" "mb_owner mb' = mb_owner mb" "mb_runner mb' = mb_runner mb" "mb_wait_work mb' = mb_wait_work mb"
      "mb_warned mb' = mb_warned mb"
  unfolding mb'_def complete_batch_def assms(1) by (auto simp: nfp_ccm_mbox_mark_next_runner_def split: list.splits)

lemma complete_inv:
  assumes inv: "mbox_inv mb" and run: "mb_runner mb = Some (a, lst, True)"
    and same: "mb_pc mb1 = mb_pc mb" "mb_done mb1 = mb_done mb" "mb_owner mb1 = mb_owner mb" "mb_warned mb1 = mb_warned mb"
      "mb_runq_work mb1 = mb_runq_work mb" "mb_runner mb1 = None" "\<not> mb_wait_work mb1"
    and q: "mb_queue mb = s # b @ r" "skb_id (last (s # b)) = lst" "\<And>s. s \<in> set r \<Longrightarrow> cb_state s = NFP_NET_MBOX_CMSG_STATE_QUEUED"
      "\<not> nfp_ccm_mbox_in_progress s"
    and b': "mb_queue mb1 = b' @ r" "list_all2 same_skb (s # b) b'"
    and f: "\<And>s. cb_state (f s) = NFP_NET_MBOX_CMSG_STATE_DONE"
  shows "mbox_inv (complete_batch f consume lst mb1)" (is "mbox_inv ?mb")
proof -
  have qi: "queue_inv mb" and pi: "pc_inv mb" and ri: "run_inv mb" using inv by (simp_all add: mbox_inv_def)
  note D = queue_invD [OF qi]
  have ids: "skb_id ` set b' = skb_id ` set (s # b)" "map skb_id b' = map skb_id (s # b)"
    using same_skb_ids [OF b'(2)] map_eq_set_image [of skb_id b' "s # b"] by simp_all
  have dist: "distinct (map skb_id (s # b))" "distinct (map skb_id r)" "skb_id ` set (s # b) \<inter> skb_id ` set r = {}"
    using D(1) unfolding q(1) by auto
  have deq: "dequeue_until lst (mb_queue mb1) = (b', r)"
    unfolding b'(1) by (rule dequeue_until_batch) (use last_same [OF b'(2)] q(2) ids(2) dist(1) in simp_all)
  note F = complete_batch_fields [OF deq, where f = f and consume = consume]
  have done_b: "mb_done ?mb i \<noteq> None" if "i \<in> skb_id ` set (s # b)" for i
    using that find_id_None [of i b'] ids(1) by (auto simp: F(2) split: option.splits)
  have done_r: "mb_done ?mb i = mb_done mb i" if "i \<notin> skb_id ` set (s # b)" for i
  proof -
    have "find (\<lambda>s. skb_id s = i) b' = None" using that find_id_None [of i b'] ids(1) by simp
    then show ?thesis by (simp add: F(2) same)
  qed
  have done_mono: "mb_done mb i \<noteq> None \<Longrightarrow> mb_done ?mb i \<noteq> None" for i
    using done_b [of i] done_r [of i] by (cases "i \<in> skb_id ` set (s # b)") auto
  have in_q: "\<exists>y\<in>set r. skb_id x = skb_id y \<and> cb_posted x = cb_posted y" if "x \<in> set (mb_queue ?mb)" for x
    using that by (cases r) (auto simp: F(1))
  have ids_q: "skb_id ` set (mb_queue ?mb) = skb_id ` set r" by (cases r) (auto simp: F(1))
  have "queue_inv ?mb"
  proof (rule queue_invI)
    show "distinct (map skb_id (mb_queue ?mb))" using dist(2) by (cases r) (auto simp: F(1))
    fix x assume "x \<in> set (mb_queue ?mb)"
    from in_q [OF this] obtain y where y: "y \<in> set r" "skb_id x = skb_id y" "cb_posted x = cb_posted y" by blast
    then have "y \<in> set (mb_queue mb)" using q(1) by simp
    moreover have "skb_id y \<notin> skb_id ` set (s # b)" using y(1) dist(3) by blast
    ultimately show "mb_done ?mb (skb_id x) = None" using D(2) [of y] done_r y by simp
    show "cb_posted x \<Longrightarrow> mb_pc ?mb (skb_id x) = Posted" "\<not> cb_posted x \<Longrightarrow> live (mb_pc ?mb (skb_id x))"
      using D(3,4) [OF \<open>y \<in> set (mb_queue mb)\<close>] y by (simp_all add: F(4) same)
  next
    fix i x assume "mb_done ?mb i = Some x"
    then show "cb_state x = NFP_NET_MBOX_CMSG_STATE_DONE" using f D(5) by (auto simp: F(2) same split: option.splits)
  next
    fix i assume l: "live (mb_pc ?mb i)" "mb_done ?mb i = None"
    then have nb: "i \<notin> skb_id ` set (s # b)" using done_b by blast
    then have "i \<in> skb_id ` set (mb_queue mb)" using D(6) [of i] l done_r by (simp add: F(4) same)
    then show "i \<in> skb_id ` set (mb_queue ?mb)" using nb unfolding ids_q q(1) by auto
  next
    fix i assume "mb_pc ?mb i = Idle"
    then have "mb_pc mb i = Idle" by (simp add: F(4) same)
    from fresh_id [OF inv this] show "mb_done ?mb i = None" using done_r [of i] unfolding q(1) by auto
  qed
  moreover have "run_inv ?mb"
  proof -
    have "idle_states (mb_queue ?mb)" using q(3) by (auto simp: F(1) idle_states_def split: list.splits)
    moreover have "mb_runq_work ?mb \<longleftrightarrow> mb_queue ?mb \<noteq> [] \<and> cb_posted (hd (mb_queue ?mb))"
      using ri run by (auto simp: F(1,3) same run_inv_def split: list.splits)
    ultimately show ?thesis using same by (simp add: run_inv_def F(6,7))
  qed
  moreover have "pc_inv ?mb"
  proof (rule pc_invI_idle)
    fix i
    note P = pc_invD [OF pi, of i]
    show "mb_done ?mb i \<noteq> None" if w: "mb_pc ?mb i = Wait_done"
    proof (cases "mb_done mb i = None")
      case True
      with P(1) w obtain x where "x \<in> set (mb_queue mb)" "skb_id x = i" "cb_state x = NFP_NET_MBOX_CMSG_STATE_BUSY"
        by (auto simp: F(4) same)
      then have "i \<in> skb_id ` set (s # b)" using q by (auto simp: nfp_ccm_mbox_in_progress_def)
      then show ?thesis by (rule done_b)
    qed (rule done_mono)
    show "mb_pc ?mb i \<noteq> Locking False" using P(2) run by (auto simp: F(4) same)
    have a: "mb_owner mb = Some a" using ri run by (simp add: run_inv_def)
    show "mb_pc ?mb i = In_run \<longleftrightarrow> mb_owner ?mb = Some (Thread i)" using P(3,4) run a by (auto simp: F(4,5) same)
    show "mb_done ?mb i \<noteq> None" if o: "mb_owner ?mb = Some (Thread i)"
    proof (cases "mb_done mb i = None")
      case True
      with P(5) o run have "a = Thread i" by (auto simp: F(5) same)
      then have "skb_id s = i" using ri run q(1) by (simp add: run_inv_def)
      then show ?thesis by (intro done_b) simp
    qed (rule done_mono)
  qed
  ultimately show ?thesis using inv by (simp add: mbox_inv_def F(8) same)
qed


lemma finish_inv:
  assumes inv: "mbox_inv mb" and run: "mb_runner mb = Some (a, lst, True)"
  shows "mbox_inv (mbox_finish caps err bar lst (mb\<lparr> mb_wait_work := False \<rparr>))"
proof -
  have qi: "queue_inv mb" using inv by (simp add: mbox_inv_def)
  have "run_states lst (mb_queue mb)" using inv run by (simp add: mbox_inv_def run_inv_def)
  then obtain s b r where q: "mb_queue mb = s # b @ r" "skb_id (last (s # b)) = lst" "\<not> nfp_ccm_mbox_in_progress s"
      "\<And>s. s \<in> set r \<Longrightarrow> cb_state s = NFP_NET_MBOX_CMSG_STATE_QUEUED"
    by (auto elim: run_statesE)
  have d: "distinct (map skb_id ((s # b) @ r))" using queue_invD(1) [OF qi] q(1) by simp
  note C = complete_inv [OF inv run, where s = s and b = b and r = r]
  have refl: "list_all2 same_skb (s # b) (s # b)" by (rule list.rel_refl) (simp add: same_skb_def)
  show ?thesis
  proof (cases err)
    case True
    have "mbox_inv (complete_batch (complete_err EIO) False lst (mb\<lparr> mb_wait_work := False, mb_bar := bar, mb_runner := None \<rparr>))"
      by (rule C [where b' = "s # b"]) (use q refl in \<open>simp_all add: complete_err_def\<close>)
    then show ?thesis using True by (simp add: mbox_finish_def nfp_ccm_mbox_mark_all_err_def)
  next
    case False
    let ?data = "mbox_off caps + NFP_NET_CFG_MBOX_SIMPLE_VAL"
    obtain b' where b': "copy_out_loop bar (?data + mbox_len caps) lst ?data (mb_queue mb) = b' @ r" "list_all2 same_skb (s # b) b'"
      using copy_out_loop_batch [of "s # b" lst r bar "?data + mbox_len caps" ?data] q(1,2) d by auto
    have "mbox_inv (complete_batch complete_reply True lst
        (mb\<lparr> mb_wait_work := False, mb_bar := bar, mb_runner := None, mb_queue := b' @ r \<rparr>))"
      by (rule C [where b' = b']) (use q b' in \<open>simp_all add: complete_reply_def\<close>)
    then show ?thesis using False b'(1) by (simp add: mbox_finish_def nfp_ccm_mbox_copy_out_def Let_def)
  qed
qed

lemma unlock_inv:
  assumes inv: "mbox_inv mb" and o: "mb_owner mb = Some a" "a \<noteq> Other" "\<And>lst. mb_runner mb \<noteq> Some (a, lst, True)"
  shows "mbox_inv (mb\<lparr> mb_owner := None, mb_freed := f, mb_pc := (case a of Thread i \<Rightarrow> (mb_pc mb)(i := Returned e) | _ \<Rightarrow> mb_pc mb) \<rparr>)"
    (is "mbox_inv ?mb")
proof -
  have qi: "queue_inv mb" and pi: "pc_inv mb" and ri: "run_inv mb" using inv by (simp_all add: mbox_inv_def)
  note D = queue_invD [OF qi]
  have dn: "mb_done mb i \<noteq> None" if "a = Thread i" for i using pc_invD(5) [OF pi, of i] o that by auto
  then have nq: "a \<noteq> Thread (skb_id s)" if "s \<in> set (mb_queue mb)" for s using D(2) [OF that] by auto
  have pc: "mb_pc ?mb j = (if a = Thread j then Returned e else mb_pc mb j)" for j by (cases a) auto
  have "queue_inv ?mb"
    by (rule queue_invI, unfold pc) (use D nq in \<open>auto split: if_splits\<close>)
  moreover have "run_inv ?mb"
  proof (cases "mb_runner mb")
    case (Some r)
    obtain b lst k where r: "r = (b, lst, k)" by (cases r) auto
    have "\<not> k" "a \<noteq> b" using ri o Some r by (auto simp: run_inv_def)
    with ri Some r show ?thesis unfolding run_inv_def pc by (auto split: agent.splits)
  qed (use ri in \<open>simp add: run_inv_def\<close>)
  moreover have "pc_inv ?mb"
  proof (rule pc_invI, unfold pc)
    fix j
    note P = pc_invD [OF pi, of j]
    show "(if a = Thread j then Returned e else mb_pc mb j) = Wait_done \<Longrightarrow> mb_done ?mb j = None \<Longrightarrow>
        \<exists>s\<in>set (mb_queue ?mb). skb_id s = j \<and> cb_state s = NFP_NET_MBOX_CMSG_STATE_BUSY" using P(1) by (simp split: if_splits)
    show "(if a = Thread j then Returned e else mb_pc mb j) = Locking False \<Longrightarrow>
        mb_runner ?mb = None \<and> nfp_ccm_mbox_is_first (mb_queue ?mb) j" using P(2) by (simp split: if_splits)
    show "(if a = Thread j then Returned e else mb_pc mb j) = In_run \<Longrightarrow>
        (\<exists>l k. mb_runner ?mb = Some (Thread j, l, k)) \<or> mb_owner ?mb = Some (Thread j)" using P(3) o by (auto split: if_splits)
  qed simp_all
  ultimately show ?thesis using inv by (simp add: mbox_inv_def)
qed

lemma owner_inv:
  assumes "mbox_inv mb" and ow: "ow = None \<and> mb_owner mb = Some Other \<or> ow = Some Other \<and> mb_owner mb = None"
  shows "mbox_inv (mb\<lparr> mb_owner := ow \<rparr>)" (is "mbox_inv ?mb")
proof -
  have qi: "queue_inv mb" and pi: "pc_inv mb" and ri: "run_inv mb" using assms by (simp_all add: mbox_inv_def)
  have no: "mb_owner mb \<noteq> Some (Thread j)" "ow \<noteq> Some (Thread j)" for j using ow by auto
  have "queue_inv ?mb" by (rule queue_inv_frame [OF qi]) simp_all
  moreover have "run_inv ?mb"
  proof (cases "mb_runner mb")
    case (Some r)
    obtain a lst k where r: "r = (a, lst, k)" by (cases r) auto
    have "a \<noteq> Other" using ri Some r by (auto simp: run_inv_def)
    then have "mb_owner mb \<noteq> Some a" "ow \<noteq> Some a" using ow by auto
    with ri Some r show ?thesis by (cases a) (auto simp: run_inv_def)
  qed (use ri in \<open>simp add: run_inv_def\<close>)
  moreover have "pc_inv ?mb"
  proof (rule pc_invI)
    fix j
    note P = pc_invD [OF pi, of j]
    show "mb_pc ?mb j = Wait_done \<Longrightarrow> mb_done ?mb j = None \<Longrightarrow>
        \<exists>s\<in>set (mb_queue ?mb). skb_id s = j \<and> cb_state s = NFP_NET_MBOX_CMSG_STATE_BUSY" using P(1) by simp
    show "mb_pc ?mb j = Locking False \<Longrightarrow> mb_runner ?mb = None \<and> nfp_ccm_mbox_is_first (mb_queue ?mb) j" using P(2) by simp
    show "mb_pc ?mb j = In_run \<Longrightarrow> (\<exists>l k. mb_runner ?mb = Some (Thread j, l, k)) \<or> mb_owner ?mb = Some (Thread j)"
      using P(3) no by simp
  qed (use no in simp_all)
  ultimately show ?thesis using assms(1) by (simp add: mbox_inv_def)
qed

lemma mbox_inv_step:
  assumes inv: "mbox_inv mb" and step: "mbox_do caps ev mb = Some mb'"
  shows "mbox_inv mb'"
proof (cases ev)
  case (Communicate skb type rs ms critical ok)
  then show ?thesis using step communicate_inv [OF inv] by (auto split: if_splits)
next
  case (Post skb type ms ok)
  then show ?thesis using step post_inv [OF inv] by (auto split: if_splits)
next
  case (Wake i)
  then show ?thesis
    using step wait_inv(1) [OF inv, of i] wait_inv(2) [OF inv, of i _ False] by (auto split: mbox_pc.splits option.splits if_splits)
next
  case (Timeout i)
  then show ?thesis
    using step wait_inv(1) [OF inv, of i] wait_inv(2) [OF inv, of i _ True] by (auto split: mbox_pc.splits option.splits if_splits)
next
  case (Relock i)
  then show ?thesis using step relock_inv [OF inv, of i] by (auto split: mbox_pc.splits option.splits)
next
  case (Reap i)
  then obtain s where pc: "mb_pc mb i = Wait_done" and s: "mbox_lookup mb i = Some s" "nfp_ccm_mbox_done s"
    using step by (auto split: mbox_pc.splits option.splits if_splits)
  have pi: "pc_inv mb" using inv by (simp add: mbox_inv_def)
  have nq: "i \<notin> skb_id ` set (mb_queue mb)" using s(1) by (rule lookup_cases) (use queue_states(1) [OF inv, of s] s(2) in auto)
  have own: "mb_owner mb \<noteq> Some (Thread i)" using pc_invD(4) [OF pi, of i] pc by auto
  note R = return_invs(2) [OF inv nq own, of s]
  have "mbox_inv (err_free_skb i e (nfp_ccm_mbox_skb_return i s mb))" for e
    by (rule return_invs(1) [OF R]) (use nq own in \<open>simp_all add: nfp_ccm_mbox_skb_return_def set_pc_def free_skb_def\<close>)
  with R Reap step pc s show ?thesis by (auto simp: Let_def split: option.splits)
next
  case Runq
  then show ?thesis using step runq_inv [OF inv] by (auto split: if_splits)
next
  case Lock
  then obtain a lst where r: "mb_runner mb = Some (a, lst, False)" "mb_owner mb = None"
    using step by (auto split: option.splits bool.splits)
  obtain bar where "nfp_ccm_mbox_copy_in caps (mb_bar mb) lst (mb_queue mb) = Some bar"
    "mbox_inv (mb\<lparr> mb_owner := Some a, mb_bar := bar, mb_runner := Some (a, lst, True) \<rparr>)"
    using lock_inv [OF inv r] by blast
  with r Lock step show ?thesis by simp
next
  case (Exchange err bar)
  then obtain a lst where r: "mb_runner mb = Some (a, lst, True)" "a \<noteq> Wait_work" and mb': "mb' = mbox_finish caps err bar lst mb"
    using step by (auto split: option.splits bool.splits if_splits)
  have "mb\<lparr> mb_wait_work := False \<rparr> = mb" using inv r by (simp add: mbox_inv_def run_inv_def)
  with finish_inv [OF inv r(1), of caps err bar] show ?thesis by (simp add: mb')
next
  case (Wait err bar)
  then have w: "mb_wait_work mb" and mb': "mb' = nfp_ccm_mbox_post_wait_work caps err bar (mb\<lparr> mb_wait_work := False \<rparr>)"
    using step by (auto split: if_splits)
  obtain a lst k where r: "mb_runner mb = Some (a, lst, k)"
    using inv w by (cases "mb_runner mb") (auto simp: mbox_inv_def run_inv_def)
  have k: "k" "lst = skb_id (hd (mb_queue mb))" "cb_posted (hd (mb_queue mb))" "mb_queue mb \<noteq> []"
    using inv w r by (auto simp: mbox_inv_def run_inv_def run_states_def)
  then show ?thesis
    using finish_inv [OF inv, of a lst caps err bar] r
    by (cases "mb_queue mb") (simp_all add: mb' nfp_ccm_mbox_post_wait_work_def)
next
  case Unlock
  then obtain a where o: "mb_owner mb = Some a" "a \<noteq> Other" "\<And>lst. mb_runner mb \<noteq> Some (a, lst, True)"
    using step by (auto split: option.splits if_splits)
  note U = unlock_inv [OF inv o]
  show ?thesis
  proof (cases a)
    case (Thread i)
    have pi: "pc_inv mb" using inv by (simp add: mbox_inv_def)
    obtain s where s: "mb_done mb i = Some s" using pc_invD(5) [OF pi, of i] o Thread by auto
    with U [where e = "cb_err s" and f = "if cb_err s \<noteq> None then (mb_freed mb)(i := mb_freed mb i + 1) else mb_freed mb"] Unlock step o Thread
    show ?thesis by (auto simp: nfp_ccm_mbox_skb_return_def set_pc_def free_skb_def split: option.splits if_splits)
  qed (use U [where f = "mb_freed mb"] Unlock step o in \<open>auto split: option.splits if_splits\<close>)
qed (use step inv owner_inv [OF inv] in \<open>auto split: if_splits\<close>)

lemma mbox_inv_reach: "mbox_reach caps mb \<Longrightarrow> mbox_inv mb"
  by (induction rule: mbox_reach.induct) (auto intro: mbox_inv_start mbox_inv_step)


text \<open>C2. However the senders, the work items, the timeouts and the other users of the mailbox interleave, no
  warning of the code fires and no null pointer is followed; a message is in the queue at most once; the batch
  that is copied in belongs to the owner of the control memory; and no message that is still in the queue has
  a sender that went back to its caller, or was completed before.\<close>

theorem mbox_safe:
  assumes "mbox_reach caps mb"
  shows "\<not> mb_warned mb \<and> distinct (map skb_id (mb_queue mb)) \<and>
    (\<forall>a lst. mb_runner mb = Some (a, lst, True) \<longrightarrow> mb_owner mb = Some a) \<and>
    (\<forall>s\<in>set (mb_queue mb). mb_done mb (skb_id s) = None \<and> (\<forall>e. mb_pc mb (skb_id s) \<noteq> Returned e))"
proof -
  have inv: "mbox_inv mb" using assms by (rule mbox_inv_reach)
  then have qi: "queue_inv mb" by (simp add: mbox_inv_def)
  have "mb_pc mb (skb_id s) \<noteq> Returned e" if "s \<in> set (mb_queue mb)" for s e
    using queue_invD(3,4) [OF qi that] by (cases "cb_posted s") auto
  moreover have "mb_owner mb = Some a" if "mb_runner mb = Some (a, lst, True)" for a lst
    using inv that by (simp add: mbox_inv_def run_inv_def)
  ultimately show ?thesis using inv queue_invD(1,2) [OF qi] by (simp add: mbox_inv_def)
qed

text \<open>A mailbox of 64 bytes for the crypto messages, and buffers of four bytes.\<close>

definition sample_caps :: nfp_net_tlv_caps where
  "sample_caps = nfp_net_tlv_caps_reset\<lparr> mbox_off := 0x1800, mbox_len := 64, mbox_cmsg_types := 0xffff \<rparr>"

definition sample_skb :: "nat \<Rightarrow> mbox_skb" where
  "sample_skb i = \<lparr> skb_id = i, skb_data = [0, 0, 0, 0], skb_end = 64, cb_state = NFP_NET_MBOX_CMSG_STATE_QUEUED,
     cb_err = None, cb_max_len = 0, cb_exp_reply = 0, cb_posted = False \<rparr>"

fun mbox_run :: "nfp_net_tlv_caps \<Rightarrow> mbox_event list \<Rightarrow> mbox \<Rightarrow> mbox option" where
  "mbox_run caps [] mb = Some mb"
| "mbox_run caps (ev # evs) mb = (case mbox_do caps ev mb of None \<Rightarrow> None | Some mb \<Rightarrow> mbox_run caps evs mb)"

lemma mbox_run_reach: "mbox_reach caps mb \<Longrightarrow> mbox_run caps evs mb = Some mb' \<Longrightarrow> mbox_reach caps mb'"
  by (induction evs arbitrary: mb) (auto split: option.splits intro: mbox_reach.step)

definition sample_send :: "nat \<Rightarrow> mbox_event" where
  "sample_send i = Communicate (sample_skb i) NFP_CCM_TYPE_CRYPTO_ADD 0 4 False True"

lemma sample_max_msg: "nfp_ccm_mbox_max_msg sample_caps = 48"
  by (simp add: nfp_ccm_mbox_max_msg_def sample_caps_def NFP_NET_CFG_MBOX_SIMPLE_VAL_def)

lemma sample_prepare:
  "nfp_ccm_mbox_msg_prepare sample_caps (sample_skb i) NFP_CCM_TYPE_CRYPTO_ADD 0 4 True = Inr (sample_skb i\<lparr> cb_max_len := 4 \<rparr>)"
  unfolding nfp_ccm_mbox_msg_prepare_def sample_max_msg
  by (simp add: nfp_ccm_mbox_msg_init_def sample_skb_def sample_caps_def round_up4_def bit_numeral_rec)

definition sample_msg :: "nat \<Rightarrow> u16 \<Rightarrow> mbox_skb" where
  "sample_msg i tag = sample_skb i\<lparr> cb_max_len := 4, skb_data := ccm_set_hdr (skb_data (sample_skb i)) NFP_CCM_TYPE_CRYPTO_ADD tag \<rparr>"

lemma sample_msg_simps [simp]:
  "skb_id (sample_msg i t) = i" "\<not> cb_posted (sample_msg i t)" "cb_state (sample_msg i t) = NFP_NET_MBOX_CMSG_STATE_QUEUED"
  "cb_max_len (sample_msg i t) = 4"
  by (simp_all add: sample_msg_def sample_skb_def)

lemma sample_skb_id [simp]: "skb_id (sample_skb i) = i" by (simp add: sample_skb_def)

lemma sample_send_empty:
  assumes "mb_queue mb = []"
  shows "nfp_ccm_mbox_communicate sample_caps (sample_skb i) NFP_CCM_TYPE_CRYPTO_ADD 0 4 False True mb =
    mb\<lparr> mb_queue := [sample_msg i (mb_tag mb)], mb_tag := mb_tag mb + 1, mb_pc := (mb_pc mb)(i := In_run),
        mb_runner := Some (Thread i, i, False) \<rparr>"
  unfolding nfp_ccm_mbox_communicate_def sample_prepare sum.case
  using assms by (simp add: nfp_ccm_mbox_msg_enqueue_def NFP_CCM_MAX_QLEN_def nfp_ccm_mbox_is_first_def run_queue_batch_def
      set_pc_def sample_msg_def sample_skb_def Let_def)

theorem mbox_safe_witness:
  "\<exists>mb. mbox_reach sample_caps mb \<and> map skb_id (mb_queue mb) = [1] \<and> \<not> mb_warned mb \<and> mb_done mb 1 = None"
proof -
  let ?mb = "nfp_ccm_mbox_alloc (\<lambda>_. 0)"
  have "mb_queue ?mb = []" "mb_pc ?mb 1 = Idle" by (simp_all add: nfp_ccm_mbox_alloc_def)
  then obtain mb where mb: "mbox_do sample_caps (sample_send 1) ?mb = Some mb" "map skb_id (mb_queue mb) = [1]"
    using sample_send_empty [of ?mb 1] by (simp add: sample_send_def sample_msg_def sample_skb_def)
  have "mbox_reach sample_caps mb" using mbox_reach.start mb(1) by (rule mbox_reach.step)
  with mbox_safe [OF this] mb(2) show ?thesis by auto
qed

end
