(* ===== verification/NFP_Mbox_Live.thy ===== *)
theory NFP_Mbox_Live
  imports NFP_Mbox_Proto
begin

text \<open>
  Every message sent through the mailbox (\<^verbatim>\<open>src/ccm_mbox.c\<close>) is completed and every sender goes back to its
  caller, provided that whoever can take a step again and again takes it at some point.  The proof is by a
  rank of a pending message: its place in the queue and how far the batch at the head of the queue has come.
  No step of the system raises the rank, and one kind of step, which can always be taken or is waiting for the
  control memory, lowers it.
\<close>

section \<open>Fair runs\<close>

text \<open>The kinds of steps that are taken in the end if they can be taken again and again.  New messages,
  timeouts and other users that want the control memory are not among them; that the other users release it
  is.\<close>

datatype mbox_kind =
    Woken nat | Relocks nat | Reaps nat | Runs_queue | Locks | Exchanges | Unlocks | Other_unlocks | Unforced

primrec step_kind :: "mbox_event \<Rightarrow> mbox_kind" where
  "step_kind (Communicate skb type rs ms critical ok) = Unforced"
| "step_kind (Post skb type ms ok) = Unforced"
| "step_kind (Wake i) = Woken i"
| "step_kind (Timeout i) = Unforced"
| "step_kind (Relock i) = Relocks i"
| "step_kind (Reap i) = Reaps i"
| "step_kind Runq = Runs_queue"
| "step_kind Lock = Locks"
| "step_kind (Exchange err bar) = Exchanges"
| "step_kind (Wait err bar) = Exchanges"
| "step_kind Unlock = Unlocks"
| "step_kind Other_lock = Unforced"
| "step_kind Other_unlock = Other_unlocks"

definition can_step :: "nfp_net_tlv_caps \<Rightarrow> mbox_kind \<Rightarrow> mbox \<Rightarrow> bool" where
  "can_step caps K mb \<longleftrightarrow> (\<exists>ev. step_kind ev = K \<and> mbox_do caps ev mb \<noteq> None)"

definition mbox_execution :: "nfp_net_tlv_caps \<Rightarrow> (nat \<Rightarrow> mbox) \<Rightarrow> (nat \<Rightarrow> mbox_event) \<Rightarrow> bool" where
  "mbox_execution caps st ev \<longleftrightarrow>
     (\<exists>bar. st 0 = nfp_ccm_mbox_alloc bar) \<and> (\<forall>n. mbox_do caps (ev n) (st n) = Some (st (Suc n)))"

definition fair :: "nfp_net_tlv_caps \<Rightarrow> (nat \<Rightarrow> mbox) \<Rightarrow> (nat \<Rightarrow> mbox_event) \<Rightarrow> bool" where
  "fair caps st ev \<longleftrightarrow>
     (\<forall>K. K \<noteq> Unforced \<longrightarrow> (\<forall>n. \<exists>m\<ge>n. can_step caps K (st m)) \<longrightarrow> (\<forall>n. \<exists>m\<ge>n. step_kind (ev m) = K))"

section \<open>The rank of a pending message\<close>

abbreviation ids :: "mbox \<Rightarrow> nat list" where
  "ids mb \<equiv> map skb_id (mb_queue mb)"

definition pending :: "mbox \<Rightarrow> nat \<Rightarrow> bool" where
  "pending mb i \<longleftrightarrow> i \<in> set (ids mb) \<or> live (mb_pc mb i)"

definition place :: "nat \<Rightarrow> nat list \<Rightarrow> nat" where
  "place i is = length (takeWhile (\<lambda>j. j \<noteq> i) is)"

definition batch_phase :: "mbox \<Rightarrow> nat" where
  "batch_phase mb =
     (case mb_runner mb of
        Some (_, _, k) \<Rightarrow> if k then 1 else 2
      | None \<Rightarrow> if cb_posted (hd (mb_queue mb)) \<or> mb_pc mb (hd (ids mb)) \<noteq> Waiting then 3 else 4)"

definition rank :: "mbox \<Rightarrow> nat \<Rightarrow> nat" where
  "rank mb i =
     (if i \<in> set (ids mb) then 4 * place i (ids mb) + batch_phase mb + 4
      else case mb_pc mb i of Locking _ \<Rightarrow> 2 | _ \<Rightarrow> 1)"

text \<open>The kind of step that brings a pending message closer to its end.\<close>

definition head_kind :: "mbox \<Rightarrow> mbox_kind" where
  "head_kind mb =
     (case mb_runner mb of
        Some (_, _, k) \<Rightarrow> if k then Exchanges else Locks
      | None \<Rightarrow>
          if cb_posted (hd (mb_queue mb)) then Runs_queue
          else if mb_pc mb (hd (ids mb)) = Waiting then Woken (hd (ids mb)) else Relocks (hd (ids mb)))"

definition next_kind :: "mbox \<Rightarrow> nat \<Rightarrow> mbox_kind" where
  "next_kind mb i =
     (if i \<in> set (ids mb) then head_kind mb
      else case mb_pc mb i of In_run \<Rightarrow> Unlocks | Waiting \<Rightarrow> Woken i | Locking _ \<Rightarrow> Relocks i | _ \<Rightarrow> Reaps i)"

text \<open>What a step can do to a pending message: end it, lower its rank, or leave it as it is.\<close>

definition closer :: "mbox \<Rightarrow> mbox_event \<Rightarrow> mbox \<Rightarrow> nat \<Rightarrow> bool" where
  "closer mb ev mb' i \<longleftrightarrow>
     \<not> pending mb' i \<or> rank mb' i < rank mb i \<or>
     (rank mb' i = rank mb i \<and> next_kind mb' i = next_kind mb i \<and> step_kind ev \<noteq> next_kind mb i)"

lemma place_append [simp]: "i \<in> set xs \<Longrightarrow> place i (xs @ ys) = place i xs"
  by (induction xs) (auto simp: place_def)

lemma place_skip: "i \<notin> set xs \<Longrightarrow> place i (xs @ ys) = length xs + place i ys"
  by (induction xs) (auto simp: place_def)

lemma place_filter: "i \<noteq> j \<Longrightarrow> place i (filter (\<lambda>x. x \<noteq> j) xs) \<le> place i xs"
  by (induction xs) (auto simp: place_def)

lemma hd_in_ids: "i \<in> set (ids mb) \<Longrightarrow> hd (ids mb) \<in> set (ids mb)"
  by (cases "mb_queue mb") auto

text \<open>A step that changes neither the queue up to the message, nor the batch, nor the threads involved.\<close>

lemma closer_same:
  assumes "step_kind ev \<noteq> next_kind mb i"
    and "i \<notin> set (ids mb) \<Longrightarrow> mb_pc mb' i = mb_pc mb i"
    and "i \<in> set (ids mb') \<longleftrightarrow> i \<in> set (ids mb)"
    and "i \<in> set (ids mb) \<Longrightarrow> mb_runner mb = None \<Longrightarrow> mb_pc mb' (hd (ids mb)) = mb_pc mb (hd (ids mb))"
    and "i \<in> set (ids mb) \<Longrightarrow> place i (ids mb') = place i (ids mb) \<and> hd (ids mb') = hd (ids mb) \<and>
      cb_posted (hd (mb_queue mb')) = cb_posted (hd (mb_queue mb)) \<and> mb_runner mb' = mb_runner mb"
  shows "closer mb ev mb' i"
proof (cases "i \<in> set (ids mb)")
  case True
  have same: "place i (ids mb') = place i (ids mb)" "hd (ids mb') = hd (ids mb)"
    "cb_posted (hd (mb_queue mb')) = cb_posted (hd (mb_queue mb))" "mb_runner mb' = mb_runner mb"
    using assms(5) True by simp_all
  have "head_kind mb' = head_kind mb" "batch_phase mb' = batch_phase mb"
    unfolding head_kind_def batch_phase_def same using assms(4) True by (simp_all split: option.split)
  with True assms(1,3) same(1) show ?thesis by (simp add: closer_def rank_def next_kind_def)
next
  case False
  with assms show ?thesis by (simp add: closer_def rank_def next_kind_def)
qed

text \<open>A step that lowers the rank because the batch at the head of the queue comes one step further.\<close>

lemma closer_phase:
  assumes "i \<in> set (ids mb)" and "ids mb' = ids mb" and "batch_phase mb' < batch_phase mb"
  shows "closer mb ev mb' i"
proof -
  have "i \<in> set (ids mb')" using assms(1,2) by simp
  then show ?thesis using assms by (simp add: closer_def rank_def)
qed


section \<open>Every step\<close>

lemma next_kind_forced: "next_kind mb i \<noteq> Unforced"
  by (auto simp: next_kind_def head_kind_def split: option.split prod.split mbox_pc.split)

lemma run_queue_batch_frame:
  "ids (run_queue_batch caps a mb) = ids mb" "mb_pc (run_queue_batch caps a mb) = mb_pc mb"
  "mb_queue mb \<noteq> [] \<Longrightarrow> \<exists>lst. mb_runner (run_queue_batch caps a mb) = Some (a, lst, False)"
  by (rule run_queue_batch_ids) (cases "mb_queue mb"; simp add: run_queue_batch_def mb_warn_def Let_def)+

text \<open>A new message does nothing but join the end of the queue.\<close>

definition joins :: "nat \<Rightarrow> mbox \<Rightarrow> mbox \<Rightarrow> bool" where
  "joins x mb mb' \<longleftrightarrow>
     (\<forall>j. j \<noteq> x \<longrightarrow> mb_pc mb' j = mb_pc mb j) \<and> (ids mb' = ids mb \<or> ids mb' = ids mb @ [x]) \<and>
     (mb_queue mb \<noteq> [] \<longrightarrow> mb_runner mb' = mb_runner mb \<and> cb_posted (hd (mb_queue mb')) = cb_posted (hd (mb_queue mb)))"

lemma err_free_joins: "joins i mb (err_free_skb i err mb)"
  by (simp add: joins_def err_free_skb_def set_pc_def free_skb_def)

lemma enqueue_cases:
  obtains "nfp_ccm_mbox_msg_enqueue s type critical mb = (Inl EBUSY, mb)"
  | d t where "nfp_ccm_mbox_msg_enqueue s type critical mb = (Inr (), mb\<lparr> mb_queue := mb_queue mb @ [s\<lparr> skb_data := d \<rparr>], mb_tag := t \<rparr>)"
  by (cases "\<not> critical \<and> length (mb_queue mb) \<ge> NFP_CCM_MAX_QLEN") (auto simp: nfp_ccm_mbox_msg_enqueue_def)

lemma communicate_joins: 
  assumes fresh: "skb_id skb \<notin> set (ids mb)"
  shows "joins (skb_id skb) mb (nfp_ccm_mbox_communicate caps skb type rs ms critical ok mb)"
proof (cases "nfp_ccm_mbox_msg_prepare caps skb type rs ms ok")
  case (Inl err)
  then show ?thesis by (simp add: nfp_ccm_mbox_communicate_def err_free_joins)
next
  case (Inr s)
  note p = prepare_skb [OF Inr]
  show ?thesis
  proof (rule enqueue_cases [of s type critical mb])
    assume "nfp_ccm_mbox_msg_enqueue s type critical mb = (Inl EBUSY, mb)"
    then show ?thesis using p by (simp add: nfp_ccm_mbox_communicate_def Inr err_free_joins)
  next
    fix d t
    assume e: "nfp_ccm_mbox_msg_enqueue s type critical mb = (Inr (), mb\<lparr> mb_queue := mb_queue mb @ [s\<lparr> skb_data := d \<rparr>], mb_tag := t \<rparr>)"
    show ?thesis
    proof (cases "mb_queue mb")
      case Nil
      then show ?thesis
        using e p run_queue_batch_frame(1,2)
        by (simp add: nfp_ccm_mbox_communicate_def Inr joins_def nfp_ccm_mbox_is_first_def set_pc_def)
    next
      case (Cons x q)
      then show ?thesis
        using e p fresh by (simp add: nfp_ccm_mbox_communicate_def Inr joins_def nfp_ccm_mbox_is_first_def set_pc_def)
    qed
  qed
qed

lemma post_joins:
  assumes fresh: "skb_id skb \<notin> set (ids mb)"
  shows "joins (skb_id skb) mb (nfp_ccm_mbox_post caps skb type ms ok mb)"
proof (cases "nfp_ccm_mbox_msg_prepare caps skb type 0 ms ok")
  case (Inl err)
  then show ?thesis by (simp add: nfp_ccm_mbox_post_def err_free_joins)
next
  case (Inr s)
  note p = prepare_skb [OF Inr]
  let ?s = "nfp_ccm_mbox_mark_posted s"
  have id: "skb_id ?s = skb_id skb" using p by (simp add: nfp_ccm_mbox_mark_posted_def)
  show ?thesis
  proof (rule enqueue_cases [of ?s type False mb])
    assume "nfp_ccm_mbox_msg_enqueue ?s type False mb = (Inl EBUSY, mb)"
    then show ?thesis using p by (simp add: nfp_ccm_mbox_post_def Inr err_free_joins)
  next
    fix d t
    assume e: "nfp_ccm_mbox_msg_enqueue ?s type False mb = (Inr (), mb\<lparr> mb_queue := mb_queue mb @ [?s\<lparr> skb_data := d \<rparr>], mb_tag := t \<rparr>)"
    show ?thesis
    proof (cases "mb_queue mb")
      case Nil
      then show ?thesis
        using e p id
        by (simp add: nfp_ccm_mbox_post_def Inr joins_def nfp_ccm_mbox_is_first_def set_pc_def Let_def mb_warn_def
            nfp_ccm_mbox_mark_next_runner_def split: option.split)
    next
      case (Cons x q)
      then show ?thesis
        using e p id fresh by (simp add: nfp_ccm_mbox_post_def Inr joins_def nfp_ccm_mbox_is_first_def set_pc_def Let_def)
    qed
  qed
qed

lemma joins_closer:
  assumes j: "joins x mb mb'" and "i \<noteq> x" "x \<notin> set (ids mb)" "step_kind ev = Unforced"
  shows "closer mb ev mb' i"
proof (rule closer_same)
  show "step_kind ev \<noteq> next_kind mb i" using assms(4) next_kind_forced by metis
  show "mb_pc mb' i = mb_pc mb i" using j assms(2) unfolding joins_def by blast
  show "mb_pc mb' (hd (ids mb)) = mb_pc mb (hd (ids mb))" if "i \<in> set (ids mb)"
    using that hd_in_ids j assms(3) unfolding joins_def by metis
  have q: "ids mb' = ids mb \<or> ids mb' = ids mb @ [x]" using j unfolding joins_def by blast
  then show "i \<in> set (ids mb') \<longleftrightarrow> i \<in> set (ids mb)" using assms(2) by (elim disjE) (simp_all del: set_map)
  assume i: "i \<in> set (ids mb)"
  then have ne: "mb_queue mb \<noteq> []" by auto
  then have "place i (ids mb') = place i (ids mb)" "hd (ids mb') = hd (ids mb)"
    using q i by (elim disjE; simp del: set_map)+
  with j ne show "place i (ids mb') = place i (ids mb) \<and> hd (ids mb') = hd (ids mb) \<and>
      cb_posted (hd (mb_queue mb')) = cb_posted (hd (mb_queue mb)) \<and> mb_runner mb' = mb_runner mb" by (simp add: joins_def)
qed


text \<open>A thread goes back to its caller, or goes for the lock.\<close>

lemma next_kind_thread:
  "next_kind mb i \<in> {Woken k, Relocks k, Reaps k} \<Longrightarrow> k = i \<and> i \<notin> set (ids mb) \<or> i \<in> set (ids mb) \<and> k = hd (ids mb) \<and> mb_runner mb = None"
  by (auto simp: next_kind_def head_kind_def simp del: set_map split: if_splits option.splits prod.splits mbox_pc.splits)

lemma return_closer:
  assumes "mb_queue mb' = mb_queue mb" "mb_runner mb' = mb_runner mb" "mb_pc mb' = (mb_pc mb)(j := Returned e)"
    and "j \<notin> set (ids mb)" and "i \<noteq> j \<Longrightarrow> step_kind ev \<noteq> next_kind mb i"
  shows "closer mb ev mb' i"
proof (cases "i = j")
  case True
  with assms show ?thesis by (simp add: closer_def pending_def)
next
  case False
  show ?thesis
  proof (rule closer_same)
    show "mb_pc mb' (hd (ids mb)) = mb_pc mb (hd (ids mb))" if "i \<in> set (ids mb)"
      using hd_in_ids [OF that] assms(3,4) by (metis fun_upd_other)
  qed (use assms False in simp_all)
qed

lemma thread_kind:
  assumes "j \<notin> set (ids mb)" "i \<noteq> j"
  shows "Woken j \<noteq> next_kind mb i" "Relocks j \<noteq> next_kind mb i" "Reaps j \<noteq> next_kind mb i"
  using next_kind_thread [of mb i j] hd_in_ids [of i mb] assms by auto

lemma skb_return_frame:
  "mb_queue (nfp_ccm_mbox_skb_return j s mb) = mb_queue mb" "mb_runner (nfp_ccm_mbox_skb_return j s mb) = mb_runner mb"
  "mb_pc (nfp_ccm_mbox_skb_return j s mb) = (mb_pc mb)(j := Returned (cb_err s))"
  by (simp_all add: nfp_ccm_mbox_skb_return_def set_pc_def free_skb_def)

lemma in_ids: "s \<in> set (mb_queue mb) \<Longrightarrow> skb_id s \<in> set (ids mb)"
  by simp

lemma done_not_queued:
  assumes "mbox_inv mb" "mbox_lookup mb j = Some s" "nfp_ccm_mbox_done s"
  shows "j \<notin> set (ids mb)"
  using assms(2) by (rule lookup_cases) (use queue_states(1) [OF assms(1), of s] assms(3) in auto)

lemma queued_waiting:
  assumes "mbox_inv mb" "mbox_lookup mb j = Some s" "\<not> nfp_ccm_mbox_done s"
  shows "s \<in> set (mb_queue mb)" "skb_id s = j"
proof -
  have "mb_done mb j \<noteq> Some s" using assms queue_invD(5) [of mb j s] by (auto simp: mbox_inv_def nfp_ccm_mbox_done_def)
  with assms(2) show "s \<in> set (mb_queue mb)" "skb_id s = j" by (auto elim: lookup_cases)
qed

lemma locking_closer:
  assumes inv: "mbox_inv mb" and pc: "mb_pc mb j = Waiting" and s: "mbox_lookup mb j = Some s" "\<not> nfp_ccm_mbox_done s"
    and ev: "step_kind ev = Unforced \<or> step_kind ev = Woken j \<and> nfp_ccm_mbox_should_run s"
  shows "closer mb ev (set_pc j (Locking to) mb) i"
proof -
  note q = queued_waiting [OF inv s]
  have jq: "j \<in> set (ids mb)" using q by auto
  have np: "\<not> cb_posted s" using q inv pc queue_invD(3) [of mb s] by (auto simp: mbox_inv_def)
  show ?thesis
  proof (cases "i \<in> set (ids mb) \<and> mb_runner mb = None \<and> hd (ids mb) = j")
    case True
    then have hd: "hd (mb_queue mb) = s"
      using q inv find_id [of "mb_queue mb"] by (cases "mb_queue mb") (auto simp: mbox_inv_def queue_inv_def)
    have "batch_phase (set_pc j (Locking to) mb) < batch_phase mb"
      using True hd np pc by (simp add: batch_phase_def set_pc_def)
    with True show ?thesis by (intro closer_phase) (simp_all add: set_pc_def)
  next
    case False
    have run: "hd (ids mb) = j \<and> mb_runner mb = None" if "nfp_ccm_mbox_should_run s"
    proof -
      have "s = hd (mb_queue mb)" using queue_states(2) [OF inv q(1) that] .
      then have "nfp_ccm_mbox_is_first (mb_queue mb) j" using q by (auto simp: nfp_ccm_mbox_is_first_def)
      with first_idle [OF inv this] pc show ?thesis by (simp add: nfp_ccm_mbox_is_first_def hd_map)
    qed
    show ?thesis
    proof (rule closer_same)
      show "step_kind ev \<noteq> next_kind mb i"
      proof
        assume k: "step_kind ev = next_kind mb i"
        then have "step_kind ev = Woken j" "nfp_ccm_mbox_should_run s" using ev next_kind_forced by metis+
        with k next_kind_thread [of mb i j] jq False run show False by auto
      qed
      show "mb_pc (set_pc j (Locking to) mb) i = mb_pc mb i" if "i \<notin> set (ids mb)" using that jq by (auto simp: set_pc_def)
      show "mb_pc (set_pc j (Locking to) mb) (hd (ids mb)) = mb_pc mb (hd (ids mb))"
        if "i \<in> set (ids mb)" "mb_runner mb = None" using that False by (auto simp: set_pc_def)
    qed (simp_all add: set_pc_def)
  qed
qed


text \<open>The lock is taken again.\<close>

lemma start_closer:
  assumes "mb_runner mb = None" "mb_queue mb \<noteq> []" "mb_queue mb0 = mb_queue mb"
    and "batch_phase mb = 3" "i \<notin> set (ids mb) \<Longrightarrow> mb_pc mb0 i = mb_pc mb i \<and> step_kind ev \<noteq> next_kind mb i"
  shows "closer mb ev (run_queue_batch caps a mb0) i"
proof (cases "i \<in> set (ids mb)")
  case True
  obtain lst where "mb_runner (run_queue_batch caps a mb0) = Some (a, lst, False)"
    using run_queue_batch_frame(3) [of mb0 caps a] assms(2,3) by auto
  then have "batch_phase (run_queue_batch caps a mb0) < batch_phase mb" using assms(4) by (simp add: batch_phase_def)
  with True assms(3) show ?thesis by (intro closer_phase) (simp_all add: run_queue_batch_frame(1))
next
  case False
  have "ids (run_queue_batch caps a mb0) = ids mb" using assms(3) run_queue_batch_frame(1) [of caps a mb0] by simp
  then show ?thesis
    by (intro closer_same) (use False assms(5) run_queue_batch_frame(2) [of caps a mb0] in \<open>simp_all del: set_map\<close>)
qed

text \<open>A message that waits behind the head is taken out of the queue.\<close>

lemma unlink_closer:
  assumes q: "mb_queue mb' = filter (\<lambda>x. skb_id x \<noteq> j) (mb_queue mb)"
    and pc: "mb_pc mb' = (mb_pc mb)(j := Returned e)" and r: "mb_runner mb' = mb_runner mb"
    and hd: "i \<in> set (ids mb) \<Longrightarrow> hd (ids mb) \<noteq> j" and ev: "i \<noteq> j \<Longrightarrow> step_kind ev \<noteq> next_kind mb i"
  shows "closer mb ev mb' i"
proof -
  have ids': "ids mb' = filter (\<lambda>x. x \<noteq> j) (ids mb)" by (simp add: q filter_map comp_def)
  show ?thesis
  proof (cases "i = j")
    case True
    then show ?thesis unfolding closer_def pending_def ids' pc by (simp del: set_map)
  next
    case ij: False
    have hds: "hd (ids mb') = hd (ids mb)" "hd (mb_queue mb') = hd (mb_queue mb)" if "i \<in> set (ids mb)"
      using hd [OF that] that by (cases "mb_queue mb"; simp add: q)+
    have iq: "i \<in> set (ids mb') \<longleftrightarrow> i \<in> set (ids mb)" unfolding ids' using ij by (simp del: set_map)
    have hpc: "mb_pc mb' (hd (ids mb)) = mb_pc mb (hd (ids mb))" if "i \<in> set (ids mb)" using hd [OF that] by (simp add: pc)
    show ?thesis
    proof (cases "i \<in> set (ids mb) \<and> place i (ids mb') \<noteq> place i (ids mb)")
      case True
      then have "batch_phase mb' = batch_phase mb" using hds hpc r by (simp add: batch_phase_def split: option.split)
      moreover have "place i (ids mb') < place i (ids mb)"
        using True place_filter [OF ij, of "ids mb"] unfolding ids' by linarith
      ultimately have "rank mb' i < rank mb i" using True iq unfolding rank_def by (simp del: set_map)
      then show ?thesis by (simp add: closer_def)
    next
      case False
      show ?thesis
        by (rule closer_same) (use False hds ev [OF ij] iq r hpc in \<open>simp_all del: set_map\<close>, simp add: pc ij)
    qed
  qed
qed

lemma relock_closer:
  assumes inv: "mbox_inv mb" and pc: "mb_pc mb j = Locking to" and s: "mbox_lookup mb j = Some s"
  shows "closer mb (Relock j) (communicate_relock caps j to s mb) i"
proof (cases "nfp_ccm_mbox_is_first (mb_queue mb) j")
  case True
  obtain x q where q: "mb_queue mb = x # q" "skb_id x = j" "\<not> cb_posted x" "mb_runner mb = None"
    using first_hd [OF inv True] pc by auto
  have "closer mb (Relock j) (run_queue_batch caps (Thread j) (set_pc j In_run mb)) i"
  proof (rule start_closer)
    show "batch_phase mb = 3" using q pc by (simp add: batch_phase_def)
    show "mb_pc (set_pc j In_run mb) i = mb_pc mb i \<and> step_kind (Relock j) \<noteq> next_kind mb i" if "i \<notin> set (ids mb)"
      using that q next_kind_thread [of mb i j] by (auto simp: set_pc_def)
  qed (use q in \<open>simp_all add: set_pc_def\<close>)
  with True show ?thesis by (simp add: communicate_relock_def)
next
  case nf: False
  have pi: "pc_inv mb" and qi: "queue_inv mb" using inv by (simp_all add: mbox_inv_def)
  have to: "to" using pc_invD(2) [OF pi, of j] pc nf by (cases to) auto
  have hd: "hd (ids mb) \<noteq> j" if "i \<in> set (ids mb)" for i using nf that by (cases "mb_queue mb") (auto simp: nfp_ccm_mbox_is_first_def)
  have nk: "Relocks j \<noteq> next_kind mb i" if "i \<in> set (ids mb) \<or> i \<noteq> j" for i
    using next_kind_thread [of mb i j] hd [of i] that by auto
  show ?thesis
  proof (cases "nfp_ccm_mbox_in_progress s")
    case True
    then have mb': "communicate_relock caps j to s mb = set_pc j Wait_done mb"
      using nf to by (simp add: communicate_relock_def nfp_ccm_mbox_unlink_def)
    show ?thesis
    proof (cases "i = j \<and> i \<notin> set (ids mb)")
      case True
      then have i: "i = j" and n: "j \<notin> set (ids mb)" "j \<notin> set (ids (set_pc j Wait_done mb))" by (auto simp: set_pc_def)
      have "rank (set_pc j Wait_done mb) j < rank mb j" using n pc unfolding rank_def by (simp add: set_pc_def)
      then show ?thesis unfolding mb' i closer_def by blast
    next
      case False
      show ?thesis unfolding mb'
      proof (rule closer_same)
        show "mb_pc (set_pc j Wait_done mb) (hd (ids mb)) = mb_pc mb (hd (ids mb))" if "i \<in> set (ids mb)"
          using hd [OF that] by (simp add: set_pc_def)
      qed (use False nk [of i] in \<open>auto simp: set_pc_def\<close>)
    qed
  next
    case np: False
    have "\<not> nfp_ccm_mbox_done s" using np by (auto simp: nfp_ccm_mbox_in_progress_def nfp_ccm_mbox_done_def)
    note in_q = queued_waiting [OF inv s this]
    have "\<not> nfp_ccm_mbox_should_run s"
      using queue_states(2) [OF inv in_q(1)] in_q nf by (auto simp: nfp_ccm_mbox_is_first_def)
    then have mb': "communicate_relock caps j to s mb =
        err_free_skb j ETIMEDOUT (mb\<lparr> mb_queue := filter (\<lambda>x. skb_id x \<noteq> j) (mb_queue mb) \<rparr>)" (is "_ = ?mb")
      using nf to np by (simp add: communicate_relock_def nfp_ccm_mbox_unlink_def Let_def)
    show ?thesis unfolding mb'
      by (rule unlink_closer) (use hd nk [of i] in \<open>auto simp: err_free_skb_def set_pc_def free_skb_def simp del: set_map\<close>)
  qed
qed


text \<open>The batch at the head comes a step further, and ends.\<close>

lemma runq_closer:
  assumes inv: "mbox_inv mb" and w: "mb_runq_work mb"
  shows "closer mb Runq (nfp_ccm_mbox_post_runq_work caps (mb\<lparr> mb_runq_work := False \<rparr>)) i"
proof -
  have r: "mb_runner mb = None" using inv w by (auto simp: mbox_inv_def run_inv_def split: option.splits)
  have ri: "run_inv mb" using inv by (simp add: mbox_inv_def)
  then obtain s q where q: "mb_queue mb = s # q" "cb_posted s" "nfp_ccm_mbox_should_run s"
    using r w by (cases "mb_queue mb") (auto simp: run_inv_def idle_states_def nfp_ccm_mbox_should_run_def)
  have "closer mb Runq (run_queue_batch caps Runq_work (mb\<lparr> mb_runq_work := False \<rparr>)) i"
  proof (rule start_closer [OF r])
    assume "i \<notin> set (ids mb)"
    then show "mb_pc (mb\<lparr> mb_runq_work := False \<rparr>) i = mb_pc mb i \<and> step_kind Runq \<noteq> next_kind mb i"
      by (simp add: next_kind_def split: mbox_pc.split)
  qed (use q r in \<open>simp_all add: batch_phase_def\<close>)
  then show ?thesis using q by (simp add: nfp_ccm_mbox_post_runq_work_def)
qed

lemma lock_closer:
  assumes r: "mb_runner mb = Some (a, lst, False)"
  shows "closer mb Lock (mb\<lparr> mb_owner := Some a, mb_bar := bar, mb_runner := Some (a, lst, True) \<rparr>) i"
proof (cases "i \<in> set (ids mb)")
  case True
  then show ?thesis by (rule closer_phase) (use r in \<open>simp_all add: batch_phase_def\<close>)
next
  case False
  then show ?thesis by (intro closer_same) (simp_all add: next_kind_def split: mbox_pc.split)
qed

lemma batch_phase_le: "batch_phase mb \<le> 4"
  by (simp add: batch_phase_def split: option.split prod.split)

lemma complete_ids:
  assumes q: "b \<noteq> []" "skb_id (last b) = lst" "distinct (map skb_id (b @ r))"
    and b': "mb_queue mb1 = b' @ r" "list_all2 same_skb b b'"
  shows "ids (complete_batch f consume lst mb1) = map skb_id r"
    "mb_pc (complete_batch f consume lst mb1) = mb_pc mb1" "mb_runner (complete_batch f consume lst mb1) = mb_runner mb1"
proof -
  have "dequeue_until lst (mb_queue mb1) = (b', r)"
    unfolding b'(1) by (rule dequeue_until_batch) (use last_same [OF b'(2)] same_skb_ids [OF b'(2)] q in simp_all)
  note F = complete_batch_fields [OF this, where f = f and consume = consume]
  show "ids (complete_batch f consume lst mb1) = map skb_id r" by (simp add: F split: list.split)
  show "mb_pc (complete_batch f consume lst mb1) = mb_pc mb1" "mb_runner (complete_batch f consume lst mb1) = mb_runner mb1"
    by (simp_all add: F)
qed

lemma finish_ids:
  assumes inv: "mbox_inv mb" and run: "mb_runner mb = Some (a, lst, True)"
    and mb0: "mb_queue mb0 = mb_queue mb" "mb_pc mb0 = mb_pc mb"
  obtains b r where "ids mb = b @ r" "b \<noteq> []" "distinct (b @ r)" "ids (mbox_finish caps err bar lst mb0) = r"
    "mb_pc (mbox_finish caps err bar lst mb0) = mb_pc mb" "mb_runner (mbox_finish caps err bar lst mb0) = None"
proof -
  have qi: "queue_inv mb" using inv by (simp add: mbox_inv_def)
  have "run_states lst (mb_queue mb)" using inv run by (simp add: mbox_inv_def run_inv_def)
  then obtain s b r where q: "mb_queue mb = (s # b) @ r" "skb_id (last (s # b)) = lst" by (auto elim: run_statesE)
  have d: "distinct (map skb_id ((s # b) @ r))" using queue_invD(1) [OF qi] q(1) by simp
  have refl: "list_all2 same_skb (s # b) (s # b)" by (rule list.rel_refl) (simp add: same_skb_def)
  have "\<exists>b' mb1 f c. mbox_finish caps err bar lst mb0 = complete_batch f c lst mb1 \<and> mb_queue mb1 = b' @ r \<and>
      list_all2 same_skb (s # b) b' \<and> mb_pc mb1 = mb_pc mb \<and> mb_runner mb1 = None"
  proof (cases err)
    case True
    then have "mbox_finish caps err bar lst mb0 =
        complete_batch (complete_err EIO) False lst (mb0\<lparr> mb_bar := bar, mb_runner := None \<rparr>)"
      by (simp add: mbox_finish_def nfp_ccm_mbox_mark_all_err_def)
    with refl q mb0 show ?thesis by (intro exI conjI) (assumption | simp)+
  next
    case False
    let ?data = "mbox_off caps + NFP_NET_CFG_MBOX_SIMPLE_VAL"
    obtain b' where b': "copy_out_loop bar (?data + mbox_len caps) lst ?data (mb_queue mb) = b' @ r" "list_all2 same_skb (s # b) b'"
      using copy_out_loop_batch [of "s # b" lst r bar "?data + mbox_len caps" ?data] q d by auto
    then have "mbox_finish caps err bar lst mb0 =
        complete_batch complete_reply True lst (mb0\<lparr> mb_bar := bar, mb_runner := None, mb_queue := b' @ r \<rparr>)"
      using False mb0 by (simp add: mbox_finish_def nfp_ccm_mbox_copy_out_def Let_def)
    with b'(2) mb0 show ?thesis by (intro exI conjI) (assumption | simp)+
  qed
  then obtain b' mb1 f c where F: "mbox_finish caps err bar lst mb0 = complete_batch f c lst mb1" "mb_queue mb1 = b' @ r"
      "list_all2 same_skb (s # b) b'" "mb_pc mb1 = mb_pc mb" "mb_runner mb1 = None" by blast
  note C = complete_ids [OF _ q(2) d F(2,3), of f c, folded F(1)]
  show thesis by (rule that [of "map skb_id (s # b)" "map skb_id r"]) (use q(1) d C F(4,5) in simp_all)
qed

lemma finish_closer:
  assumes inv: "mbox_inv mb" and run: "mb_runner mb = Some (a, lst, True)"
    and mb0: "mb_queue mb0 = mb_queue mb" "mb_pc mb0 = mb_pc mb" and ev: "step_kind ev = Exchanges"
  shows "closer mb ev (mbox_finish caps err bar lst mb0) i" (is "closer mb ev ?mb i")
proof (rule finish_ids [OF inv run mb0, of caps err bar])
  fix b r assume F: "ids mb = b @ r" "b \<noteq> []" "distinct (b @ r)" "ids ?mb = r" "mb_pc ?mb = mb_pc mb" "mb_runner ?mb = None"
  show ?thesis
  proof (cases "i \<in> set (ids mb)")
    case True
    then have rank: "rank mb i = 4 * place i (ids mb) + 5" by (simp add: rank_def batch_phase_def run)
    have "rank ?mb i < rank mb i"
    proof (cases "i \<in> set r")
      case True
      then have "place i (ids mb) = length b + place i r" unfolding F(1) using F(3) by (intro place_skip) auto
      moreover have "rank ?mb i \<le> 4 * place i r + 8" unfolding rank_def F(4) using True batch_phase_le [of ?mb] by simp
      moreover have "length b > 0" using F(2) by simp
      ultimately show ?thesis using rank by linarith
    next
      case False
      then have "rank ?mb i \<le> 2" unfolding rank_def F(4) by (simp split: mbox_pc.split)
      then show ?thesis using rank by linarith
    qed
    then show ?thesis by (simp add: closer_def)
  next
    case False
    then have "i \<notin> set r" unfolding F(1) by simp
    then show ?thesis
      by (intro closer_same) (use False ev F(4,5) in \<open>simp_all add: next_kind_def del: set_map split: mbox_pc.split\<close>)
  qed
qed


text \<open>The control memory is released.\<close>

lemma runner_queued:
  assumes "mbox_inv mb" "mb_runner mb = Some (Thread i, lst, k)"
  shows "i \<in> set (ids mb)"
  using assms by (auto simp: mbox_inv_def run_inv_def run_states_def)

lemma unlocks_owner:
  assumes inv: "mbox_inv mb" and k: "next_kind mb i = Unlocks"
  shows "mb_owner mb = Some (Thread i)" "mb_runner mb \<noteq> Some (Thread i, lst, b)"
proof -
  have pi: "pc_inv mb" using inv by (simp add: mbox_inv_def)
  have i: "i \<notin> set (ids mb)" "mb_pc mb i = In_run"
    using k by (auto simp: next_kind_def head_kind_def split: if_splits option.splits prod.splits mbox_pc.splits)
  show "mb_runner mb \<noteq> Some (Thread i, lst, b)" using runner_queued [OF inv] i(1) by blast
  show "mb_owner mb = Some (Thread i)" using pc_invD(3) [OF pi i(2)] runner_queued [OF inv] i(1) by blast
qed

lemma unlock_closer:
  assumes inv: "mbox_inv mb" and step: "mbox_do caps Unlock mb = Some mb'"
  shows "closer mb Unlock mb' i"
proof -
  have pi: "pc_inv mb" and qi: "queue_inv mb" using inv by (simp_all add: mbox_inv_def)
  obtain a where o: "mb_owner mb = Some a" "a \<noteq> Other" "\<And>lst. mb_runner mb \<noteq> Some (a, lst, True)"
    using step by (auto split: option.splits if_splits)
  have nk: "step_kind Unlock \<noteq> next_kind mb i" if "a \<noteq> Thread i"
    using unlocks_owner(1) [OF inv, of i] that o(1) by (metis option.inject step_kind.simps(11))
  show ?thesis
  proof (cases a)
    case (Thread k)
    obtain s where s: "mb_done mb k = Some s" using pc_invD(5) [OF pi, of k] o Thread by auto
    have mb': "mb' = nfp_ccm_mbox_skb_return k s (mb\<lparr> mb_owner := None \<rparr>)"
      using step o(1) Thread s by (auto simp: Let_def split: if_splits)
    have "k \<notin> set (ids mb)" using queue_invD(2) [OF qi] s by force
    then show ?thesis by (intro return_closer) (use nk Thread in \<open>auto simp: mb' skb_return_frame\<close>)
  next
    case Runq_work
    then have "mb' = mb\<lparr> mb_owner := None \<rparr>" using step o(1) by (auto simp: Let_def split: if_splits)
    with nk Runq_work show ?thesis by (intro closer_same) simp_all
  next
    case Wait_work
    then have "mb' = mb\<lparr> mb_owner := None \<rparr>" using step o(1) by (auto simp: Let_def split: if_splits)
    with nk Wait_work show ?thesis by (intro closer_same) simp_all
  qed (use o(2) in simp)
qed

lemma pending_not_idle: "mbox_inv mb \<Longrightarrow> pending mb i \<Longrightarrow> mb_pc mb i \<noteq> Idle"
  using fresh_id(1) by (force simp: pending_def)

lemma not_forced: "next_kind mb i \<noteq> Other_unlocks"
  by (auto simp: next_kind_def head_kind_def split: option.split prod.split mbox_pc.split)

lemma wait_closer:
  assumes inv: "mbox_inv mb" and pc: "mb_pc mb j = Waiting" and s: "mbox_lookup mb j = Some s" "nfp_ccm_mbox_done s"
    and ev: "step_kind ev \<in> {Unforced, Woken j}"
  shows "closer mb ev (nfp_ccm_mbox_skb_return j s mb) i"
  by (rule return_closer)
    (use skb_return_frame done_not_queued [OF inv s] thread_kind(1) [of j mb i] next_kind_forced [of mb i] ev in auto)

lemma reap_closer:
  assumes inv: "mbox_inv mb" and step: "mbox_do caps (Reap j) mb = Some mb'"
  shows "closer mb (Reap j) mb' i"
proof -
  obtain s where pc: "mb_pc mb j = Wait_done" and s: "mbox_lookup mb j = Some s" "nfp_ccm_mbox_done s"
    using step by (auto split: mbox_pc.splits option.splits if_splits)
  have mb': "mb' = (case cb_err s of None \<Rightarrow> nfp_ccm_mbox_skb_return j s mb
      | Some err \<Rightarrow> err_free_skb j err (nfp_ccm_mbox_skb_return j s mb))"
    using step pc s by (simp add: Let_def)
  show ?thesis
    by (rule return_closer [where e = "cb_err s" and j = j])
      (use done_not_queued [OF inv s] thread_kind(3) [of j mb i]
       in \<open>auto simp: mb' skb_return_frame err_free_skb_def set_pc_def free_skb_def split: option.split\<close>)
qed


lemma step_closer:
  assumes inv: "mbox_inv mb" and p: "pending mb i" and step: "mbox_do caps ev mb = Some mb'"
  shows "closer mb ev mb' i"
proof (cases ev)
  case (Communicate skb type rs ms critical ok)
  then have "mb_pc mb (skb_id skb) = Idle" and mb': "mb' = nfp_ccm_mbox_communicate caps skb type rs ms critical ok mb"
    using step by (auto split: if_splits)
  then have fr: "skb_id skb \<notin> set (ids mb)" "i \<noteq> skb_id skb" using fresh_id(1) [OF inv] pending_not_idle [OF inv p] by auto
  from joins_closer [OF communicate_joins [OF fr(1)] fr(2,1)] show ?thesis by (simp add: mb' Communicate)
next
  case (Post skb type ms ok)
  then have "mb_pc mb (skb_id skb) = Idle" and mb': "mb' = nfp_ccm_mbox_post caps skb type ms ok mb"
    using step by (auto split: if_splits)
  then have fr: "skb_id skb \<notin> set (ids mb)" "i \<noteq> skb_id skb" using fresh_id(1) [OF inv] pending_not_idle [OF inv p] by auto
  from joins_closer [OF post_joins [OF fr(1)] fr(2,1)] show ?thesis by (simp add: mb' Post)
next
  case (Wake j)
  then obtain s where "mb_pc mb j = Waiting" "mbox_lookup mb j = Some s"
    using step by (auto split: mbox_pc.splits option.splits)
  with Wake step wait_closer [OF inv this, of ev i] locking_closer [OF inv this, of ev False i] show ?thesis by (auto split: if_splits)
next
  case (Timeout j)
  then obtain s where "mb_pc mb j = Waiting" "mbox_lookup mb j = Some s"
    using step by (auto split: mbox_pc.splits option.splits)
  with Timeout step wait_closer [OF inv this, of ev i] locking_closer [OF inv this, of ev True i] show ?thesis by (auto split: if_splits)
next
  case (Relock j)
  then show ?thesis using step relock_closer [OF inv, of j] by (auto split: mbox_pc.splits option.splits)
next
  case (Reap j)
  then show ?thesis using step reap_closer [OF inv] by simp
next
  case Runq
  then show ?thesis using step runq_closer [OF inv] by (auto split: if_splits)
next
  case Lock
  then obtain a lst where r: "mb_runner mb = Some (a, lst, False)" "mb_owner mb = None"
    using step by (auto split: option.splits bool.splits)
  obtain bar where "nfp_ccm_mbox_copy_in caps (mb_bar mb) lst (mb_queue mb) = Some bar"
    using lock_inv [OF inv r] by blast
  with r Lock step lock_closer [OF r(1)] show ?thesis by auto
next
  case (Exchange err bar)
  then obtain a lst where r: "mb_runner mb = Some (a, lst, True)" "mb' = mbox_finish caps err bar lst mb"
    using step by (auto split: option.splits bool.splits if_splits)
  show ?thesis unfolding r(2) by (rule finish_closer [OF inv r(1)]) (simp_all add: Exchange)
next
  case (Wait err bar)
  then have w: "mb_wait_work mb" and mb': "mb' = nfp_ccm_mbox_post_wait_work caps err bar (mb\<lparr> mb_wait_work := False \<rparr>)"
    using step by (auto split: if_splits)
  obtain a lst k where r: "mb_runner mb = Some (a, lst, k)"
    using inv w by (cases "mb_runner mb") (auto simp: mbox_inv_def run_inv_def)
  have k: "k" "lst = skb_id (hd (mb_queue mb))" "cb_posted (hd (mb_queue mb))" "mb_queue mb \<noteq> []"
    using inv w r by (auto simp: mbox_inv_def run_inv_def run_states_def)
  then have "mb' = mbox_finish caps err bar lst (mb\<lparr> mb_wait_work := False \<rparr>)"
    by (cases "mb_queue mb") (simp_all add: mb' nfp_ccm_mbox_post_wait_work_def)
  then show ?thesis using finish_closer [OF inv, of a lst] r k(1) Wait by simp
next
  case Unlock
  then show ?thesis using step unlock_closer [OF inv] by simp
next
  case Other_lock
  then have "mb' = mb\<lparr> mb_owner := Some Other \<rparr>" using step by (simp split: if_splits)
  then show ?thesis by (intro closer_same) (use next_kind_forced [of mb i] Other_lock in simp_all)
next
  case Other_unlock
  then have "mb' = mb\<lparr> mb_owner := None \<rparr>" using step by (simp split: if_splits)
  then show ?thesis by (intro closer_same) (use not_forced [of mb i] Other_unlock in simp_all)
qed

section \<open>The step is possible\<close>

lemma can_stepI: "step_kind ev = K \<Longrightarrow> mbox_do caps ev mb \<noteq> None \<Longrightarrow> can_step caps K mb"
  unfolding can_step_def by blast

lemma head_can_step:
  assumes inv: "mbox_inv mb" and i: "i \<in> set (ids mb)"
    and own: "mb_owner mb = None \<or> next_kind mb i \<notin> {Locks, Runs_queue}"
  shows "can_step caps (next_kind mb i) mb"
proof -
  have ri: "run_inv mb" and pi: "pc_inv mb" and qi: "queue_inv mb" using inv by (simp_all add: mbox_inv_def)
  obtain s q where q: "mb_queue mb = s # q" using i by (cases "mb_queue mb") auto
  have nk: "next_kind mb i = head_kind mb" using i by (simp add: next_kind_def)
  show ?thesis
  proof (cases "mb_runner mb")
    case None
    show ?thesis
    proof (cases "cb_posted s")
      case True
      then have "mb_runq_work mb" "head_kind mb = Runs_queue" using ri None q by (simp_all add: run_inv_def head_kind_def)
      with own nk show ?thesis by (intro can_stepI [of Runq]) simp_all
    next
      case False
      have first: "nfp_ccm_mbox_is_first (mb_queue mb) (skb_id s)" by (simp add: nfp_ccm_mbox_is_first_def q)
      have st: "nfp_ccm_mbox_should_run s" "\<not> nfp_ccm_mbox_done s"
        using ri None q by (simp_all add: run_inv_def idle_states_def nfp_ccm_mbox_should_run_def nfp_ccm_mbox_done_def)
      have lk: "mbox_lookup mb (skb_id s) = Some s" using lookup_queue [OF qi] q by simp
      show ?thesis
      proof (cases "mb_pc mb (skb_id s)")
        case Waiting
        then show ?thesis using False None lk st q by (intro can_stepI [of "Wake (skb_id s)"]) (simp_all add: nk head_kind_def)
      next
        case (Locking to)
        then show ?thesis using False None lk st q by (intro can_stepI [of "Relock (skb_id s)"]) (simp_all add: nk head_kind_def)
      next
        case In_run
        have "mb_done mb (skb_id s) = None" using queue_invD(2) [OF qi] q by simp
        with In_run None pc_invD(3,5) [OF pi, of "skb_id s"] show ?thesis by simp
      next
        case Wait_done
        have "mb_done mb (skb_id s) = None" using queue_invD(2) [OF qi] q by simp
        then obtain x where "x \<in> set (mb_queue mb)" "skb_id x = skb_id s" "cb_state x = NFP_NET_MBOX_CMSG_STATE_BUSY"
          using pc_invD(1) [OF pi Wait_done] by blast
        moreover have "idle_states (mb_queue mb)" using ri None by (simp add: run_inv_def)
        ultimately show ?thesis unfolding q idle_states_def by auto
      qed (use queue_invD(4) [OF qi, of s] q False in simp_all)
    qed
  next
    case (Some r)
    then obtain a lst k where r: "mb_runner mb = Some (a, lst, k)" by (cases r) auto
    consider "\<not> k" | "k" "a = Wait_work" | "k" "a \<noteq> Wait_work" by blast
    then show ?thesis
    proof cases
      case 1
      then show ?thesis using own r by (intro can_stepI [of "Lock"]) (simp_all add: nk head_kind_def)
    next
      case 2
      then show ?thesis using ri r by (intro can_stepI [of "Wait False (mb_bar mb)"]) (simp_all add: nk head_kind_def run_inv_def)
    next
      case 3
      then show ?thesis using r by (intro can_stepI [of "Exchange False (mb_bar mb)"]) (simp_all add: nk head_kind_def)
    qed
  qed
qed


lemma thread_can_step:
  assumes inv: "mbox_inv mb" and i: "i \<notin> set (ids mb)" and l: "live (mb_pc mb i)"
  shows "can_step caps (next_kind mb i) mb"
proof -
  have qi: "queue_inv mb" and pi: "pc_inv mb" using inv by (simp_all add: mbox_inv_def)
  obtain s where s: "mb_done mb i = Some s" using queue_invD(6) [OF qi l] i by (cases "mb_done mb i") auto
  have d: "nfp_ccm_mbox_done s" using queue_invD(5) [OF qi s] by (simp add: nfp_ccm_mbox_done_def)
  have "find (\<lambda>s. skb_id s = i) (mb_queue mb) = None" using i by (simp add: find_id_None)
  then have lk: "mbox_lookup mb i = Some s" by (simp add: mbox_lookup_def s)
  show ?thesis
  proof (cases "mb_pc mb i")
    case Waiting
    then show ?thesis using i lk d by (intro can_stepI [of "Wake i"]) (simp_all add: next_kind_def)
  next
    case (Locking to)
    then show ?thesis using i lk by (intro can_stepI [of "Relock i"]) (simp_all add: next_kind_def)
  next
    case In_run
    then have nk: "next_kind mb i = Unlocks" using i by (simp add: next_kind_def)
    then show ?thesis
      using unlocks_owner [OF inv nk] by (intro can_stepI [of Unlock]) (auto simp: Let_def split: option.split)
  next
    case Wait_done
    then show ?thesis using i lk d by (intro can_stepI [of "Reap i"]) (simp_all add: next_kind_def Let_def)
  qed (use l in simp_all)
qed

lemma next_can_step:
  assumes "mbox_inv mb" "pending mb i" "mb_owner mb = None \<or> next_kind mb i \<notin> {Locks, Runs_queue}"
  shows "can_step caps (next_kind mb i) mb"
  using assms head_can_step thread_can_step unfolding pending_def by blast

text \<open>The control memory can be released when a batch waits for it.\<close>

lemma owner_can_step:
  assumes o: "mb_owner mb = Some a" and k: "next_kind mb i \<in> {Locks, Runs_queue}"
  shows "can_step caps Other_unlocks mb \<or> can_step caps Unlocks mb"
proof (cases "a = Other")
  case True
  then show ?thesis using o by (intro disjI1 can_stepI [of Other_unlock]) simp_all
next
  case False
  have "\<forall>lst. mb_runner mb \<noteq> Some (a, lst, True)"
    using k by (auto simp: next_kind_def head_kind_def split: if_splits mbox_pc.splits)
  then show ?thesis using False o by (intro disjI2 can_stepI [of Unlock]) (auto simp: Let_def split: option.split)
qed

lemma release_owner:
  assumes "mbox_do caps ev mb = Some mb'" "step_kind ev \<in> {Unlocks, Other_unlocks}"
  shows "mb_owner mb' = None"
  using assms by (cases ev)
    (auto simp: Let_def nfp_ccm_mbox_skb_return_def set_pc_def free_skb_def mb_warn_def split: option.splits agent.splits if_splits)

section \<open>Every message is completed\<close>

lemma execution_step: "mbox_execution caps st ev \<Longrightarrow> mbox_do caps (ev n) (st n) = Some (st (Suc n))"
  by (simp add: mbox_execution_def)

lemma execution_inv: "mbox_execution caps st ev \<Longrightarrow> mbox_inv (st n)"
  by (induction n) (auto simp: mbox_execution_def intro: mbox_inv_start mbox_inv_step)

text \<open>In a fair run, a batch that waits for the control memory finds it free at some point.\<close>

lemma owner_released:
  assumes ex: "mbox_execution caps st ev" and fair: "fair caps st ev"
    and k: "\<And>m. m \<ge> n \<Longrightarrow> next_kind (st m) i \<in> {Locks, Runs_queue}"
  shows "\<exists>m\<ge>n. mb_owner (st m) = None"
proof (rule ccontr)
  assume "\<not> ?thesis"
  then have owned: "\<exists>a. mb_owner (st m) = Some a" if "m \<ge> n" for m using that by auto
  have never: "step_kind (ev m) \<notin> {Unlocks, Other_unlocks}" if "m \<ge> n" for m
    using release_owner [OF execution_step [OF ex]] owned [of "Suc m"] that by force
  have can: "can_step caps Other_unlocks (st m) \<or> can_step caps Unlocks (st m)" if m: "m \<ge> n" for m
  proof -
    obtain a where "mb_owner (st m) = Some a" using owned [OF m] by blast
    then show ?thesis by (rule owner_can_step [OF _ k [OF m]])
  qed
  have rare: "\<exists>n'. \<forall>m\<ge>n'. \<not> can_step caps K (st m)" if K: "K \<in> {Unlocks, Other_unlocks}" for K
  proof (rule ccontr)
    assume "\<not> ?thesis"
    then have "\<forall>n'. \<exists>m\<ge>n'. can_step caps K (st m)" by blast
    moreover have "K \<noteq> Unforced" using K by auto
    ultimately obtain m where "m \<ge> n" "step_kind (ev m) = K" using fair unfolding fair_def by blast
    with never K show False by blast
  qed
  obtain n1 n2 where "\<forall>m\<ge>n1. \<not> can_step caps Unlocks (st m)" "\<forall>m\<ge>n2. \<not> can_step caps Other_unlocks (st m)"
    using rare [of Unlocks] rare [of Other_unlocks] by auto
  with can [of "max n (max n1 n2)"] show False by simp
qed


text \<open>C3. In every fair run of the mailbox, whatever messages arrive, whichever waits time out and however the
  other users take the control memory: a message that is in the queue leaves it, and a sender that waits for its
  reply goes back to its caller.\<close>

theorem mbox_live:
  assumes ex: "mbox_execution caps st ev" and fair: "fair caps st ev" and p: "pending (st n) i"
  shows "\<exists>m>n. i \<notin> set (map skb_id (mb_queue (st m))) \<and> \<not> live (mb_pc (st m) i)"
proof (rule ccontr)
  assume "\<not> ?thesis"
  then have p: "pending (st m) i" if "m \<ge> n" for m using p that by (cases "m = n") (auto simp: pending_def)
  have c: "closer (st m) (ev m) (st (Suc m)) i" if "m \<ge> n" for m
    by (rule step_closer [OF execution_inv [OF ex] p [OF that] execution_step [OF ex]])
  define r where "r = (LEAST x. \<exists>m\<ge>n. rank (st m) i = x)"
  have "\<exists>x. \<exists>m\<ge>n. rank (st m) i = x" by blast
  from LeastI_ex [OF this] obtain N where N: "N \<ge> n" "rank (st N) i = r" unfolding r_def by blast
  have least: "rank (st m) i \<ge> r" if "m \<ge> n" for m unfolding r_def using that by (intro Least_le) blast
  define K where "K = next_kind (st N) i"
  have stay: "rank (st (N + d)) i = r \<and> next_kind (st (N + d)) i = K" for d
  proof (induction d)
    case (Suc d)
    then show ?case using c [of "N + d"] least [of "Suc (N + d)"] p [of "Suc (N + d)"] N by (auto simp: closer_def)
  qed (simp add: N K_def)
  have not_taken: "step_kind (ev (N + d)) \<noteq> K" for d
    using c [of "N + d"] least [of "Suc (N + d)"] p [of "Suc (N + d)"] N stay [of d] by (auto simp: closer_def)
  have kind: "next_kind (st m) i = K" if "m \<ge> N" for m using stay [of "m - N"] that by simp
  have can: "can_step caps K (st m)" if m: "m \<ge> N" and o: "mb_owner (st m) = None \<or> K \<notin> {Locks, Runs_queue}" for m
  proof -
    have "m \<ge> n" using m N(1) by simp
    from next_can_step [OF execution_inv [OF ex] p [OF this]] o show ?thesis unfolding kind [OF m] by blast
  qed
  have "\<exists>m\<ge>max N n'. can_step caps K (st m)" for n'
  proof (cases "K \<in> {Locks, Runs_queue}")
    case True
    have "\<exists>m\<ge>max N n'. mb_owner (st m) = None"
      by (rule owner_released [OF ex fair, of _ i]) (use kind True in simp)
    then show ?thesis using can by (meson max.bounded_iff)
  next
    case False
    then have "can_step caps K (st (max N n'))" by (intro can) simp_all
    then show ?thesis by blast
  qed
  then have "\<exists>m\<ge>n'. can_step caps K (st m)" for n' by (meson max.bounded_iff)
  moreover have "K \<noteq> Unforced" unfolding K_def by (rule next_kind_forced)
  ultimately obtain m where "m \<ge> N" "step_kind (ev m) = K" using fair unfolding fair_def by blast
  then show False using not_taken [of "m - N"] by simp
qed


text \<open>A fair run: one message is sent, the firmware does not answer, the sender gets the error, and from then on
  another user takes and releases the control memory for ever.\<close>

definition sample_events :: "nat \<Rightarrow> mbox_event" where
  "sample_events n =
     (if n = 0 then sample_send 1 else if n = 1 then Lock else if n = 2 then Exchange True (\<lambda>_. 0)
      else if n = 3 then Unlock else if even n then Other_lock else Other_unlock)"

primrec sample_states :: "nat \<Rightarrow> mbox" where
  "sample_states 0 = nfp_ccm_mbox_alloc (\<lambda>_. 0)"
| "sample_states (Suc n) = the (mbox_do sample_caps (sample_events n) (sample_states n))"

definition quiet :: "mbox \<Rightarrow> bool" where
  "quiet mb \<longleftrightarrow> mb_queue mb = [] \<and> mb_runner mb = None \<and> \<not> mb_wait_work mb \<and> \<not> mb_runq_work mb \<and>
     (\<forall>i. \<not> live (mb_pc mb i)) \<and> mb_owner mb \<in> {None, Some Other}"

lemma quiet_can_step:
  assumes "quiet mb" "can_step caps K mb"
  shows "K \<in> {Unforced, Other_unlocks}"
proof -
  obtain ev where ev: "step_kind ev = K" "mbox_do caps ev mb \<noteq> None" using assms(2) unfolding can_step_def by blast
  have l: "\<not> live (mb_pc mb i)" for i using assms(1) by (simp add: quiet_def)
  show ?thesis using assms(1) ev
  proof (cases ev)
    case (Wake i)
    then show ?thesis using ev l [of i] by (cases "mb_pc mb i") auto
  next
    case (Relock i)
    then show ?thesis using ev l [of i] by (cases "mb_pc mb i") auto
  next
    case (Reap i)
    then show ?thesis using ev l [of i] by (cases "mb_pc mb i") auto
  qed (auto simp: quiet_def)
qed

lemma sample_first:
  "\<exists>mb. mbox_do sample_caps (sample_send 1) (nfp_ccm_mbox_alloc (\<lambda>_. 0)) = Some mb \<and>
     mb_queue mb = [sample_msg 1 0] \<and> mb_runner mb = Some (Thread 1, 1, False) \<and> mb_owner mb = None \<and>
     \<not> mb_wait_work mb \<and> \<not> mb_runq_work mb \<and> mb_pc mb = (\<lambda>i. if i = 1 then In_run else Idle) \<and> mb_done mb = (\<lambda>_. None)"
  by (simp add: sample_send_def sample_skb_def [of 1] sample_send_empty [unfolded sample_skb_def [of 1]] nfp_ccm_mbox_alloc_def fun_eq_iff)

lemma sample_second:
  assumes q: "mb_queue mb = [sample_msg 1 0]" "mb_runner mb = Some (Thread 1, 1, False)" "mb_owner mb = None"
  obtains bar where "mbox_do sample_caps Lock mb = Some (mb\<lparr> mb_owner := Some (Thread 1), mb_bar := bar, mb_runner := Some (Thread 1, 1, True) \<rparr>)"
proof -
  have "copy_in_msgs (mb_bar mb) (mbox_off sample_caps + NFP_NET_CFG_MBOX_SIMPLE_VAL) 1 ([sample_msg 1 0] @ []) \<noteq> None"
    by (rule copy_in_batch) simp_all
  then obtain bar where "nfp_ccm_mbox_copy_in sample_caps (mb_bar mb) 1 (mb_queue mb) = Some bar"
    by (auto simp: nfp_ccm_mbox_copy_in_def q)
  with q that show thesis by simp
qed

lemma sample_start:
  "\<exists>mb1 mb2 mb3 mb4. mbox_do sample_caps (sample_events 0) (sample_states 0) = Some mb1 \<and>
     mbox_do sample_caps (sample_events 1) mb1 = Some mb2 \<and> mbox_do sample_caps (sample_events 2) mb2 = Some mb3 \<and>
     mbox_do sample_caps (sample_events 3) mb3 = Some mb4 \<and> pending mb1 1 \<and> quiet mb4 \<and> mb_owner mb4 = None"
proof -
  obtain mb1 where 1: "mbox_do sample_caps (sample_send 1) (sample_states 0) = Some mb1"
      "mb_queue mb1 = [sample_msg 1 0]" "mb_runner mb1 = Some (Thread 1, 1, False)" "mb_owner mb1 = None"
      "\<not> mb_wait_work mb1" "\<not> mb_runq_work mb1" "mb_pc mb1 = (\<lambda>i. if i = 1 then In_run else Idle)" "mb_done mb1 = (\<lambda>_. None)"
    using sample_first by auto
  obtain bar where 2: "mbox_do sample_caps Lock mb1 =
      Some (mb1\<lparr> mb_owner := Some (Thread 1), mb_bar := bar, mb_runner := Some (Thread 1, 1, True) \<rparr>)" (is "_ = Some ?mb2")
    using sample_second [OF 1(2-4)] by blast
  define mb3 where "mb3 = mbox_finish sample_caps True (\<lambda>_. 0) 1 ?mb2"
  have 3: "mbox_do sample_caps (Exchange True (\<lambda>_. 0)) ?mb2 = Some mb3" by (simp add: mb3_def)
  have f: "mb_queue mb3 = []" "mb_runner mb3 = None" "\<not> mb_wait_work mb3" "\<not> mb_runq_work mb3" "mb_pc mb3 = mb_pc mb1"
    "mb_owner mb3 = Some (Thread 1)" "mb_done mb3 1 = Some (complete_err EIO (sample_msg 1 0))"
    by (simp_all add: mb3_def mbox_finish_def nfp_ccm_mbox_mark_all_err_def complete_batch_def 1 nfp_ccm_mbox_mark_next_runner_def Let_def)
  let ?mb4 = "nfp_ccm_mbox_skb_return 1 (complete_err EIO (sample_msg 1 0)) (mb3\<lparr> mb_owner := None \<rparr>)"
  have 4: "mbox_do sample_caps Unlock mb3 = Some ?mb4" using f by (simp add: Let_def)
  have "quiet ?mb4" "mb_owner ?mb4 = None" "pending mb1 1"
    using f 1 by (simp_all add: quiet_def pending_def nfp_ccm_mbox_skb_return_def set_pc_def free_skb_def)
  with 1(1) 2 3 4 show ?thesis unfolding sample_events_def by auto
qed

lemma sample_states_steps:
  "n < 4 \<Longrightarrow> mbox_do sample_caps (sample_events n) (sample_states n) = Some (sample_states (Suc n))"
  "quiet (sample_states 4) \<and> mb_owner (sample_states 4) = None" "pending (sample_states 1) 1"
proof -
  obtain mb1 mb2 mb3 mb4 where m: "mbox_do sample_caps (sample_events 0) (sample_states 0) = Some mb1"
     "mbox_do sample_caps (sample_events 1) mb1 = Some mb2" "mbox_do sample_caps (sample_events 2) mb2 = Some mb3"
     "mbox_do sample_caps (sample_events 3) mb3 = Some mb4" "pending mb1 1" "quiet mb4 \<and> mb_owner mb4 = None"
    using sample_start by blast
  have s1: "sample_states 1 = mb1" using m(1) by simp
  have s2: "sample_states 2 = mb2" using m(2) s1 sample_states.simps(2) [of 1] by (simp add: numeral_2_eq_2)
  have s3: "sample_states 3 = mb3" using m(3) s2 sample_states.simps(2) [of 2] by (simp add: numeral_3_eq_3 numeral_2_eq_2)
  have s4: "sample_states 4 = mb4" using m(4) s3 sample_states.simps(2) [of 3] by (simp add: eval_nat_numeral)
  show "quiet (sample_states 4) \<and> mb_owner (sample_states 4) = None" "pending (sample_states 1) 1" using m(5,6) s1 s4 by simp_all
  assume "n < 4"
  then consider "n = 0" | "n = 1" | "n = 2" | "n = 3" by linarith
  then have "mbox_do sample_caps (sample_events n) (sample_states n) \<noteq> None" using m(1-4) s1 s2 s3 by cases simp_all
  then show "mbox_do sample_caps (sample_events n) (sample_states n) = Some (sample_states (Suc n))" by auto
qed

lemma sample_quiet:
  "quiet (sample_states (4 + n)) \<and> mb_owner (sample_states (4 + n)) = (if even n then None else Some Other)"
proof (induction n)
  case (Suc n)
  have "sample_states (4 + Suc n) = the (mbox_do sample_caps (sample_events (4 + n)) (sample_states (4 + n)))"
    using sample_states.simps(2) [of "4 + n"] by simp
  with Suc show ?case by (cases "even n") (simp_all add: quiet_def sample_events_def)
qed (simp add: sample_states_steps(2))

lemma sample_execution: "mbox_execution sample_caps sample_states sample_events"
proof -
  have "mbox_do sample_caps (sample_events n) (sample_states n) = Some (sample_states (Suc n))" for n
  proof (cases "n < 4")
    case False
    then obtain d where "n = 4 + d" by (metis le_Suc_ex not_less)
    then have "mbox_do sample_caps (sample_events n) (sample_states n) \<noteq> None"
      using sample_quiet [of d] by (simp add: sample_events_def split: if_splits)
    then show ?thesis by auto
  qed (rule sample_states_steps(1))
  then show ?thesis by (auto simp: mbox_execution_def)
qed

lemma sample_fair: "fair sample_caps sample_states sample_events"
  unfolding fair_def
proof (intro allI impI)
  fix K n assume K: "K \<noteq> Unforced" "\<forall>n. \<exists>m\<ge>n. can_step sample_caps K (sample_states m)"
  from K(2) obtain m where "m \<ge> 4" "can_step sample_caps K (sample_states m)" by blast
  then have "K = Other_unlocks" using quiet_can_step [of "sample_states m" sample_caps K] sample_quiet [of "m - 4"] K(1) by simp
  then have "step_kind (sample_events (2 * n + 5)) = K" by (simp add: sample_events_def)
  then show "\<exists>m\<ge>n. step_kind (sample_events m) = K" by (intro exI [of _ "2 * n + 5"]) simp
qed

theorem mbox_live_witness: "\<exists>m>1. \<not> live (mb_pc (sample_states m) 1)"
  using mbox_live [OF sample_execution sample_fair sample_states_steps(3)] by blast

end
