(* ===== verification/NFP_Mbox_Room.thy ===== *)
theory NFP_Mbox_Room
  imports NFP_Mbox_Proto
begin

text \<open>
  The room of the mailbox and the buffers (\<^verbatim>\<open>src/ccm_mbox.c\<close>): how far a batch that is copied in reaches, that
  it can reach past the end of the mailbox, and what becomes of the buffers when a batch fails.
\<close>

section \<open>The size of what is copied in\<close>

text \<open>What the checks before queueing leave: a message is not longer than the room it asks for, which the mailbox has.\<close>

definition msg_fits :: "nfp_net_tlv_caps \<Rightarrow> mbox_skb \<Rightarrow> bool" where
  "msg_fits caps s \<longleftrightarrow> length (skb_data s) < 2 ^ 31 \<and> round_up4 (length (skb_data s)) \<le> cb_max_len s \<and>
     cb_max_len s \<le> nfp_ccm_mbox_max_msg caps"

definition reserves :: "mbox_skb \<Rightarrow> bool" where
  "reserves s \<longleftrightarrow> round_up4 (length (skb_data s)) < cb_max_len s"

definition msg_space :: "mbox_skb \<Rightarrow> nat" where
  "msg_space s = 4 + cb_max_len s"

abbreviation batch_space :: "mbox_skb list \<Rightarrow> nat" where
  "batch_space b \<equiv> sum_list (map msg_space b)"

lemma round_up4_small: "n < 2 ^ 31 \<Longrightarrow> round_up4 n = (n + 3) div 4 * 4"
  using div_times_less_eq_dividend [of "n + 3" 4] unfolding round_up4_def by (intro mod_less) simp

lemma write_tlv_other [simp]: "x \<noteq> off \<Longrightarrow> nfp_ccm_mbox_write_tlv bar off t len x = bar x"
  by (simp add: nfp_ccm_mbox_write_tlv_def)

lemma copy_in_data_extent:
  "fst (copy_in_data bar off d) = off + (length d + 3) div 4 * 4 \<and>
   (x < off \<or> x \<ge> off + (length d + 3) div 4 * 4 \<longrightarrow> snd (copy_in_data bar off d) x = bar x)"
proof (induction bar off d rule: copy_in_data.induct)
  case (1 bar off a b c d rest)
  let ?bar = "bar(off := get_be32 [a, b, c, d])"
  have n: "(length (a # b # c # d # rest) + 3) div 4 * 4 = 4 + (length rest + 3) div 4 * 4"
    using div_add_self1 [of 4 "length rest + 3"] by (simp add: add.commute add.left_commute)
  have "?bar x = bar x" if "x < off \<or> x \<ge> off + (4 + (length rest + 3) div 4 * 4)" using that by auto
  then show ?case using 1 unfolding n copy_in_data.simps by (auto simp del: fun_upd_apply)
qed auto

lemma copy_in_msg_extent:
  assumes "msg_fits caps s" "copy_in_msg bar off s = (off', bar')"
  shows "off' = off + msg_space s + (if reserves s then 4 else 0)" "x < off \<or> x \<ge> off' \<Longrightarrow> bar' x = bar x"
proof -
  have len: "(length (skb_data s) + 3) div 4 * 4 = round_up4 (length (skb_data s))"
    using assms(1) by (simp add: msg_fits_def round_up4_small)
  let ?b = "nfp_ccm_mbox_write_tlv bar off NFP_NET_MBOX_TLV_TYPE_MSG (length (skb_data s))"
  obtain o1 b1 where c: "copy_in_data ?b (off + 4) (skb_data s) = (o1, b1)" by fastforce
  have o1: "o1 = off + 4 + round_up4 (length (skb_data s))" and f: "x < off + 4 \<or> x \<ge> o1 \<Longrightarrow> b1 x = ?b x" for x
    using copy_in_data_extent [of ?b "off + 4" "skb_data s" x] unfolding c len by auto
  have le: "round_up4 (length (skb_data s)) \<le> cb_max_len s" using assms(1) by (simp add: msg_fits_def)
  then show off': "off' = off + msg_space s + (if reserves s then 4 else 0)"
    using assms(2) o1 unfolding copy_in_msg_def Let_def c prod.case by (auto simp: reserves_def msg_space_def split: if_splits)
  assume x: "x < off \<or> x \<ge> off'"
  then have "x \<noteq> off" "x < off + 4 \<or> x \<ge> o1" "reserves s \<Longrightarrow> x \<noteq> o1"
    using off' le o1 by (auto simp: msg_space_def reserves_def)
  then show "bar' x = bar x"
    using assms(2) f [of x] le unfolding copy_in_msg_def Let_def c prod.case by (auto simp: reserves_def split: if_splits)
qed

lemma copy_in_msgs_extent:
  assumes "\<forall>s\<in>set b. msg_fits caps s" "b \<noteq> []" "skb_id (last b) = lst" "distinct (map skb_id b)"
    and "copy_in_msgs bar off lst (b @ r) = Some (off', bar')"
  shows "off' = off + batch_space b + 4 * length (filter reserves b) \<and> (x < off \<or> x \<ge> off' \<longrightarrow> bar' x = bar x)"
  using assms
proof (induction b arbitrary: bar off)
  case (Cons s b)
  obtain o1 b1 where c: "copy_in_msg bar off s = (o1, b1)" by fastforce
  have "msg_fits caps s" using Cons.prems(1) by simp
  note E = copy_in_msg_extent(1) [OF this c] copy_in_msg_extent(2) [OF this c, of x]
  show ?case
  proof (cases "b = []")
    case True
    then show ?thesis using Cons.prems c E by auto
  next
    case False
    then have "skb_id s \<noteq> lst" using Cons.prems(3,4) by auto
    then have "off' = o1 + batch_space b + 4 * length (filter reserves b) \<and> (x < o1 \<or> x \<ge> off' \<longrightarrow> bar' x = b1 x)"
      using Cons.prems False c by (intro Cons.IH) auto
    then show ?thesis using E Cons.prems(1) by auto
  qed
qed simp

lemma batch_more_space:
  "batch_more space cnt q \<le> length q"
  "batch_more space cnt q > 0 \<Longrightarrow> int (batch_space (take (batch_more space cnt q) q)) \<le> space"
  "cnt < NFP_CCM_MBOX_BATCH_LIMIT \<Longrightarrow> cnt + batch_more space cnt q \<le> NFP_CCM_MBOX_BATCH_LIMIT"
proof -
  show "batch_more space cnt q \<le> length q"
    by (induction space cnt q rule: batch_more.induct) (auto simp: Let_def)
  show "batch_more space cnt q > 0 \<Longrightarrow> int (batch_space (take (batch_more space cnt q) q)) \<le> space"
  proof (induction space cnt q rule: batch_more.induct)
    case (2 space cnt s q)
    then show ?case by (cases "batch_more (space - (4 + int (cb_max_len s))) (cnt + 1) q > 0")
      (auto simp: Let_def msg_space_def split: if_splits)
  qed simp
  show "cnt < NFP_CCM_MBOX_BATCH_LIMIT \<Longrightarrow> cnt + batch_more space cnt q \<le> NFP_CCM_MBOX_BATCH_LIMIT"
    by (induction space cnt q rule: batch_more.induct) (fastforce simp: Let_def)+
qed

lemma max_msg_small:
  assumes "16 \<le> mbox_len caps" "mbox_len caps < 2 ^ 32"
  shows "nfp_ccm_mbox_max_msg caps + 16 \<le> mbox_len caps"
proof -
  let ?n = "mbox_len caps div 4 * 4"
  have n: "16 \<le> ?n" "?n < 2 ^ 32" "?n \<le> mbox_len caps"
    using assms div_le_mono [OF assms(1), of 4] div_times_less_eq_dividend [of "mbox_len caps" 4] by simp_all
  define m where "m = ?n"
  have w: "(of_nat m - of_nat NFP_NET_CFG_MBOX_SIMPLE_VAL - 4 * 2 :: u32) = of_nat (m - 16)"
    using n(1) by (simp add: NFP_NET_CFG_MBOX_SIMPLE_VAL_def of_nat_diff m_def [symmetric])
  have "(m - 16) mod 4294967296 = m - 16" using n(2) by (simp add: m_def)
  then have "nfp_ccm_mbox_max_msg caps = m - 16"
    unfolding nfp_ccm_mbox_max_msg_def m_def [symmetric] w by (simp add: unat_of_nat)
  then show ?thesis using n unfolding m_def by linarith
qed

text \<open>The batch that is chosen: a prefix of the queue whose room, as the code counts it, is in the mailbox.\<close>

lemma batch_chosen:
  assumes q: "mb_queue mb \<noteq> []" and fits: "\<forall>s\<in>set (mb_queue mb). msg_fits caps s"
    and len: "16 \<le> mbox_len caps" "mbox_len caps < 2 ^ 32"
  obtains b r lst where "mb_queue (run_queue_batch caps a mb) = b @ r" "b \<noteq> []" "skb_id (last b) = lst"
    "mb_runner (run_queue_batch caps a mb) = Some (a, lst, False)" "\<forall>s\<in>set b. msg_fits caps s"
    "batch_space b + 12 \<le> mbox_len caps" "length b \<le> NFP_CCM_MBOX_BATCH_LIMIT"
proof -
  obtain s q' where s: "mb_queue mb = s # q'" using q by (cases "mb_queue mb") auto
  define space where "space = int (mbox_len caps) - int NFP_NET_CFG_MBOX_SIMPLE_VAL - 4 - (4 + int (cb_max_len s))"
  define n where "n = batch_more space 1 q'"
  define b where "b = s # map nfp_ccm_mbox_set_busy (take n q')"
  have busy: "msg_fits caps (nfp_ccm_mbox_set_busy x) = msg_fits caps x" "msg_space (nfp_ccm_mbox_set_busy x) = msg_space x" for x
    by (simp_all add: msg_fits_def msg_space_def nfp_ccm_mbox_set_busy_def)
  have "cb_max_len s \<le> nfp_ccm_mbox_max_msg caps" using fits s by (simp add: msg_fits_def)
  then have sp: "space \<ge> 0" using max_msg_small [OF len] by (simp add: space_def NFP_NET_CFG_MBOX_SIMPLE_VAL_def)
  have "int (batch_space (take n q')) \<le> space"
    using batch_more_space(2) [of space 1 q'] sp by (cases "n = 0") (simp_all add: n_def)
  then have "batch_space b + 12 \<le> mbox_len caps"
    by (simp add: b_def comp_def busy msg_space_def [of s] space_def NFP_NET_CFG_MBOX_SIMPLE_VAL_def)
  moreover have "\<forall>x\<in>set b. msg_fits caps x" using fits s by (auto simp: b_def busy dest: in_set_takeD)
  moreover have "length b \<le> NFP_CCM_MBOX_BATCH_LIMIT"
    using batch_more_space(3) [of 1 space q'] by (simp add: b_def n_def NFP_CCM_MBOX_BATCH_LIMIT_def min_def)
  ultimately show thesis
    by (intro that [of b "drop n q'" "skb_id (last b)"])
      (simp_all add: run_queue_batch_def s Let_def b_def n_def space_def)
qed



lemma big_prepare:
  "nfp_ccm_mbox_msg_prepare sample_caps (sample_skb i) NFP_CCM_TYPE_CRYPTO_ADD 0 48 True = Inr (sample_skb i\<lparr> cb_max_len := 48 \<rparr>)"
  unfolding nfp_ccm_mbox_msg_prepare_def sample_max_msg
  by (simp add: nfp_ccm_mbox_msg_init_def sample_skb_def sample_caps_def round_up4_def bit_numeral_rec)

definition big_msg :: mbox_skb where
  "big_msg = sample_skb 2\<lparr> cb_max_len := 48, skb_data := ccm_set_hdr (skb_data (sample_skb 2)) NFP_CCM_TYPE_CRYPTO_ADD 0 \<rparr>"

lemma big_send:
  "nfp_ccm_mbox_communicate sample_caps (sample_skb 2) NFP_CCM_TYPE_CRYPTO_ADD 0 48 False True (nfp_ccm_mbox_alloc bar) =
    nfp_ccm_mbox_alloc bar\<lparr> mb_queue := [big_msg], mb_tag := 1, mb_pc := (\<lambda>_. Idle)(2 := In_run),
        mb_runner := Some (Thread 2, 2, False) \<rparr>"
  unfolding nfp_ccm_mbox_communicate_def big_prepare sum.case
  by (simp add: nfp_ccm_mbox_msg_enqueue_def NFP_CCM_MAX_QLEN_def nfp_ccm_mbox_is_first_def run_queue_batch_def
      set_pc_def big_msg_def sample_skb_def Let_def nfp_ccm_mbox_alloc_def)

lemma end_tlv: "nfp_ccm_mbox_write_tlv bar off NFP_NET_MBOX_TLV_TYPE_END 0 off = 0x10000"
proof -
  have "field_mask NFP_NET_MBOX_TLV_TYPE 31 16" by (simp add: field_mask_def NFP_NET_MBOX_TLV_TYPE_def)
  then show ?thesis
    by (simp add: nfp_ccm_mbox_write_tlv_def FIELD_PREP_mask FIELD_PREP_def [of NFP_NET_MBOX_TLV_LEN] push_bit_eq_mult)
qed

lemma big_copy_in:
  "\<exists>bar'. nfp_ccm_mbox_copy_in sample_caps bar 2 [big_msg] = Some bar' \<and> bar' 0x1840 = 0x10000"
proof -
  have len: "length (skb_data big_msg) = 4" "skb_id big_msg = 2" "cb_max_len big_msg = 48" by (simp_all add: big_msg_def sample_skb_def ccm_set_hdr_def)
  have fits: "msg_fits sample_caps big_msg" unfolding msg_fits_def sample_max_msg len by (simp add: round_up4_def)
  obtain off' bar' where c: "copy_in_msgs bar 0x1808 2 ([big_msg] @ []) = Some (off', bar')"
    using len by (cases "copy_in_msg bar 0x1808 big_msg") auto
  have "off' = 0x1840"
    using copy_in_msgs_extent [OF _ _ _ _ c, of sample_caps] fits len by (simp add: msg_space_def reserves_def round_up4_def)
  moreover have "mbox_off sample_caps + NFP_NET_CFG_MBOX_SIMPLE_VAL = 0x1808" by (simp add: sample_caps_def NFP_NET_CFG_MBOX_SIMPLE_VAL_def)
  ultimately show ?thesis using c
    by (simp add: nfp_ccm_mbox_copy_in_def end_tlv)
qed


section \<open>Buffers after an error\<close>

text \<open>A posted message waits for the control memory, a second message joins its batch, the wait of its sender
  times out while the batch is in progress, and the firmware fails.\<close>

definition busy_events :: "mbox_event list" where
  "busy_events =
     [Other_lock, Post (sample_skb 1) NFP_CCM_TYPE_CRYPTO_ADD 4 True, sample_send 2, Runq, Timeout 2, Relock 2,
      Other_unlock, Lock, Exchange True (\<lambda>_. 0), Unlock, Reap 2]"

lemma sample_post:
  assumes "mb_queue mb = []" "mb_owner mb \<noteq> None"
  shows "nfp_ccm_mbox_post sample_caps (sample_skb i) NFP_CCM_TYPE_CRYPTO_ADD 4 True mb =
    mb\<lparr> mb_queue := [sample_msg i (mb_tag mb)\<lparr> cb_posted := True, cb_state := NFP_NET_MBOX_CMSG_STATE_NEXT \<rparr>], mb_tag := mb_tag mb + 1,
        mb_pc := (mb_pc mb)(i := Posted), mb_runq_work := True \<rparr>"
  unfolding nfp_ccm_mbox_post_def sample_prepare sum.case
  using assms by (simp add: nfp_ccm_mbox_msg_enqueue_def NFP_CCM_MAX_QLEN_def nfp_ccm_mbox_is_first_def nfp_ccm_mbox_mark_posted_def
      nfp_ccm_mbox_mark_next_runner_def set_pc_def sample_msg_def sample_skb_def Let_def)

lemma sample_send_second:
  assumes "mb_queue mb = [s]" "skb_id s \<noteq> i"
  shows "nfp_ccm_mbox_communicate sample_caps (sample_skb i) NFP_CCM_TYPE_CRYPTO_ADD 0 4 False True mb =
    mb\<lparr> mb_queue := [s, sample_msg i (mb_tag mb)], mb_tag := mb_tag mb + 1, mb_pc := (mb_pc mb)(i := Waiting) \<rparr>"
  unfolding nfp_ccm_mbox_communicate_def sample_prepare sum.case
  using assms by (simp add: nfp_ccm_mbox_msg_enqueue_def NFP_CCM_MAX_QLEN_def nfp_ccm_mbox_is_first_def
      set_pc_def sample_msg_def sample_skb_def Let_def)

lemma busy_run:
  "\<exists>mb. mbox_run sample_caps busy_events (nfp_ccm_mbox_alloc (\<lambda>_. 0)) = Some mb \<and> mb_freed mb 2 = 2 \<and> mb_freed mb 1 = 0 \<and> mb_queue mb = [] \<and>
     mb_runner mb = None"
  unfolding busy_events_def sample_send_def
  apply (simp add: nfp_ccm_mbox_alloc_def sample_post sample_send_second)
  apply (simp add: nfp_ccm_mbox_post_runq_work_def nfp_ccm_mbox_should_run_def run_queue_batch_def sample_caps_def NFP_NET_CFG_MBOX_SIMPLE_VAL_def
    NFP_CCM_MBOX_BATCH_LIMIT_def Let_def nfp_ccm_mbox_set_busy_def nfp_ccm_mbox_done_def mbox_lookup_def set_pc_def
    communicate_relock_def nfp_ccm_mbox_is_first_def nfp_ccm_mbox_unlink_def nfp_ccm_mbox_in_progress_def)
  apply (simp add: nfp_ccm_mbox_copy_in_def split_beta mbox_finish_def nfp_ccm_mbox_mark_all_err_def complete_batch_def complete_err_def Let_def
    nfp_ccm_mbox_mark_next_runner_def nfp_ccm_mbox_skb_return_def err_free_skb_def set_pc_def free_skb_def nfp_ccm_mbox_done_def mbox_lookup_def)
  done

end
