(* ===== verification/NFP_Hwinfo.thy ===== *)
theory NFP_Hwinfo
  imports NFP_Resource
begin

text \<open>
  The table of hardware properties (\<^verbatim>\<open>src/nfpcore/nfp_hwinfo.c\<close>): fetched from device memory into a buffer,
  checked, and searched.  The buffer is the list of its bytes, a pointer into it an offset; a function that
  would read outside of the buffer has the result \<open>None\<close>.  Waiting has the outcomes of its attempts as
  arguments.
\<close>

section \<open>Strings in a buffer\<close>

text \<open>\<open>strlen\<close> of the string at an offset.\<close>

definition strlen_at :: "u8 list \<Rightarrow> nat \<Rightarrow> nat option" where
  "strlen_at buf p = (if 0 \<in> set (drop p buf) then Some (length (c_str (drop p buf))) else None)"

section \<open>The table\<close>

definition HWINFO_SIZE_MIN :: nat where "HWINFO_SIZE_MIN = 0x100"

text \<open>\<open>'H'\<close> and \<open>'I'\<close> are 0x48 and 0x49.\<close>

definition NFP_HWINFO_VERSION_2 :: u32 where
  "NFP_HWINFO_VERSION_2 = push_bit 24 0x48 OR push_bit 16 0x49 OR push_bit 8 2 OR push_bit 1 0 OR 0"

definition NFP_HWINFO_VERSION_UPDATING :: u32 where "NFP_HWINFO_VERSION_UPDATING = push_bit 0 1"

text \<open>\<open>struct nfp_hwinfo\<close>: version, size, limit and a reserved word, then the data.\<close>

definition hwinfo_version :: "u8 list \<Rightarrow> u32" where
  "hwinfo_version hwinfo = get_unaligned_le32 hwinfo"

definition hwinfo_size :: "u8 list \<Rightarrow> u32" where
  "hwinfo_size hwinfo = get_unaligned_le32 (drop 4 hwinfo)"

definition hwinfo_data :: nat where "hwinfo_data = 16"

definition nfp_hwinfo_is_updating :: "u8 list \<Rightarrow> bool" where
  "nfp_hwinfo_is_updating hwinfo \<longleftrightarrow> hwinfo_version hwinfo AND NFP_HWINFO_VERSION_UPDATING \<noteq> 0"

function hwinfo_walk_from :: "u8 list \<Rightarrow> nat \<Rightarrow> nat \<Rightarrow> unit result option" where
  "hwinfo_walk_from buf end_off key =
     (if length buf \<le> key then None
      else if buf ! key = 0 \<or> \<not> key < end_off then Some (Inr ())
      else
        case strlen_at buf key of
          None \<Rightarrow> None
        | Some n \<Rightarrow>
            let val = key + n + 1 in
            if val \<ge> end_off then Some (Inl EINVAL)
            else
              case strlen_at buf val of
                None \<Rightarrow> None
              | Some n \<Rightarrow>
                  if val + n + 1 > end_off then Some (Inl EINVAL)
                  else hwinfo_walk_from buf end_off (val + n + 1))"
  by pat_completeness auto

termination
  by (relation "measure (\<lambda>(buf, end_off, key). length buf - key)") auto

declare hwinfo_walk_from.simps [simp del]

definition hwinfo_db_walk :: "u8 list \<Rightarrow> u32 \<Rightarrow> unit result option" where
  "hwinfo_db_walk hwinfo sz = hwinfo_walk_from hwinfo (hwinfo_data + unat sz) hwinfo_data"

definition hwinfo_db_validate :: "(u32 \<Rightarrow> u8 list \<Rightarrow> u32) \<Rightarrow> u8 list \<Rightarrow> nat \<Rightarrow> unit result option" where
  "hwinfo_db_validate crc32_be db len =
     (let sz = hwinfo_size db in
      if unat sz > len then Some (Inl EINVAL)
      else
        let sz = sz - 4 in
        if unat sz + 4 > length db then None
        else if crc32_posix crc32_be db (unat sz) \<noteq> get_unaligned_le32 (drop (unat sz) db) then Some (Inl EINVAL)
        else hwinfo_db_walk db sz)"

section \<open>Fetching\<close>

text \<open>The bytes of \<open>"nfp.info"\<close>.\<close>

definition NFP_RESOURCE_NFP_HWINFO :: "u8 list" where
  "NFP_RESOURCE_NFP_HWINFO = [0x6e, 0x66, 0x70, 0x2e, 0x69, 0x6e, 0x66, 0x6f]"

text \<open>Where the table is: the region of the resource, or the place it has on devices without one.\<close>

definition hwinfo_locate ::
  "(u32 \<Rightarrow> u8 list \<Rightarrow> u32) \<Rightarrow> acquire_env \<Rightarrow> u16 \<Rightarrow> (u32 \<times> u64 \<times> nat) option cppm" where
  "hwinfo_locate crc32_be env interface =
     cpp_bind (nfp_resource_acquire crc32_be env interface NFP_RESOURCE_NFP_HWINFO)
       (\<lambda>r. case r of
          Inr res \<Rightarrow>
            cpp_bind (nfp_resource_release interface res)
              (\<lambda>_. Return (if unat (res_size res) < HWINFO_SIZE_MIN then None
                           else Some (res_cpp_id res, res_addr res, unat (res_size res))))
        | Inl err \<Rightarrow>
            Return (if err = ENOENT
                    then Some (NFP_CPP_ISLAND_ID (of_int NFP_CPP_TARGET_MU) NFP_CPP_ACTION_RW 0 1, 0x30000, 0x0e000)
                    else None))"

definition hwinfo_try_fetch ::
  "(u32 \<Rightarrow> u8 list \<Rightarrow> u32) \<Rightarrow> acquire_env \<Rightarrow> bool \<Rightarrow> u16 \<Rightarrow> u8 list option cppm" where
  "hwinfo_try_fetch crc32_be env alloc_ok interface =
     cpp_bind (hwinfo_locate crc32_be env interface)
       (\<lambda>loc. case loc of
          None \<Rightarrow> Return None
        | Some (cpp_id, cpp_addr, cpp_size) \<Rightarrow>
            if \<not> alloc_ok then Return None
            else
              Cpp_read cpp_id cpp_addr cpp_size
                (\<lambda>r. case r of
                   Inl _ \<Rightarrow> Return None
                 | Inr db \<Rightarrow>
                     Return (if length db \<noteq> cpp_size then None
                             else if nfp_hwinfo_is_updating db then None
                             else if hwinfo_version db \<noteq> NFP_HWINFO_VERSION_2 then None
                             else Some (db @ [0]))))"

text \<open>The attempts of \<open>hwinfo_fetch\<close> until the deadline, each with whether the sleep after it is interrupted;
  there is always a first one.\<close>

fun hwinfo_fetch ::
  "(u32 \<Rightarrow> u8 list \<Rightarrow> u32) \<Rightarrow> (acquire_env \<times> bool \<times> bool) \<Rightarrow> (acquire_env \<times> bool \<times> bool) list \<Rightarrow> u16 \<Rightarrow>
   u8 list option cppm" where
  "hwinfo_fetch crc32_be (env, alloc_ok, interrupted) rounds interface =
     cpp_bind (hwinfo_try_fetch crc32_be env alloc_ok interface)
       (\<lambda>db. case db of
          Some db \<Rightarrow> Return (Some db)
        | None \<Rightarrow>
            (case rounds of
               [] \<Rightarrow> Return None
             | r # rs \<Rightarrow> if interrupted then Return None else hwinfo_fetch crc32_be r rs interface))"

text \<open>A table whose check would read outside of the buffer is a fault.\<close>

definition nfp_hwinfo_read ::
  "(u32 \<Rightarrow> u8 list \<Rightarrow> u32) \<Rightarrow> (acquire_env \<times> bool \<times> bool) \<Rightarrow> (acquire_env \<times> bool \<times> bool) list \<Rightarrow> u16 \<Rightarrow>
   u8 list option cppm" where
  "nfp_hwinfo_read crc32_be r rs interface =
     cpp_bind (hwinfo_fetch crc32_be r rs interface)
       (\<lambda>db. case db of
          None \<Rightarrow> Return None
        | Some db \<Rightarrow>
            (case hwinfo_db_validate crc32_be db (length db - 1) of
               None \<Rightarrow> Fault
             | Some (Inl _) \<Rightarrow> Return None
             | Some (Inr _) \<Rightarrow> Return (Some db)))"

section \<open>Lookup\<close>

function hwinfo_lookup_from :: "u8 list \<Rightarrow> nat \<Rightarrow> u8 list \<Rightarrow> nat \<Rightarrow> nat option option" where
  "hwinfo_lookup_from buf end_off name key =
     (if length buf \<le> key then None
      else if buf ! key = 0 \<or> \<not> key < end_off then Some None
      else
        case strlen_at buf key of
          None \<Rightarrow> None
        | Some n \<Rightarrow>
            let val = key + n + 1 in
            if c_str (drop key buf) = name then Some (Some val)
            else
              case strlen_at buf val of
                None \<Rightarrow> None
              | Some n \<Rightarrow> hwinfo_lookup_from buf end_off name (val + n + 1))"
  by pat_completeness auto

termination
  by (relation "measure (\<lambda>(buf, end_off, name, key). length buf - key)") auto

declare hwinfo_lookup_from.simps [simp del]

text \<open>The offset of the value, if the name is there; \<open>sizeof(u32)\<close> is subtracted at pointer width.\<close>

definition nfp_hwinfo_lookup :: "u8 list \<Rightarrow> u8 list \<Rightarrow> nat option option" where
  "nfp_hwinfo_lookup hwinfo lookup =
     hwinfo_lookup_from hwinfo (hwinfo_data + unat (hwinfo_size hwinfo) - 4) lookup hwinfo_data"

definition nfp_hwinfo_get_packed_str_size :: "u8 list \<Rightarrow> u32" where
  "nfp_hwinfo_get_packed_str_size hwinfo = hwinfo_size hwinfo - 4"


section \<open>Reading inside the buffer\<close>

lemma c_str_less: "0 \<in> set xs \<Longrightarrow> length (c_str xs) < length xs"
  by (induction xs) (auto simp: c_str_def)

lemma strlen_at_less:
  assumes "strlen_at buf p = Some n"
  shows "p + n < length buf" "buf ! (p + n) = 0" "take n (drop p buf) = c_str (drop p buf)"
proof -
  have z: "0 \<in> set (drop p buf)" and n: "n = length (c_str (drop p buf))" using assms by (simp_all add: strlen_at_def split: if_splits)
  have l: "n < length (drop p buf)" unfolding n using z by (rule c_str_less)
  then show "p + n < length buf" by simp
  have "drop p buf ! n = 0" unfolding n c_str_def using nth_length_takeWhile [of "\<lambda>c. c \<noteq> 0" "drop p buf"] l n by (simp add: c_str_def)
  then show "buf ! (p + n) = 0" using l by simp
  show "take n (drop p buf) = c_str (drop p buf)" unfolding n c_str_def by (simp add: takeWhile_eq_take [symmetric])
qed

lemma strlen_at_terminated:
  assumes "buf \<noteq> []" "last buf = 0" "p < length buf"
  shows "\<exists>n. strlen_at buf p = Some n"
proof -
  have "drop p buf \<noteq> []" "last (drop p buf) = 0" using assms by simp_all
  then have "0 \<in> set (drop p buf)" by (metis last_in_set)
  then show ?thesis by (simp add: strlen_at_def)
qed

lemma walk_inside:
  assumes "buf \<noteq> []" "last buf = 0" "end_off < length buf" "key \<le> end_off"
  shows "hwinfo_walk_from buf end_off key \<noteq> None"
  using assms
proof (induction buf end_off key rule: hwinfo_walk_from.induct)
  case (1 buf end_off key)
  obtain n where n: "strlen_at buf key = Some n" using strlen_at_terminated [of buf key] "1.prems" by auto
  show ?case
  proof (cases "key + n + 1 < end_off \<and> buf ! key \<noteq> 0 \<and> key < end_off")
    case True
    then obtain m where m: "strlen_at buf (key + n + 1) = Some m"
      using strlen_at_terminated [of buf "key + n + 1"] "1.prems" by auto
    show ?thesis
      using "1.IH" [OF _ _ n refl _ m] "1.prems" True n m
      by (subst hwinfo_walk_from.simps) (auto simp: Let_def)
  qed (use "1.prems" n in \<open>subst hwinfo_walk_from.simps, auto simp: Let_def\<close>)
qed

text \<open>A search stays where the check of the table went.\<close>

lemma lookup_inside:
  assumes "hwinfo_walk_from buf end_off key = Some (Inr ())"
  shows "\<exists>r. hwinfo_lookup_from buf end_off name key = Some r \<and> (\<forall>pos. r = Some pos \<longrightarrow> strlen_at buf pos \<noteq> None)"
  using assms
proof (induction buf end_off key rule: hwinfo_walk_from.induct)
  case (1 buf end_off key)
  have k: "\<not> length buf \<le> key" using "1.prems" by (subst (asm) hwinfo_walk_from.simps) (auto split: if_splits)
  show ?case
  proof (cases "buf ! key = 0 \<or> \<not> key < end_off")
    case True
    with k show ?thesis by (subst hwinfo_lookup_from.simps) simp
  next
    case False
    then obtain n m where n: "strlen_at buf key = Some n" "\<not> key + n + 1 \<ge> end_off" "strlen_at buf (key + n + 1) = Some m"
        "\<not> key + n + 1 + m + 1 > end_off" "hwinfo_walk_from buf end_off (key + n + 1 + m + 1) = Some (Inr ())"
      using "1.prems" k by (subst (asm) hwinfo_walk_from.simps) (auto simp: Let_def split: option.splits if_splits)
    show ?thesis
    proof (cases "c_str (drop key buf) = name")
      case True
      with k False n show ?thesis by (subst hwinfo_lookup_from.simps) (simp add: Let_def)
    next
      case False
      note IH = "1.IH" [OF k \<open>\<not> (buf ! key = 0 \<or> \<not> key < end_off)\<close> n(1) refl n(2,3,4,5)]
      have "hwinfo_lookup_from buf end_off name key = hwinfo_lookup_from buf end_off name (key + n + 1 + m + 1)"
        using k \<open>\<not> (buf ! key = 0 \<or> \<not> key < end_off)\<close> n False by (subst hwinfo_lookup_from.simps) (simp add: Let_def)
      with IH show ?thesis by simp
    qed
  qed
qed

text \<open>C29. A fetched table whose size field is at least four and leaves twelve bytes of the buffer unused is checked
  without reading outside of the buffer; if the check passes, a search for any name ends without reading outside
  of the buffer as well, and a value that is found is a terminated string of the buffer.\<close>

theorem hwinfo_safe:
  assumes "length db = len + 1" "last db = 0" "4 \<le> unat (hwinfo_size db)" "unat (hwinfo_size db) + 12 \<le> len"
  shows "hwinfo_db_validate crc32_be db len \<noteq> None \<and>
    (hwinfo_db_validate crc32_be db len = Some (Inr ()) \<longrightarrow>
      (\<exists>r. nfp_hwinfo_lookup db name = Some r \<and> (\<forall>pos. r = Some pos \<longrightarrow> strlen_at db pos \<noteq> None)))"
proof -
  have sz: "unat (hwinfo_size db - 4) = unat (hwinfo_size db) - 4"
    using assms(3) by (subst unat_sub) (simp_all add: word_le_nat_alt)
  have ne: "db \<noteq> []" using assms(1) by auto
  have w: "hwinfo_walk_from db (hwinfo_data + (unat (hwinfo_size db) - 4)) hwinfo_data \<noteq> None"
    by (rule walk_inside [OF ne assms(2)]) (use assms in \<open>simp_all add: hwinfo_data_def\<close>)
  have v: "hwinfo_db_validate crc32_be db len =
      (if crc32_posix crc32_be db (unat (hwinfo_size db) - 4) \<noteq> get_unaligned_le32 (drop (unat (hwinfo_size db) - 4) db)
       then Some (Inl EINVAL) else hwinfo_walk_from db (hwinfo_data + (unat (hwinfo_size db) - 4)) hwinfo_data)"
    unfolding hwinfo_db_validate_def hwinfo_db_walk_def Let_def sz using assms(1,3,4) by (simp del: unat_gt_0)
  have e: "hwinfo_data + unat (hwinfo_size db) - 4 = hwinfo_data + (unat (hwinfo_size db) - 4)" using assms(3) by simp
  show ?thesis using w lookup_inside [of db] unfolding v nfp_hwinfo_lookup_def e by (auto split: if_splits)
qed


section \<open>Packed strings\<close>

text \<open>The data of a table: names and values, each terminated.\<close>

definition packed :: "(u8 list \<times> u8 list) list \<Rightarrow> u8 list" where
  "packed kvs = concat (map (\<lambda>(k, v). k @ 0 # v @ [0]) kvs)"

definition pairs_wf :: "(u8 list \<times> u8 list) list \<Rightarrow> bool" where
  "pairs_wf kvs \<longleftrightarrow> (\<forall>(k, v)\<in>set kvs. k \<noteq> [] \<and> 0 \<notin> set k \<and> 0 \<notin> set v)"

lemma string_at:
  assumes "0 \<notin> set s"
  shows "strlen_at (pre @ s @ 0 # rest) (length pre) = Some (length s)" "c_str (drop (length pre) (pre @ s @ 0 # rest)) = s"
proof -
  have "takeWhile (\<lambda>c. c \<noteq> 0) (s @ 0 # rest) = s" using assms by (induction s) auto
  then show "c_str (drop (length pre) (pre @ s @ 0 # rest)) = s" "strlen_at (pre @ s @ 0 # rest) (length pre) = Some (length s)"
    by (simp_all add: c_str_def strlen_at_def)
qed

lemma pair_at:
  fixes pre k v rest :: "u8 list"
  defines "buf \<equiv> pre @ k @ 0 # v @ 0 # rest"
  assumes "k \<noteq> []" "0 \<notin> set k" "0 \<notin> set v"
  shows "length pre < length buf" "buf ! length pre \<noteq> 0" "strlen_at buf (length pre) = Some (length k)"
    "c_str (drop (length pre) buf) = k" "strlen_at buf (length pre + length k + 1) = Some (length v)"
    "c_str (drop (length pre + length k + 1) buf) = v"
proof -
  show "length pre < length buf" by (simp add: buf_def)
  show "buf ! length pre \<noteq> 0" using assms(2,3) by (cases k) (auto simp: buf_def nth_append)
  show "strlen_at buf (length pre) = Some (length k)" "c_str (drop (length pre) buf) = k"
    unfolding buf_def by (rule string_at [OF assms(3)])+
  show "strlen_at buf (length pre + length k + 1) = Some (length v)" "c_str (drop (length pre + length k + 1) buf) = v"
    using string_at [OF assms(4), of "pre @ k @ [0]" rest] unfolding buf_def by simp_all
qed

lemma packed_Cons: "packed ((k, v) # kvs) = k @ 0 # v @ 0 # packed kvs"
  by (simp add: packed_def)

lemma walk_packed:
  assumes "pairs_wf kvs" "length pre + length (packed kvs) \<le> end_off"
  shows "hwinfo_walk_from (pre @ packed kvs @ rest) end_off (length pre) =
    hwinfo_walk_from (pre @ packed kvs @ rest) end_off (length pre + length (packed kvs))"
  using assms
proof (induction kvs arbitrary: pre)
  case (Cons kv kvs)
  obtain k v where kv: "kv = (k, v)" by fastforce
  let ?pre = "pre @ k @ 0 # v @ [0]"
  have buf: "pre @ packed (kv # kvs) @ rest = pre @ k @ 0 # v @ 0 # packed kvs @ rest" by (simp add: kv packed_Cons)
  have wf: "k \<noteq> []" "0 \<notin> set k" "0 \<notin> set v" "pairs_wf kvs" using Cons.prems(1) kv by (simp_all add: pairs_wf_def)
  note A = pair_at [OF wf(1-3), of pre "packed kvs @ rest", folded buf]
  have "hwinfo_walk_from (pre @ packed (kv # kvs) @ rest) end_off (length pre) =
      hwinfo_walk_from (pre @ packed (kv # kvs) @ rest) end_off (length pre + length k + 1 + length v + 1)"
    using A Cons.prems(2) by (subst hwinfo_walk_from.simps) (simp add: Let_def kv packed_Cons)
  also have "\<dots> = hwinfo_walk_from (?pre @ packed kvs @ rest) end_off (length ?pre)" unfolding buf by (simp add: add.assoc)
  also have "\<dots> = hwinfo_walk_from (?pre @ packed kvs @ rest) end_off (length ?pre + length (packed kvs))"
    using Cons.prems(2) wf(4) by (intro Cons.IH) (simp_all add: kv packed_Cons)
  finally show ?case by (simp add: kv packed_Cons add.assoc)
qed (simp add: packed_def)

lemma lookup_packed:
  assumes "pairs_wf kvs" "length pre + length (packed kvs) \<le> end_off"
  shows "case hwinfo_lookup_from (pre @ packed kvs @ 0 # rest) end_off name (length pre) of
      None \<Rightarrow> False | Some None \<Rightarrow> map_of kvs name = None
    | Some (Some pos) \<Rightarrow> map_of kvs name = Some (c_str (drop pos (pre @ packed kvs @ 0 # rest)))"
  using assms
proof (induction kvs arbitrary: pre)
  case Nil
  show ?case by (subst hwinfo_lookup_from.simps) (simp add: packed_def nth_append)
next
  case (Cons kv kvs)
  obtain k v where kv: "kv = (k, v)" by fastforce
  let ?pre = "pre @ k @ 0 # v @ [0]"
  let ?buf = "pre @ packed (kv # kvs) @ 0 # rest"
  have buf: "?buf = pre @ k @ 0 # v @ 0 # packed kvs @ 0 # rest" by (simp add: kv packed_Cons)
  have wf: "k \<noteq> []" "0 \<notin> set k" "0 \<notin> set v" "pairs_wf kvs" using Cons.prems(1) kv by (simp_all add: pairs_wf_def)
  note A = pair_at [OF wf(1-3), of pre "packed kvs @ 0 # rest", folded buf]
  have lt: "length pre < end_off" using Cons.prems(2) by (simp add: kv packed_Cons)
  show ?case
  proof (cases "k = name")
    case True
    then have "hwinfo_lookup_from ?buf end_off name (length pre) = Some (Some (length pre + length k + 1))"
      using A lt by (subst hwinfo_lookup_from.simps) (simp add: Let_def)
    then show ?thesis using A(6) True by (simp add: kv)
  next
    case False
    then have "hwinfo_lookup_from ?buf end_off name (length pre) =
        hwinfo_lookup_from ?buf end_off name (length pre + length k + 1 + length v + 1)"
      using A lt by (subst hwinfo_lookup_from.simps) (simp add: Let_def)
    moreover have b: "?buf = ?pre @ packed kvs @ 0 # rest" unfolding buf by simp
    moreover have "length pre + length k + 1 + length v + 1 = length ?pre" by simp
    ultimately have l: "hwinfo_lookup_from ?buf end_off name (length pre) =
        hwinfo_lookup_from (?pre @ packed kvs @ 0 # rest) end_off name (length ?pre)" by metis
    have m: "map_of (kv # kvs) name = map_of kvs name" using False by (simp add: kv)
    show ?thesis unfolding l m unfolding b
      by (rule Cons.IH) (use Cons.prems(2) wf(4) in \<open>simp_all add: kv packed_Cons\<close>)
  qed
qed

lemma size_minus_four: "4 \<le> unat (hwinfo_size db) \<Longrightarrow> unat (hwinfo_size db - 4) = unat (hwinfo_size db) - 4"
  by (subst unat_sub) (simp_all add: word_le_nat_alt)


text \<open>C40. A table that fills its resource to the last byte, with its checksum behind the last value, makes the check
  read behind the buffer unless a byte of the checksum is zero: the end of the data is computed from the start of
  the data instead of the start of the table.\<close>

theorem hwinfo_overread:
  assumes db: "db = hdr @ packed kvs @ crc @ [0]" "length hdr = 16" "pairs_wf kvs" "length crc = 4" "0 \<notin> set crc"
    and size: "unat (hwinfo_size db) = 16 + length (packed kvs) + 4"
    and crc: "crc32_posix crc32_be db (unat (hwinfo_size db) - 4) = get_unaligned_le32 crc"
  shows "hwinfo_db_validate crc32_be db (length db - 1) = None"
proof -
  let ?stop = "16 + (unat (hwinfo_size db) - 4)" and ?key = "16 + length (packed kvs)"
  have sz: "unat (hwinfo_size db - 4) = ?key" using size size_minus_four [of db] by simp
  have len: "length db = ?key + 5" using db by simp
  have s: "strlen_at db ?key = Some 4" using string_at(1) [OF db(5), of "hdr @ packed kvs" "[]"] db by simp
  have k: "db ! ?key \<noteq> 0" using db by (cases crc) (auto simp: nth_append)
  have "hwinfo_walk_from db ?stop ?key = None"
    using s k len size by (subst hwinfo_walk_from.simps) (simp add: Let_def strlen_at_def)
  moreover have "hwinfo_walk_from db ?stop 16 = hwinfo_walk_from db ?stop ?key"
    using walk_packed [OF db(3), of hdr ?stop "crc @ [0]"] db(1,2) size by simp
  moreover have "drop ?key db = crc @ [0]" using db by simp
  ultimately show ?thesis
    unfolding hwinfo_db_validate_def hwinfo_db_walk_def Let_def sz hwinfo_data_def
    using size crc len db(4) by simp
qed


text \<open>A checksum that is the same for all data, a table that says \<open>a = b\<close> and one that fills its buffer.\<close>

definition sample_csum :: "u32 \<Rightarrow> u8 list \<Rightarrow> u32" where
  "sample_csum crc data = 0xfefefefe"

definition sample_db :: "u8 list" where
  "sample_db = put_unaligned_le32 NFP_HWINFO_VERSION_2 @ put_unaligned_le32 28 @ replicate 8 0 @
     packed [([0x61], [0x62])] @ replicate 4 0 @ replicate 4 1 @ replicate 13 0"

definition sample_full_db :: "u8 list" where
  "sample_full_db = put_unaligned_le32 NFP_HWINFO_VERSION_2 @ put_unaligned_le32 24 @ replicate 8 0 @
     packed [([0x61], [0x62])] @ replicate 4 1 @ [0]"

lemma sample_crc_posix:
  assumes "0 < len" "len < 256"
  shows "crc32_posix sample_csum db len = 0x01010101"
proof -
  have "crc32_posix_end sample_csum 0xfefefefe len = 0x01010101"
    using assms by (subst crc32_posix_end.simps, subst crc32_posix_end.simps) (simp add: sample_csum_def)
  then show ?thesis by (simp add: crc32_posix_def sample_csum_def)
qed

lemma sample_sizes: "hwinfo_size sample_db = 28" "hwinfo_size sample_full_db = 24"
  by (simp_all add: sample_db_def sample_full_db_def hwinfo_size_def put_unaligned_le32_def get_unaligned_le32_def)

lemma sample_pairs: "pairs_wf [([0x61], [0x62])]" "length (packed [([0x61], [0x62])]) = 4"
  by (simp_all add: pairs_wf_def packed_def)

theorem hwinfo_safe_witness: "hwinfo_db_validate sample_csum sample_db 40 \<noteq> None"
  by (rule hwinfo_safe [THEN conjunct1]) (simp_all add: sample_sizes, simp_all add: sample_db_def packed_def)


theorem hwinfo_overread_witness: "hwinfo_db_validate sample_csum sample_full_db (length sample_full_db - 1) = None"
proof (rule hwinfo_overread [where hdr = "put_unaligned_le32 NFP_HWINFO_VERSION_2 @ put_unaligned_le32 24 @ replicate 8 0"
      and kvs = "[([0x61], [0x62])]" and crc = "replicate 4 1"])
  show "crc32_posix sample_csum sample_full_db (unat (hwinfo_size sample_full_db) - 4) = get_unaligned_le32 (replicate 4 1)"
    by (simp add: sample_sizes sample_crc_posix) (simp add: get_unaligned_le32_def numeral_eq_Suc)
qed (simp_all add: sample_sizes sample_pairs, simp add: sample_full_db_def)


text \<open>A size below four wraps around, and the checksum runs over the whole address space.\<close>

lemma hwinfo_short_size:
  assumes "unat (hwinfo_size db) < 4" "length db < 2 ^ 32" "3 \<le> len"
  shows "hwinfo_db_validate crc32_be db len = None"
proof -
  have "hwinfo_size db = of_nat (unat (hwinfo_size db))" by simp
  then obtain n where n: "hwinfo_size db = of_nat n" "n < 4" using assms(1) by metis
  then have "n = 0 \<or> n = 1 \<or> n = 2 \<or> n = 3" by linarith
  then have "unat (hwinfo_size db - 4) + 4 \<ge> 2 ^ 32" by (elim disjE) (simp_all add: n(1) unsigned_minus_1_eq_mask mask_eq_exp_minus_1)
  with assms show ?thesis by (simp add: hwinfo_db_validate_def Let_def)
qed

text \<open>Whatever the device answers, a table that \<open>nfp_hwinfo_read\<close> returns is terminated, complete and checked.\<close>

lemma try_fetch_complete:
  assumes "run D (hwinfo_try_fetch crc32_be env alloc_ok interface) s = Some (Some db, s')"
  shows "last db = 0 \<and> hwinfo_version (butlast db) = NFP_HWINFO_VERSION_2 \<and> \<not> nfp_hwinfo_is_updating (butlast db)"
  using assms
  by (auto simp: hwinfo_try_fetch_def run_bind split: option.splits prod.splits if_splits sum.splits)

lemma fetch_complete:
  assumes "run D (hwinfo_fetch crc32_be r rs interface) s = Some (Some db, s')"
  shows "last db = 0 \<and> hwinfo_version (butlast db) = NFP_HWINFO_VERSION_2 \<and> \<not> nfp_hwinfo_is_updating (butlast db)"
  using assms
proof (induction crc32_be r rs interface arbitrary: s rule: hwinfo_fetch.induct)
  case (1 crc32_be env alloc_ok interrupted rounds interface)
  obtain x s1 where x: "run D (hwinfo_try_fetch crc32_be env alloc_ok interface) s = Some (x, s1)"
    using "1.prems" by (auto simp: run_bind split: option.splits)
  show ?case
  proof (cases x)
    case None
    with x "1.prems" obtain r rs where r: "rounds = r # rs" "\<not> interrupted" "run D (hwinfo_fetch crc32_be r rs interface) s1 = Some (Some db, s')"
      by (auto simp: run_bind split: list.splits if_splits)
    from "1.IH" [OF r] show ?thesis .
  next
    case (Some db')
    with x "1.prems" have "db' = db" by (simp add: run_bind)
    with x Some show ?thesis by (intro try_fetch_complete) simp
  qed
qed

lemma hwinfo_read_checked:
  assumes "run D (nfp_hwinfo_read crc32_be r rs interface) s = Some (Some db, s')"
  shows "last db = 0 \<and> hwinfo_version (butlast db) = NFP_HWINFO_VERSION_2 \<and>
    hwinfo_db_validate crc32_be db (length db - 1) = Some (Inr ())"
proof -
  obtain x s1 where x: "run D (hwinfo_fetch crc32_be r rs interface) s = Some (x, s1)"
    using assms by (auto simp: nfp_hwinfo_read_def run_bind split: option.splits)
  with assms have "x = Some db" "hwinfo_db_validate crc32_be db (length db - 1) = Some (Inr ())"
    by (auto simp: nfp_hwinfo_read_def run_bind split: option.splits sum.splits)
  moreover from this(1) x have "run D (hwinfo_fetch crc32_be r rs interface) s = Some (Some db, s1)" by simp
  from fetch_complete [OF this] have "last db = 0 \<and> hwinfo_version (butlast db) = NFP_HWINFO_VERSION_2" by simp
  ultimately show ?thesis by simp
qed

end
