(* ===== verification/NFP_Rtsym.thy ===== *)
theory NFP_Rtsym
  imports NFP_Hwinfo
begin

text \<open>
  From the firmware table to the symbols of the firmware: \<^verbatim>\<open>src/nfpcore/nfp_nffw.c\<close> finds the loaded firmware
  while the resource \<open>nfp.nffw\<close> is held, \<^verbatim>\<open>src/nfpcore/nfp_mip.c\<close> reads its information page,
  \<^verbatim>\<open>src/nfpcore/nfp_rtsym.c\<close> its symbol table, and reads and writes symbols.  All are bus programs.  The
  outcome of every allocation is an argument, and so is the offset of the locality field of memory unit
  addresses that the bus core determined.  Structures are read in the byte order of the device.
\<close>

section \<open>Loaded firmware\<close>

definition NFP_MU_ADDR_ACCESS_TYPE_MASK :: u64 where "NFP_MU_ADDR_ACCESS_TYPE_MASK = 3"

definition NFP_MU_ADDR_ACCESS_TYPE_DIRECT :: u64 where "NFP_MU_ADDR_ACCESS_TYPE_DIRECT = 2"

definition NFP_ISL_EMEM0 :: u32 where "NFP_ISL_EMEM0 = 24"

definition NFFW_INFO_VERSION_CURRENT :: u32 where "NFFW_INFO_VERSION_CURRENT = 2"

definition NFFW_MEINFO_CNT_V1 :: nat where "NFFW_MEINFO_CNT_V1 = 120"

definition NFFW_FWINFO_CNT_V1 :: nat where "NFFW_FWINFO_CNT_V1 = 120"

definition NFFW_MEINFO_CNT_V2 :: nat where "NFFW_MEINFO_CNT_V2 = 200"

definition NFFW_FWINFO_CNT_V2 :: nat where "NFFW_FWINFO_CNT_V2 = 200"

record nffw_fwinfo =
  loaded__mu_da__mip_off_hi :: u32
  mip_cppid :: u32
  mip_offset_lo :: u32

text \<open>\<open>struct nfp_nffw_info_data\<close>: two words of flags, then four bytes for each micro-engine and twelve for
  each firmware.\<close>

definition sizeof_nffw_info_data :: nat where
  "sizeof_nffw_info_data = 8 + NFFW_MEINFO_CNT_V2 * 4 + NFFW_FWINFO_CNT_V2 * 12"

definition fwinfo_at :: "u8 list \<Rightarrow> nat \<Rightarrow> nffw_fwinfo" where
  "fwinfo_at fwinf off =
     \<lparr> loaded__mu_da__mip_off_hi = get_unaligned_le32 (drop off fwinf),
       mip_cppid = get_unaligned_le32 (drop (off + 4) fwinf),
       mip_offset_lo = get_unaligned_le32 (drop (off + 8) fwinf) \<rparr>"

definition nffw_res_info_version_get :: "u8 list \<Rightarrow> u32" where
  "nffw_res_info_version_get res = drop_bit 16 (get_unaligned_le32 res) AND 0xfff"

definition nffw_res_flg_init_get :: "u8 list \<Rightarrow> u32" where
  "nffw_res_flg_init_get res = drop_bit 0 (get_unaligned_le32 res) AND 1"

definition nffw_fwinfo_loaded_get :: "nffw_fwinfo \<Rightarrow> u32" where
  "nffw_fwinfo_loaded_get fi = drop_bit 31 (loaded__mu_da__mip_off_hi fi) AND 1"

definition nffw_fwinfo_mip_cppid_get :: "nffw_fwinfo \<Rightarrow> u32" where
  "nffw_fwinfo_mip_cppid_get fi = mip_cppid fi"

definition nffw_fwinfo_mip_mu_da_get :: "nffw_fwinfo \<Rightarrow> u32" where
  "nffw_fwinfo_mip_mu_da_get fi = drop_bit 8 (loaded__mu_da__mip_off_hi fi) AND 1"

definition nffw_fwinfo_mip_offset_get :: "nffw_fwinfo \<Rightarrow> u64" where
  "nffw_fwinfo_mip_offset_get fi =
     push_bit 32 (ucast (loaded__mu_da__mip_off_hi fi) AND 0xff) OR ucast (mip_offset_lo fi)"

definition nffw_res_fwinfos :: "u8 list \<Rightarrow> nffw_fwinfo list" where
  "nffw_res_fwinfos fwinf =
     (let ver = nffw_res_info_version_get fwinf in
      if ver = 0 \<or> ver = 1 then map (\<lambda>i. fwinfo_at fwinf (8 + NFFW_MEINFO_CNT_V1 * 4 + 12 * i)) [0..<NFFW_FWINFO_CNT_V1]
      else if ver = 2 then map (\<lambda>i. fwinfo_at fwinf (8 + NFFW_MEINFO_CNT_V2 * 4 + 12 * i)) [0..<NFFW_FWINFO_CNT_V2]
      else [])"

text \<open>The bytes of \<open>"nfp.nffw"\<close>.\<close>

definition NFP_RESOURCE_NFP_NFFW :: "u8 list" where
  "NFP_RESOURCE_NFP_NFFW = [0x6e, 0x66, 0x70, 0x2e, 0x6e, 0x66, 0x66, 0x77]"

text \<open>The label \<open>err_release\<close>.\<close>

definition nffw_err_release :: "u16 \<Rightarrow> nfp_resource \<Rightarrow> (nfp_resource \<times> u8 list) result cppm" where
  "nffw_err_release interface res = cpp_bind (nfp_resource_release interface res) (\<lambda>_. Return (Inl EIO))"

definition nfp_nffw_info_open ::
  "(u32 \<Rightarrow> u8 list \<Rightarrow> u32) \<Rightarrow> acquire_env \<Rightarrow> bool \<Rightarrow> u16 \<Rightarrow> (nfp_resource \<times> u8 list) result cppm" where
  "nfp_nffw_info_open crc32_be env alloc_ok interface =
     (if \<not> alloc_ok then Return (Inl ENOMEM)
      else
        cpp_bind (nfp_resource_acquire crc32_be env interface NFP_RESOURCE_NFP_NFFW)
          (\<lambda>r. case r of
             Inl _ \<Rightarrow> Return (Inl EIO)
           | Inr res \<Rightarrow>
               if of_nat sizeof_nffw_info_data > res_size res then nffw_err_release interface res
               else
                 Cpp_read (res_cpp_id res) (res_addr res) sizeof_nffw_info_data
                   (\<lambda>r. case r of
                      Inl _ \<Rightarrow> nffw_err_release interface res
                    | Inr fwinf \<Rightarrow>
                        if length fwinf < sizeof_nffw_info_data then nffw_err_release interface res
                        else if nffw_res_flg_init_get fwinf = 0 then nffw_err_release interface res
                        else if nffw_res_info_version_get fwinf > NFFW_INFO_VERSION_CURRENT then nffw_err_release interface res
                        else Return (Inr (res, fwinf)))))"

definition nfp_nffw_info_close :: "u16 \<Rightarrow> nfp_resource \<times> u8 list \<Rightarrow> unit cppm" where
  "nfp_nffw_info_close interface state = nfp_resource_release interface (fst state)"

definition nfp_nffw_info_fwid_first :: "u8 list \<Rightarrow> nffw_fwinfo option" where
  "nfp_nffw_info_fwid_first fwinf = find (\<lambda>fi. nffw_fwinfo_loaded_get fi \<noteq> 0) (nffw_res_fwinfos fwinf)"

text \<open>The locality field of a memory unit address is set to direct access.\<close>

definition mu_direct_access :: "nat \<Rightarrow> u64 \<Rightarrow> u64" where
  "mu_direct_access locality_off addr =
     (addr AND NOT (push_bit locality_off NFP_MU_ADDR_ACCESS_TYPE_MASK)) OR
     push_bit locality_off NFP_MU_ADDR_ACCESS_TYPE_DIRECT"

definition nfp_nffw_info_mip_first :: "nat \<Rightarrow> u8 list \<Rightarrow> (u32 \<times> u64) result" where
  "nfp_nffw_info_mip_first locality_off fwinf =
     (case nfp_nffw_info_fwid_first fwinf of
        None \<Rightarrow> Inl EINVAL
      | Some fwinfo \<Rightarrow>
          let off = nffw_fwinfo_mip_offset_get fwinfo in
          Inr (nffw_fwinfo_mip_cppid_get fwinfo,
               if nffw_fwinfo_mip_mu_da_get fwinfo \<noteq> 0 then mu_direct_access locality_off off else off))"

section \<open>The information page\<close>

definition NFP_MIP_SIGNATURE :: u32 where "NFP_MIP_SIGNATURE = 0x0050494d"

definition NFP_MIP_VERSION :: u32 where "NFP_MIP_VERSION = 1"

text \<open>\<open>struct nfp_mip\<close>: twelve words, a name of 16 bytes and a tool chain of 32.\<close>

definition sizeof_mip :: nat where "sizeof_mip = 12 * 4 + 16 + 32"

definition mip_word :: "nat \<Rightarrow> u8 list \<Rightarrow> u32" where
  "mip_word i mip = get_unaligned_le32 (drop (4 * i) mip)"

definition nfp_mip_try_read :: "u32 \<Rightarrow> u64 \<Rightarrow> u8 list result cppm" where
  "nfp_mip_try_read cpp_id addr =
     Cpp_read cpp_id addr sizeof_mip
       (\<lambda>r. case r of
          Inl _ \<Rightarrow> Return (Inl EIO)
        | Inr mip \<Rightarrow>
            Return (if length mip \<noteq> sizeof_mip then Inl EIO
                    else if mip_word 0 mip \<noteq> NFP_MIP_SIGNATURE then Inl EINVAL
                    else if mip_word 1 mip \<noteq> NFP_MIP_VERSION then Inl EINVAL
                    else Inr mip))"

definition nfp_mip_read_resource ::
  "(u32 \<Rightarrow> u8 list \<Rightarrow> u32) \<Rightarrow> acquire_env \<Rightarrow> bool \<Rightarrow> nat \<Rightarrow> u16 \<Rightarrow> u8 list result cppm" where
  "nfp_mip_read_resource crc32_be env alloc_ok locality_off interface =
     cpp_bind (nfp_nffw_info_open crc32_be env alloc_ok interface)
       (\<lambda>r. case r of
          Inl err \<Rightarrow> Return (Inl err)
        | Inr state \<Rightarrow>
            cpp_bind (case nfp_nffw_info_mip_first locality_off (snd state) of
                        Inl err \<Rightarrow> Return (Inl err)
                      | Inr (cpp_id, addr) \<Rightarrow> nfp_mip_try_read cpp_id addr)
              (\<lambda>r. cpp_bind (nfp_nffw_info_close interface state) (\<lambda>_. Return r)))"

text \<open>The last byte of the name is cleared.\<close>

definition nfp_mip_open ::
  "(u32 \<Rightarrow> u8 list \<Rightarrow> u32) \<Rightarrow> acquire_env \<Rightarrow> bool \<Rightarrow> bool \<Rightarrow> nat \<Rightarrow> u16 \<Rightarrow> u8 list option cppm" where
  "nfp_mip_open crc32_be env mip_alloc_ok alloc_ok locality_off interface =
     (if \<not> mip_alloc_ok then Return None
      else
        cpp_bind (nfp_mip_read_resource crc32_be env alloc_ok locality_off interface)
          (\<lambda>r. Return (case r of Inl _ \<Rightarrow> None | Inr mip \<Rightarrow> Some (mip[48 + 15 := 0]))))"

definition nfp_mip_symtab :: "u8 list \<Rightarrow> u32 \<times> u32" where
  "nfp_mip_symtab mip = (mip_word 8 mip, mip_word 9 mip)"

definition nfp_mip_strtab :: "u8 list \<Rightarrow> u32 \<times> u32" where
  "nfp_mip_strtab mip = (mip_word 10 mip, mip_word 11 mip)"

definition nfp_mip_name :: "u8 list \<Rightarrow> u8 list" where
  "nfp_mip_name mip = c_str (drop 48 mip)"


section \<open>Symbols\<close>

definition SYM_TGT_LMEM :: u8 where "SYM_TGT_LMEM = 0"

definition SYM_TGT_EMU_CACHE :: u8 where "SYM_TGT_EMU_CACHE = 0x17"

definition NFP_RTSYM_TARGET_LMEM :: int where "NFP_RTSYM_TARGET_LMEM = -1"

definition NFP_RTSYM_TARGET_EMU_CACHE :: int where "NFP_RTSYM_TARGET_EMU_CACHE = -7"

text \<open>The enumeration, and the other values a byte of the table can have.\<close>

datatype nfp_rtsym_type =
    NFP_RTSYM_TYPE_NONE | NFP_RTSYM_TYPE_OBJECT | NFP_RTSYM_TYPE_FUNCTION | NFP_RTSYM_TYPE_ABS | Rtsym_type_unknown u8

definition rtsym_type_of :: "u8 \<Rightarrow> nfp_rtsym_type" where
  "rtsym_type_of t =
     (if t = 0 then NFP_RTSYM_TYPE_NONE else if t = 1 then NFP_RTSYM_TYPE_OBJECT
      else if t = 2 then NFP_RTSYM_TYPE_FUNCTION else if t = 3 then NFP_RTSYM_TYPE_ABS else Rtsym_type_unknown t)"

record nfp_rtsym_entry =
  fw_type :: u8
  fw_target :: u8
  fw_island :: u8
  fw_addr_hi :: u8
  fw_addr_lo :: u32
  fw_name :: u16
  fw_menum :: u8
  fw_size_hi :: u8
  fw_size_lo :: u32

definition sizeof_rtsym_entry :: nat where "sizeof_rtsym_entry = 16"

definition rtsym_entry_at :: "u8 list \<Rightarrow> nat \<Rightarrow> nfp_rtsym_entry" where
  "rtsym_entry_at bs off =
     \<lparr> fw_type = bs ! off, fw_target = bs ! (off + 1), fw_island = bs ! (off + 2), fw_addr_hi = bs ! (off + 3),
       fw_addr_lo = get_unaligned_le32 (drop (off + 4) bs), fw_name = get_unaligned_le16 (drop (off + 8) bs),
       fw_menum = bs ! (off + 10), fw_size_hi = bs ! (off + 11), fw_size_lo = get_unaligned_le32 (drop (off + 12) bs) \<rparr>"

text \<open>The name of a symbol is an offset into the string table.\<close>

record nfp_rtsym =
  sym_name :: nat
  sym_addr :: u64
  sym_size :: u64
  sym_type :: nfp_rtsym_type
  sym_target :: int
  sym_domain :: int

record nfp_rtsym_table =
  rtbl_strtab :: "u8 list"
  rtbl_symtab :: "nfp_rtsym list"

definition nfp_meid :: "u8 \<Rightarrow> u8 \<Rightarrow> int" where
  "nfp_meid island_id menum =
     (if island_id AND 0x3f = island_id \<and> menum < 12 then (push_bit 4 (uint island_id)) OR (uint menum + 4) else -1)"

definition nfp_rtsym_sw_entry_init :: "u32 \<Rightarrow> nfp_rtsym_entry \<Rightarrow> nfp_rtsym" where
  "nfp_rtsym_sw_entry_init strtab_size fw =
     \<lparr> sym_name = unat (fw_name fw) mod unat strtab_size,
       sym_addr = push_bit 32 (ucast (fw_addr_hi fw)) OR ucast (fw_addr_lo fw),
       sym_size = push_bit 32 (ucast (fw_size_hi fw)) OR ucast (fw_size_lo fw),
       sym_type = rtsym_type_of (fw_type fw),
       sym_target = (if fw_target fw = SYM_TGT_LMEM then NFP_RTSYM_TARGET_LMEM
                     else if fw_target fw = SYM_TGT_EMU_CACHE then NFP_RTSYM_TARGET_EMU_CACHE
                     else uint (fw_target fw)),
       sym_domain = (if fw_menum fw \<noteq> 0xff then nfp_meid (fw_island fw) (fw_menum fw)
                     else if fw_island fw \<noteq> 0xff then uint (fw_island fw)
                     else -1) \<rparr>"

definition round_up_8 :: "u32 \<Rightarrow> u32" where
  "round_up_8 x = ((x - 1) OR 7) + 1"

text \<open>A string table size that rounds up to zero makes the modulus of the names a division by zero.\<close>

definition nfp_rtsym_table_read_mip :: "u8 list option \<Rightarrow> bool \<Rightarrow> bool \<Rightarrow> nfp_rtsym_table option cppm" where
  "nfp_rtsym_table_read_mip mip raw_alloc_ok cache_alloc_ok =
     (case mip of
        None \<Rightarrow> Return None
      | Some mip \<Rightarrow>
          let dram = NFP_CPP_ID (of_int NFP_CPP_TARGET_MU) NFP_CPP_ACTION_RW 0 OR NFP_ISL_EMEM0;
              strtab_addr = fst (nfp_mip_strtab mip); strtab_size = snd (nfp_mip_strtab mip);
              symtab_addr = fst (nfp_mip_symtab mip); symtab_size = snd (nfp_mip_symtab mip) in
          if symtab_size = 0 \<or> strtab_size = 0 \<or> unat symtab_size mod sizeof_rtsym_entry \<noteq> 0 then Return None
          else
            let symtab_size = round_up_8 symtab_size; strtab_size = round_up_8 strtab_size in
            if \<not> raw_alloc_ok \<or> \<not> cache_alloc_ok then Return None
            else
              let num = unat symtab_size div sizeof_rtsym_entry in
              Cpp_read dram (ucast symtab_addr) (unat symtab_size)
                (\<lambda>r. case r of
                   Inl _ \<Rightarrow> Return None
                 | Inr rtsymtab \<Rightarrow>
                     if length rtsymtab \<noteq> unat symtab_size then Return None
                     else
                       Cpp_read dram (ucast strtab_addr) (unat strtab_size)
                         (\<lambda>r. case r of
                            Inl _ \<Rightarrow> Return None
                          | Inr strtab \<Rightarrow>
                              if length strtab \<noteq> unat strtab_size then Return None
                              else if strtab_size = 0 \<and> num \<noteq> 0 then Fault
                              else
                                Return (Some
                                  \<lparr> rtbl_strtab = strtab @ [0],
                                    rtbl_symtab = map (\<lambda>n. nfp_rtsym_sw_entry_init strtab_size
                                                             (rtsym_entry_at rtsymtab (sizeof_rtsym_entry * n))) [0..<num] \<rparr>))))"

definition nfp_rtsym_table_read ::
  "(u32 \<Rightarrow> u8 list \<Rightarrow> u32) \<Rightarrow> acquire_env \<Rightarrow> bool \<Rightarrow> bool \<Rightarrow> nat \<Rightarrow> u16 \<Rightarrow> bool \<Rightarrow> bool \<Rightarrow> nfp_rtsym_table option cppm" where
  "nfp_rtsym_table_read crc32_be env mip_alloc_ok alloc_ok locality_off interface raw_alloc_ok cache_alloc_ok =
     cpp_bind (nfp_mip_open crc32_be env mip_alloc_ok alloc_ok locality_off interface)
       (\<lambda>mip. nfp_rtsym_table_read_mip mip raw_alloc_ok cache_alloc_ok)"

definition nfp_rtsym_count :: "nfp_rtsym_table option \<Rightarrow> int result" where
  "nfp_rtsym_count rtbl = (case rtbl of None \<Rightarrow> Inl EINVAL | Some rtbl \<Rightarrow> Inr (int (length (rtbl_symtab rtbl))))"

text \<open>A negative index is not checked; the address it gives, in front of the table, is \<^const>\<open>None\<close>.\<close>

definition nfp_rtsym_get :: "nfp_rtsym_table option \<Rightarrow> int \<Rightarrow> nfp_rtsym option option" where
  "nfp_rtsym_get rtbl idx =
     (case rtbl of
        None \<Rightarrow> Some None
      | Some rtbl \<Rightarrow>
          if idx \<ge> int (length (rtbl_symtab rtbl)) then Some None
          else if idx < 0 then None
          else Some (Some (rtbl_symtab rtbl ! nat idx)))"

definition rtsym_string :: "nfp_rtsym_table \<Rightarrow> nfp_rtsym \<Rightarrow> u8 list" where
  "rtsym_string rtbl rtsym = c_str (drop (sym_name rtsym) (rtbl_strtab rtbl))"

definition nfp_rtsym_lookup :: "nfp_rtsym_table option \<Rightarrow> u8 list \<Rightarrow> nfp_rtsym option" where
  "nfp_rtsym_lookup rtbl name =
     (case rtbl of None \<Rightarrow> None | Some rtbl \<Rightarrow> find (\<lambda>rtsym. name = rtsym_string rtbl rtsym) (rtbl_symtab rtbl))"

definition nfp_rtsym_size :: "nfp_rtsym \<Rightarrow> u64" where
  "nfp_rtsym_size rtsym =
     (case sym_type rtsym of NFP_RTSYM_TYPE_NONE \<Rightarrow> 0 | NFP_RTSYM_TYPE_ABS \<Rightarrow> 8 | _ \<Rightarrow> sym_size rtsym)"

definition nfp_rtsym_to_dest :: "nat \<Rightarrow> nfp_rtsym \<Rightarrow> u8 \<Rightarrow> u8 \<Rightarrow> u64 \<Rightarrow> (u32 \<times> u64) result" where
  "nfp_rtsym_to_dest locality_off rtsym action token off =
     (if sym_type rtsym \<noteq> NFP_RTSYM_TYPE_OBJECT then Inl EINVAL
      else
        let addr = sym_addr rtsym + off in
        if sym_target rtsym = NFP_RTSYM_TARGET_EMU_CACHE then
          Inr (NFP_CPP_ISLAND_ID (of_int NFP_CPP_TARGET_MU) (ucast action) (ucast token) (of_int (sym_domain rtsym)),
               mu_direct_access locality_off addr)
        else if sym_target rtsym < 0 then Inl EINVAL
        else Inr (NFP_CPP_ISLAND_ID (of_int (sym_target rtsym)) (ucast action) (ucast token) (of_int (sym_domain rtsym)), addr))"

section \<open>Reading and writing symbols\<close>

definition nfp_rtsym_read_at ::
  "nat \<Rightarrow> nfp_rtsym \<Rightarrow> u8 \<Rightarrow> u8 \<Rightarrow> u64 \<Rightarrow> nat \<Rightarrow> u8 list result cppm" where
  "nfp_rtsym_read_at locality_off rtsym action token off len =
     (let size = nfp_rtsym_size rtsym in
      if off > size then Return (Inl ENXIO)
      else
        let len = min len (unat (size - off)) in
        if sym_type rtsym = NFP_RTSYM_TYPE_ABS then
          Return (Inr (take len (drop (unat off) (put_unaligned_le64 (sym_addr rtsym)))))
        else
          case nfp_rtsym_to_dest locality_off rtsym action token off of
            Inl err \<Rightarrow> Return (Inl err)
          | Inr (cpp_id, addr) \<Rightarrow> Cpp_read cpp_id addr len (\<lambda>r. Return r))"

definition nfp_rtsym_readl_at :: "nat \<Rightarrow> nfp_rtsym \<Rightarrow> u8 \<Rightarrow> u8 \<Rightarrow> u64 \<Rightarrow> u32 result cppm" where
  "nfp_rtsym_readl_at locality_off rtsym action token off =
     (if off + 4 > nfp_rtsym_size rtsym then Return (Inl ENXIO)
      else
        case nfp_rtsym_to_dest locality_off rtsym action token off of
          Inl err \<Rightarrow> Return (Inl err)
        | Inr (cpp_id, addr) \<Rightarrow> nfp_cpp_readl cpp_id addr Return)"

definition nfp_rtsym_readq_at :: "nat \<Rightarrow> nfp_rtsym \<Rightarrow> u8 \<Rightarrow> u8 \<Rightarrow> u64 \<Rightarrow> u64 result cppm" where
  "nfp_rtsym_readq_at locality_off rtsym action token off =
     (if off + 8 > nfp_rtsym_size rtsym then Return (Inl ENXIO)
      else if sym_type rtsym = NFP_RTSYM_TYPE_ABS then Return (Inr (sym_addr rtsym))
      else
        case nfp_rtsym_to_dest locality_off rtsym action token off of
          Inl err \<Rightarrow> Return (Inl err)
        | Inr (cpp_id, addr) \<Rightarrow> nfp_cpp_readq cpp_id addr Return)"

definition nfp_rtsym_write_at ::
  "nat \<Rightarrow> nfp_rtsym \<Rightarrow> u8 \<Rightarrow> u8 \<Rightarrow> u64 \<Rightarrow> u8 list \<Rightarrow> nat result cppm" where
  "nfp_rtsym_write_at locality_off rtsym action token off buf =
     (let size = nfp_rtsym_size rtsym in
      if off > size then Return (Inl ENXIO)
      else
        let len = min (length buf) (unat (size - off)) in
        case nfp_rtsym_to_dest locality_off rtsym action token off of
          Inl err \<Rightarrow> Return (Inl err)
        | Inr (cpp_id, addr) \<Rightarrow> Cpp_write cpp_id addr (take len buf) (\<lambda>r. Return r))"

definition nfp_rtsym_writel_at :: "nat \<Rightarrow> nfp_rtsym \<Rightarrow> u8 \<Rightarrow> u8 \<Rightarrow> u64 \<Rightarrow> u32 \<Rightarrow> unit result cppm" where
  "nfp_rtsym_writel_at locality_off rtsym action token off value =
     (if off + 4 > nfp_rtsym_size rtsym then Return (Inl ENXIO)
      else
        case nfp_rtsym_to_dest locality_off rtsym action token off of
          Inl err \<Rightarrow> Return (Inl err)
        | Inr (cpp_id, addr) \<Rightarrow> nfp_cpp_writel cpp_id addr value Return)"

definition nfp_rtsym_writeq_at :: "nat \<Rightarrow> nfp_rtsym \<Rightarrow> u8 \<Rightarrow> u8 \<Rightarrow> u64 \<Rightarrow> u64 \<Rightarrow> unit result cppm" where
  "nfp_rtsym_writeq_at locality_off rtsym action token off value =
     (if off + 8 > nfp_rtsym_size rtsym then Return (Inl ENXIO)
      else
        case nfp_rtsym_to_dest locality_off rtsym action token off of
          Inl err \<Rightarrow> Return (Inl err)
        | Inr (cpp_id, addr) \<Rightarrow> nfp_cpp_writeq cpp_id addr value Return)"

abbreviation RTSYM_ACTION :: u8 where "RTSYM_ACTION \<equiv> ucast NFP_CPP_ACTION_RW"

definition nfp_rtsym_read :: "nat \<Rightarrow> nfp_rtsym \<Rightarrow> u64 \<Rightarrow> nat \<Rightarrow> u8 list result cppm" where
  "nfp_rtsym_read locality_off rtsym off len = nfp_rtsym_read_at locality_off rtsym RTSYM_ACTION 0 off len"

definition nfp_rtsym_readl :: "nat \<Rightarrow> nfp_rtsym \<Rightarrow> u64 \<Rightarrow> u32 result cppm" where
  "nfp_rtsym_readl locality_off rtsym off = nfp_rtsym_readl_at locality_off rtsym RTSYM_ACTION 0 off"

definition nfp_rtsym_readq :: "nat \<Rightarrow> nfp_rtsym \<Rightarrow> u64 \<Rightarrow> u64 result cppm" where
  "nfp_rtsym_readq locality_off rtsym off = nfp_rtsym_readq_at locality_off rtsym RTSYM_ACTION 0 off"

definition nfp_rtsym_write :: "nat \<Rightarrow> nfp_rtsym \<Rightarrow> u64 \<Rightarrow> u8 list \<Rightarrow> nat result cppm" where
  "nfp_rtsym_write locality_off rtsym off buf = nfp_rtsym_write_at locality_off rtsym RTSYM_ACTION 0 off buf"

definition nfp_rtsym_writel :: "nat \<Rightarrow> nfp_rtsym \<Rightarrow> u64 \<Rightarrow> u32 \<Rightarrow> unit result cppm" where
  "nfp_rtsym_writel locality_off rtsym off value = nfp_rtsym_writel_at locality_off rtsym RTSYM_ACTION 0 off value"

definition nfp_rtsym_writeq :: "nat \<Rightarrow> nfp_rtsym \<Rightarrow> u64 \<Rightarrow> u64 \<Rightarrow> unit result cppm" where
  "nfp_rtsym_writeq locality_off rtsym off value = nfp_rtsym_writeq_at locality_off rtsym RTSYM_ACTION 0 off value"

text \<open>The value and the error; on an error the value is all ones.\<close>

definition nfp_rtsym_read_le :: "nat \<Rightarrow> nfp_rtsym_table option \<Rightarrow> u8 list \<Rightarrow> (u64 \<times> errno option) cppm" where
  "nfp_rtsym_read_le locality_off rtbl name =
     (case nfp_rtsym_lookup rtbl name of
        None \<Rightarrow> Return (NOT 0, Some ENOENT)
      | Some rtsym \<Rightarrow>
          if nfp_rtsym_size rtsym = 4 then
            cpp_bind (nfp_rtsym_readl locality_off rtsym 0)
              (\<lambda>r. Return (case r of Inl err \<Rightarrow> (NOT 0, Some err) | Inr val32 \<Rightarrow> (ucast val32, None)))
          else if nfp_rtsym_size rtsym = 8 then
            cpp_bind (nfp_rtsym_readq locality_off rtsym 0)
              (\<lambda>r. Return (case r of Inl err \<Rightarrow> (NOT 0, Some err) | Inr val \<Rightarrow> (val, None)))
          else Return (NOT 0, Some EINVAL))"

definition nfp_rtsym_write_le :: "nat \<Rightarrow> nfp_rtsym_table option \<Rightarrow> u8 list \<Rightarrow> u64 \<Rightarrow> unit result cppm" where
  "nfp_rtsym_write_le locality_off rtbl name value =
     (case nfp_rtsym_lookup rtbl name of
        None \<Rightarrow> Return (Inl ENOENT)
      | Some rtsym \<Rightarrow>
          if nfp_rtsym_size rtsym = 4 then nfp_rtsym_writel locality_off rtsym 0 (ucast value)
          else if nfp_rtsym_size rtsym = 8 then nfp_rtsym_writeq locality_off rtsym 0 value
          else Return (Inl EINVAL))"

text \<open>The arguments of the call of \<open>nfp_cpp_map_area\<close>.\<close>

definition nfp_rtsym_map :: "nat \<Rightarrow> nfp_rtsym_table option \<Rightarrow> u8 list \<Rightarrow> u32 \<Rightarrow> (u32 \<times> u64 \<times> u64) result" where
  "nfp_rtsym_map locality_off rtbl name min_size =
     (case nfp_rtsym_lookup rtbl name of
        None \<Rightarrow> Inl ENOENT
      | Some rtsym \<Rightarrow>
          case nfp_rtsym_to_dest locality_off rtsym RTSYM_ACTION 0 0 of
            Inl err \<Rightarrow> Inl err
          | Inr (cpp_id, addr) \<Rightarrow>
              if sym_size rtsym < ucast min_size then Inl EINVAL else Inr (cpp_id, addr, sym_size rtsym))"


section \<open>Well-formed symbol tables\<close>

text \<open>The name is a terminated string of the table, target and domain are in range, address and size have 40 bits.\<close>

definition rtsym_ok :: "nfp_rtsym_table \<Rightarrow> nfp_rtsym \<Rightarrow> bool" where
  "rtsym_ok rtbl rtsym \<longleftrightarrow>
     strlen_at (rtbl_strtab rtbl) (sym_name rtsym) \<noteq> None \<and>
     (sym_target rtsym = NFP_RTSYM_TARGET_EMU_CACHE \<or> sym_target rtsym = NFP_RTSYM_TARGET_LMEM \<or>
      0 < sym_target rtsym \<and> sym_target rtsym < 256) \<and>
     -1 \<le> sym_domain rtsym \<and> sym_domain rtsym < 1024 \<and>
     unat (sym_addr rtsym) < 2 ^ 40 \<and> unat (sym_size rtsym) < 2 ^ 40"

lemma nfp_meid_range: "-1 \<le> nfp_meid i m" "nfp_meid i m < 1024"
proof -
  have "nfp_meid i m < 1024 \<and> -1 \<le> nfp_meid i m"
  proof (cases "i AND 0x3f = i \<and> m < 12")
    case True
    have "uint i < 64"
    proof -
      have "take_bit 6 i = i" using True by (simp add: take_bit_eq_mask mask_numeral)
      then have "take_bit 6 (uint i) = uint i" by (metis unsigned_take_bit_eq)
      then show ?thesis using take_bit_int_less_exp [of 6 "uint i"] by simp
    qed
    then have "push_bit 4 (uint i) < 1024" "0 \<le> push_bit 4 (uint i)" by (simp_all add: push_bit_eq_mult)
    moreover have "uint m + 4 < 1024" "0 \<le> uint m + 4" using True by (simp_all add: word_less_def)
    ultimately have "push_bit 4 (uint i) OR (uint m + 4) < 2 ^ 10" "0 \<le> push_bit 4 (uint i) OR (uint m + 4)"
      using OR_upper [of "push_bit 4 (uint i)" 10 "uint m + 4"] by simp_all
    moreover from this(2) have "-1 \<le> push_bit 4 (uint i) OR (uint m + 4)" by (rule order_trans [rotated]) simp
    ultimately show ?thesis using True by (simp add: nfp_meid_def)
  qed (auto simp: nfp_meid_def)
  then show "-1 \<le> nfp_meid i m" "nfp_meid i m < 1024" by simp_all
qed

lemma concat_40: "unat (push_bit 32 (ucast (hi :: u8)) OR ucast (lo :: u32) :: u64) < 2 ^ 40"
proof -
  have "take_bit 40 (push_bit 32 (ucast hi) OR ucast lo :: u64) = push_bit 32 (ucast hi) OR ucast lo"
  proof (rule bit_word_eqI)
    fix n
    have "bit hi (n - 32) \<Longrightarrow> n - 32 < 8" "bit lo n \<Longrightarrow> n < 32" by (auto dest: bit_imp_le_length)
    then show "bit (take_bit 40 (push_bit 32 (ucast hi) OR ucast lo :: u64)) n = bit (push_bit 32 (ucast hi) OR ucast lo :: u64) n"
      by (cases "n < 40") (auto simp: bit_simps)
  qed
  then have "unat (take_bit 40 (push_bit 32 (ucast hi) OR ucast lo :: u64)) = unat (push_bit 32 (ucast hi) OR ucast lo :: u64)"
    by (rule arg_cong)
  then show ?thesis
    using take_bit_nat_less_exp [of 40 "unat (push_bit 32 (ucast hi) OR ucast lo :: u64)"] unfolding unsigned_take_bit_eq by simp
qed

lemma entry_init_ok:
  assumes "strtab_size \<noteq> 0" "length strtab = unat strtab_size"
  shows "rtsym_ok \<lparr> rtbl_strtab = strtab @ [0], rtbl_symtab = ss \<rparr> (nfp_rtsym_sw_entry_init strtab_size fw)"
proof -
  have pos: "0 < unat strtab_size" using assms(1) by (simp add: unat_gt_0)
  then have "unat (fw_name fw) mod unat strtab_size < length (strtab @ [0])"
    using mod_less_divisor [OF pos, of "unat (fw_name fw)"] assms(2) by simp
  then have "strlen_at (strtab @ [0]) (unat (fw_name fw) mod unat strtab_size) \<noteq> None"
    using strlen_at_terminated [of "strtab @ [0]"] by fastforce
  moreover have "fw_target fw \<noteq> SYM_TGT_LMEM \<Longrightarrow> 0 < uint (fw_target fw)"
    by (simp add: SYM_TGT_LMEM_def word_less_def [symmetric] uint_0_iff less_le)
  moreover have "uint (fw_target fw) < 256" "uint (fw_island fw) < 1024"
    using uint_bounded [of "fw_target fw"] uint_bounded [of "fw_island fw"] by simp_all
  moreover have "-1 \<le> uint (fw_island fw)" by (rule order_trans [of _ 0]) simp_all
  ultimately show ?thesis
    using concat_40 [of "fw_addr_hi fw" "fw_addr_lo fw"] concat_40 [of "fw_size_hi fw" "fw_size_lo fw"]
    unfolding rtsym_ok_def nfp_rtsym_sw_entry_init_def by (simp add: nfp_meid_range)
qed


section \<open>Accesses to symbols\<close>

text \<open>The accesses a bus program may make, with the lengths.\<close>

primrec accesses :: "'a cppm \<Rightarrow> (u32 \<times> u64 \<times> nat) set" where
  "accesses (Return x) = {}"
| "accesses (Cpp_read cpp_id addr len k) = insert (cpp_id, addr, len) (\<Union>r. accesses (k r))"
| "accesses (Cpp_write cpp_id addr bs k) = insert (cpp_id, addr, length bs) (\<Union>r. accesses (k r))"
| "accesses Fault = {}"

lemma accesses_words [simp]:
  "accesses (nfp_cpp_readl cpp_id addr Return) = {(cpp_id, addr, 4)}"
  "accesses (nfp_cpp_readq cpp_id addr Return) = {(cpp_id, addr, 8)}"
  "accesses (nfp_cpp_writel cpp_id addr v Return) = {(cpp_id, addr, 4)}"
  "accesses (nfp_cpp_writeq cpp_id addr w Return) = {(cpp_id, addr, 8)}"
  by (auto simp: nfp_cpp_readl_def nfp_cpp_readq_def nfp_cpp_writel_def nfp_cpp_writeq_def put_unaligned_le64_def split: sum.splits if_splits)

text \<open>An access inside a symbol: the device address of an offset, and a length that ends within the size.\<close>

definition within_symbol :: "nat \<Rightarrow> nfp_rtsym \<Rightarrow> u8 \<Rightarrow> u8 \<Rightarrow> u64 \<Rightarrow> u32 \<times> u64 \<times> nat \<Rightarrow> bool" where
  "within_symbol locality_off rtsym action token off acc \<longleftrightarrow>
     nfp_rtsym_to_dest locality_off rtsym action token off = Inr (fst acc, fst (snd acc)) \<and>
     unat off + snd (snd acc) \<le> unat (sym_size rtsym)"

lemma block_bound: "\<not> off > (sz :: u64) \<Longrightarrow> unat off + min n (unat (sz - off)) \<le> unat sz"
  by (simp add: unat_sub word_le_nat_alt not_less)

lemma word_bound:
  assumes "\<not> off + of_nat k > (sz :: u64)" "unat off + k < 2 ^ 64"
  shows "unat off + k \<le> unat sz"
proof -
  have "unat (off + of_nat k) = unat off + k"
    using assms(2) by (simp add: unat_word_ariths(1) unat_of_nat)
  then show ?thesis using assms(1) by (simp add: word_le_nat_alt not_less)
qed

lemma object_size: "nfp_rtsym_to_dest lo rtsym a t off = Inr d \<Longrightarrow> nfp_rtsym_size rtsym = sym_size rtsym"
  by (simp add: nfp_rtsym_to_dest_def nfp_rtsym_size_def split: if_splits)



text \<open>Without the condition on the offset the sum wraps around and the access lies before the symbol.\<close>

lemma rtsym_offset_wraps:
  assumes "sym_type rtsym = NFP_RTSYM_TYPE_OBJECT" "0 \<le> sym_target rtsym"
  shows "\<exists>cpp_id. (cpp_id, sym_addr rtsym - 4, 4) \<in> accesses (nfp_rtsym_readl_at lo rtsym action token (-4))"
  using assms by (auto simp: nfp_rtsym_readl_at_def nfp_rtsym_to_dest_def NFP_RTSYM_TARGET_EMU_CACHE_def)

text \<open>A memory on the bus: reads return the bytes, writes replace them.\<close>

definition plain_memory :: "'s device \<Rightarrow> ('s \<Rightarrow> u32 \<Rightarrow> u64 \<Rightarrow> u8) \<Rightarrow> bool" where
  "plain_memory D byte \<longleftrightarrow>
     (\<forall>cpp_id a n s. \<exists>s'. dev_read D cpp_id a n s = (Inr (map (\<lambda>j. byte s cpp_id (a + of_nat j)) [0..<n]), s') \<and> byte s' = byte s) \<and>
     (\<forall>cpp_id a bs s. length bs < 2 ^ 64 \<longrightarrow> (\<exists>s'. dev_write D cpp_id a bs s = (Inr (length bs), s') \<and>
        (\<forall>j<length bs. byte s' cpp_id (a + of_nat j) = bs ! j)))"

definition byte_memory :: "(u32 \<Rightarrow> u64 \<Rightarrow> u8) device" where
  "byte_memory =
     \<lparr> dev_read = (\<lambda>cpp_id a n m. (Inr (map (\<lambda>j. m cpp_id (a + of_nat j)) [0..<n]), m)),
       dev_write = (\<lambda>cpp_id a bs m.
         (Inr (length bs), m(cpp_id := (\<lambda>x. if unat (x - a) < length bs then bs ! unat (x - a) else m cpp_id x)))) \<rparr>"

lemma plain_read:
  assumes "plain_memory D byte"
  obtains s' where "dev_read D cpp_id a n s = (Inr (map (\<lambda>j. byte s cpp_id (a + of_nat j)) [0..<n]), s')" "byte s' = byte s"
  using assms unfolding plain_memory_def by metis

lemma plain_write:
  assumes "plain_memory D byte" "length bs < 2 ^ 64"
  obtains s' where "dev_write D cpp_id a bs s = (Inr (length bs), s')" "map (\<lambda>j. byte s' cpp_id (a + of_nat j)) [0..<length bs] = bs"
proof -
  obtain s' where s': "dev_write D cpp_id a bs s = (Inr (length bs), s')" "\<forall>j<length bs. byte s' cpp_id (a + of_nat j) = bs ! j"
    using assms unfolding plain_memory_def by metis
  then have "map (\<lambda>j. byte s' cpp_id (a + of_nat j)) [0..<length bs] = bs" by (intro nth_equalityI) simp_all
  with s'(1) show thesis by (rule that)
qed

lemma writel_readl:
  assumes D: "plain_memory D byte" and d: "nfp_rtsym_to_dest lo rtsym RTSYM_ACTION 0 0 = Inr dest" "sym_size rtsym = 4"
  shows "\<exists>s' s''. run D (nfp_rtsym_writel lo rtsym 0 v) s = Some (Inr (), s') \<and> run D (nfp_rtsym_readl lo rtsym 0) s' = Some (Inr v, s'')"
proof -
  obtain cpp_id a where dest: "dest = (cpp_id, a)" by fastforce
  have sz: "nfp_rtsym_size rtsym = 4" using object_size [OF d(1)] d(2) by simp
  obtain s' where s': "dev_write D cpp_id a (put_unaligned_le32 v) s = (Inr 4, s')"
      "map (\<lambda>j. byte s' cpp_id (a + of_nat j)) [0..<4] = put_unaligned_le32 v"
    using plain_write [OF D, of "put_unaligned_le32 v" cpp_id a s] by auto
  obtain s'' where "dev_read D cpp_id a 4 s' = (Inr (put_unaligned_le32 v), s'')"
    using plain_read [OF D, of cpp_id a 4 s'] s'(2) by metis
  with s'(1) sz d(1) show ?thesis
    by (simp add: nfp_rtsym_writel_def nfp_rtsym_writel_at_def nfp_rtsym_readl_def nfp_rtsym_readl_at_def nfp_cpp_writel_def nfp_cpp_readl_def dest)
qed

lemma length_put_le64 [simp]: "length (put_unaligned_le64 v) = 8"
  by (simp add: put_unaligned_le64_def)

lemma writeq_readq:
  assumes D: "plain_memory D byte" and d: "nfp_rtsym_to_dest lo rtsym RTSYM_ACTION 0 0 = Inr dest" "sym_size rtsym = 8"
  shows "\<exists>s' s''. run D (nfp_rtsym_writeq lo rtsym 0 v) s = Some (Inr (), s') \<and> run D (nfp_rtsym_readq lo rtsym 0) s' = Some (Inr v, s'')"
proof -
  obtain cpp_id a where dest: "dest = (cpp_id, a)" by fastforce
  have sz: "nfp_rtsym_size rtsym = 8" "sym_type rtsym = NFP_RTSYM_TYPE_OBJECT"
    using object_size [OF d(1)] d by (auto simp: nfp_rtsym_to_dest_def split: if_splits)
  obtain s' where s': "dev_write D cpp_id a (put_unaligned_le64 v) s = (Inr 8, s')"
      "map (\<lambda>j. byte s' cpp_id (a + of_nat j)) [0..<8] = put_unaligned_le64 v"
    using plain_write [OF D, of "put_unaligned_le64 v" cpp_id a s] by auto
  obtain s'' where "dev_read D cpp_id a 8 s' = (Inr (put_unaligned_le64 v), s'')"
    using plain_read [OF D, of cpp_id a 8 s'] s'(2) by metis
  with s'(1) sz d(1) show ?thesis
    by (simp add: nfp_rtsym_writeq_def nfp_rtsym_writeq_at_def nfp_rtsym_readq_def nfp_rtsym_readq_at_def nfp_cpp_writeq_def nfp_cpp_readq_def dest)
qed

text \<open>C28. Writing a scalar symbol by name and reading it back gives the value, cut to the 32 bits of a symbol of
  four bytes.\<close>

theorem rtsym_le_roundtrip:
  assumes D: "plain_memory D byte" and l: "nfp_rtsym_lookup rtbl name = Some rtsym"
    and d: "nfp_rtsym_to_dest lo rtsym RTSYM_ACTION 0 0 = Inr dest" and sz: "sym_size rtsym = 4 \<or> sym_size rtsym = 8"
  shows "\<exists>s' s''. run D (nfp_rtsym_write_le lo rtbl name v) s = Some (Inr (), s') \<and>
    run D (nfp_rtsym_read_le lo rtbl name) s' = Some ((if sym_size rtsym = 8 then v else take_bit 32 v, None), s'')"
proof (cases "sym_size rtsym = 8")
  case True
  then show ?thesis
    using writeq_readq [OF D d True, of v s] object_size [OF d] l
    by (auto simp: nfp_rtsym_write_le_def nfp_rtsym_read_le_def run_bind)
next
  case False
  then have s4: "sym_size rtsym = 4" using sz by simp
  have "ucast (ucast v :: u32) = take_bit 32 v" by (rule bit_word_eqI) (auto simp: bit_simps)
  then show ?thesis
    using writel_readl [OF D d s4, of "ucast v" s] object_size [OF d] l s4
    by (auto simp: nfp_rtsym_write_le_def nfp_rtsym_read_le_def run_bind)
qed


section \<open>The firmware table is released\<close>

text \<open>Reads of more than a word have no effect on the words of the memory unit: its test-and-set is a command for
  one word.\<close>

definition long_reads :: "'s device \<Rightarrow> ('s \<Rightarrow> u64 \<Rightarrow> u32) \<Rightarrow> bool" where
  "long_reads D word \<longleftrightarrow> (\<forall>cpp_id a n s. n \<noteq> 4 \<longrightarrow> word (snd (dev_read D cpp_id a n s)) = word s)"

lemma long_readsD:
  assumes "long_reads D word" "n \<noteq> 4" "dev_read D cpp_id a n s = (r, s')"
  shows "word s' = word s"
proof -
  have "word (snd (dev_read D cpp_id a n s)) = word s" using assms(1,2) unfolding long_reads_def by blast
  then show ?thesis by (simp add: assms(3))
qed

text \<open>A program that returns and leaves the words as they are.\<close>

definition keeps_words :: "'s device \<Rightarrow> ('s \<Rightarrow> u64 \<Rightarrow> u32) \<Rightarrow> 'a cppm \<Rightarrow> bool" where
  "keeps_words D word p \<longleftrightarrow> (\<forall>s. \<exists>r s'. run D p s = Some (r, s') \<and> word s' = word s)"

lemma keeps_try_read: "long_reads D word \<Longrightarrow> keeps_words D word (nfp_mip_try_read cpp_id addr)"
proof (unfold keeps_words_def, intro allI)
  fix s assume l: "long_reads D word"
  obtain r s' where r: "dev_read D cpp_id addr sizeof_mip s = (r, s')" by fastforce
  have "word s' = word s" using l _ r by (rule long_readsD) (simp add: sizeof_mip_def)
  with r show "\<exists>r s'. run D (nfp_mip_try_read cpp_id addr) s = Some (r, s') \<and> word s' = word s"
    by (auto simp: nfp_mip_try_read_def split: sum.split)
qed

text \<open>C25. Looking for the information page of the firmware takes the resource of the firmware table and gives it
  back whatever the table and the page contain: afterwards its mutex and that of the resource table are unlocked
  and no other word has changed.\<close>

theorem mip_open_releases:
  assumes D: "mu_device D word" "long_reads D word" "NFP_CPP_INTERFACE_TYPE_of interface \<noteq> NFP_CPP_INTERFACE_TYPE_INVALID"
    and res: "resource_key crc32_be NFP_RESOURCE_NFP_NFFW \<noteq> NFP_RESOURCE_TBL_KEY" "env_ok env" "table_free (word s)"
      "table_find (word s) (resource_key crc32_be NFP_RESOURCE_NFP_NFFW) [0..<NFP_RESOURCE_TBL_ENTRIES] = Some i"
      "nfp_mutex_is_unlocked (word s (entry_addr i))"
  shows "\<exists>r s'. run D (nfp_mip_open crc32_be env True True lo interface) s = Some (r, s') \<and>
    word s' = (word s)(entry_addr i := nfp_mutex_unlocked interface, NFP_RESOURCE_TBL_BASE := nfp_mutex_unlocked interface)"
proof -
  let ?w = "(word s)(entry_addr i := nfp_mutex_unlocked interface, NFP_RESOURCE_TBL_BASE := nfp_mutex_unlocked interface)"
  have name: "c_str (strscpy_name NFP_RESOURCE_NFP_NFFW) \<noteq> NFP_RESOURCE_TBL_NAME"
    by (simp add: c_str_def strscpy_name_def NFP_RESOURCE_NFP_NFFW_def NFP_RESOURCE_TBL_NAME_def NFP_RESOURCE_ENTRY_NAME_SZ_def)
  obtain h s1 where s1: "run D (nfp_resource_acquire crc32_be env interface NFP_RESOURCE_NFP_NFFW) s = Some (Inr h, s1)"
      "\<And>t. word t = word s1 \<Longrightarrow> \<exists>t'. run D (nfp_resource_release interface h) t = Some ((), t') \<and> word t' = ?w"
    using acquire_release_run [OF D(1,3) name res] by blast
  have err: "\<exists>t'. run D (nffw_err_release interface h) t = Some (Inl EIO, t') \<and> word t' = ?w" if "word t = word s1" for t
    using s1(2) [OF that] by (auto simp: nffw_err_release_def run_bind)
  obtain r s2 where r: "dev_read D (res_cpp_id h) (res_addr h) sizeof_nffw_info_data s1 = (r, s2)" by fastforce
  have "sizeof_nffw_info_data \<noteq> 4" by (simp add: sizeof_nffw_info_data_def NFFW_MEINFO_CNT_V2_def NFFW_FWINFO_CNT_V2_def)
  then have s2: "word s2 = word s1" using r by (rule long_readsD [OF D(2)])
  have op: "\<exists>x t. run D (nfp_nffw_info_open crc32_be env True interface) s = Some (x, t) \<and>
      (case x of Inl _ \<Rightarrow> word t = ?w | Inr state \<Rightarrow> fst state = h \<and> word t = word s1)"
  proof -
    obtain t1 where t1: "run D (nffw_err_release interface h) s1 = Some (Inl EIO, t1)" "word t1 = ?w" using err [of s1] by blast
    obtain t2 where t2: "run D (nffw_err_release interface h) s2 = Some (Inl EIO, t2)" "word t2 = ?w" using err [OF s2] by blast
    show ?thesis
    proof (cases r)
      case (Inl e)
      with t1 t2 r show ?thesis by (simp add: nfp_nffw_info_open_def run_bind s1(1))
    next
      case (Inr fwinf)
      with t1 t2 r s2 show ?thesis by (simp add: nfp_nffw_info_open_def run_bind s1(1))
    qed
  qed
  then obtain x t where x: "run D (nfp_nffw_info_open crc32_be env True interface) s = Some (x, t)"
      "case x of Inl _ \<Rightarrow> word t = ?w | Inr state \<Rightarrow> fst state = h \<and> word t = word s1" by blast
  have "\<exists>r s'. run D (nfp_mip_read_resource crc32_be env True lo interface) s = Some (r, s') \<and> word s' = ?w"
  proof (cases x)
    case (Inl e)
    with x show ?thesis by (simp add: nfp_mip_read_resource_def run_bind)
  next
    case (Inr state)
    let ?p = "case nfp_nffw_info_mip_first lo (snd state) of Inl err \<Rightarrow> Return (Inl err) | Inr (cpp_id, addr) \<Rightarrow> nfp_mip_try_read cpp_id addr"
    have "keeps_words D word ?p"
    proof (cases "nfp_nffw_info_mip_first lo (snd state)")
      case (Inr d)
      then show ?thesis using keeps_try_read [OF D(2)] by (cases d) simp
    qed (simp add: keeps_words_def)
    then have "\<exists>r t'. run D ?p t = Some (r, t') \<and> word t' = word t" unfolding keeps_words_def by (rule spec)
    moreover have st: "fst state = h" "word t = word s1" using x(2) Inr by simp_all
    ultimately obtain r t1 where t1: "run D ?p t = Some (r, t1)" "word t1 = word s1" by auto
    obtain t2 where t2: "run D (nfp_resource_release interface h) t1 = Some ((), t2)" "word t2 = ?w" using s1(2) [OF t1(2)] by blast
    have "run D (nfp_mip_read_resource crc32_be env True lo interface) s = Some (r, t2)"
      using x(1) Inr t1(1) t2(1) by (simp add: nfp_mip_read_resource_def run_bind nfp_nffw_info_close_def st(1))
    with t2(2) show ?thesis by blast
  qed
  then obtain r s' where "run D (nfp_mip_read_resource crc32_be env True lo interface) s = Some (r, s')" "word s' = ?w" by blast
  then show ?thesis by (simp add: nfp_mip_open_def run_bind)
qed

section \<open>Witnesses\<close>

lemma byte_memory_plain: "plain_memory byte_memory (\<lambda>m. m)"
  by (auto simp: plain_memory_def byte_memory_def unat_of_nat)

text \<open>An information page with a symbol table of one entry and a string table of eight bytes.\<close>

definition sample_mip :: "u8 list" where
  "sample_mip = replicate 32 0 @ put_unaligned_le32 0x100 @ put_unaligned_le32 16 @ put_unaligned_le32 0x200 @ put_unaligned_le32 8"


definition sample_rtsym :: nfp_rtsym where
  "sample_rtsym = \<lparr> sym_name = 0, sym_addr = 0x1000, sym_size = 8, sym_type = NFP_RTSYM_TYPE_OBJECT, sym_target = 7, sym_domain = 24 \<rparr>"


theorem rtsym_le_roundtrip_witness:
  "\<exists>s' s''. run byte_memory (nfp_rtsym_write_le 38 (Some \<lparr> rtbl_strtab = [0x61, 0], rtbl_symtab = [sample_rtsym] \<rparr>) [0x61] 5) (\<lambda>_ _. 0) =
       Some (Inr (), s') \<and>
     run byte_memory (nfp_rtsym_read_le 38 (Some \<lparr> rtbl_strtab = [0x61, 0], rtbl_symtab = [sample_rtsym] \<rparr>) [0x61]) s' = Some ((5, None), s'')"
proof -
  let ?t = "Some \<lparr> rtbl_strtab = [0x61, 0], rtbl_symtab = [sample_rtsym] \<rparr>"
  have l: "nfp_rtsym_lookup ?t [0x61] = Some sample_rtsym"
    by (simp add: nfp_rtsym_lookup_def rtsym_string_def c_str_def sample_rtsym_def)
  have d: "nfp_rtsym_to_dest 38 sample_rtsym RTSYM_ACTION 0 0 = Inr (NFP_CPP_ISLAND_ID 7 32 0 24, 0x1000)"
    by (simp add: nfp_rtsym_to_dest_def sample_rtsym_def NFP_RTSYM_TARGET_EMU_CACHE_def NFP_CPP_ACTION_RW_def)
  show ?thesis using rtsym_le_roundtrip [OF byte_memory_plain l d, of 5 "\<lambda>_ _. 0"] by (simp add: sample_rtsym_def)
qed

text \<open>A memory unit whose test-and-set acts on single words only, and a resource table with the firmware table.\<close>

definition word_memory :: "(u64 \<Rightarrow> u32) device" where
  "word_memory = mu_memory\<lparr> dev_read := (\<lambda>cpp_id a n m. if n = 4 then dev_read mu_memory cpp_id a n m else (fst (dev_read mu_memory cpp_id a n m), m)) \<rparr>"

lemma word_memory_laws: "mu_device word_memory (\<lambda>s. s)" "long_reads word_memory (\<lambda>s. s)"
proof -
  show "long_reads word_memory (\<lambda>s. s)" by (simp add: long_reads_def word_memory_def)
  have "atomic_engine word_memory (\<lambda>s. s)" "responsive word_memory"
    using mutex_ids_distinct by (auto simp: atomic_engine_def responsive_def word_memory_def mu_memory_def)
  moreover have "block_reads word_memory (\<lambda>s. s)"
    unfolding block_reads_def
  proof (intro allI)
    fix a n s
    let ?id = "atomic_read_id NFP_CPP_TARGET_MU"
    obtain bs where bs: "dev_read mu_memory ?id a (4 * n) s = (Inr bs, s)" "length bs = 4 * n"
        "\<forall>j<n. get_unaligned_le32 (drop (4 * j) bs) = s (a + 4 * of_nat j)"
      using mu_memory_blocks unfolding block_reads_def by blast
    then have "dev_read word_memory ?id a (4 * n) s = (Inr bs, s)" by (cases "n = 1") (simp_all add: word_memory_def)
    with bs show "\<exists>bs s'. dev_read word_memory ?id a (4 * n) s = (Inr bs, s') \<and> length bs = 4 * n \<and> s' = s \<and>
        (\<forall>j<n. get_unaligned_le32 (drop (4 * j) bs) = s (a + 4 * of_nat j))" by blast
  qed
  ultimately show "mu_device word_memory (\<lambda>s. s)" by (simp add: mu_device_def)
qed

abbreviation sample_fw_table :: "u64 \<Rightarrow> u32" where
  "sample_fw_table \<equiv> (\<lambda>_. 0)(0x8100000024 := 1835634454, 0x8100000034 := 0x07020100, 0x8100000038 := 0x10, 0x810000003c := 0x10)"

lemma sample_fw_key: "resource_key sample_crc NFP_RESOURCE_NFP_NFFW = 1835634454"
  by code_simp

theorem mip_open_releases_witness:
  "\<exists>r s'. run word_memory (nfp_mip_open sample_crc sample_env True True 38 0x1000) sample_fw_table = Some (r, s') \<and>
     s' 0x8100000020 = 0x10000000"
proof -
  have "[0..<NFP_RESOURCE_TBL_ENTRIES] = 0 # 1 # [2..<128]" by (simp add: upt_conv_Cons numeral_2_eq_2)
  then have f: "table_find sample_fw_table (resource_key sample_crc NFP_RESOURCE_NFP_NFFW) [0..<NFP_RESOURCE_TBL_ENTRIES] = Some 1"
    by (simp add: table_find_def sample_fw_key sample_addr)
  have k: "resource_key sample_crc NFP_RESOURCE_NFP_NFFW \<noteq> NFP_RESOURCE_TBL_KEY"
    by (simp add: sample_fw_key NFP_RESOURCE_TBL_KEY_def)
  have t: "table_free sample_fw_table" "nfp_mutex_is_unlocked (sample_fw_table (entry_addr 1))" "env_ok sample_env"
    by (simp_all add: table_free_def sample_addr sample_lock NFP_RESOURCE_TBL_KEY_def env_ok_def)
  obtain r s' where "run word_memory (nfp_mip_open sample_crc sample_env True True 38 0x1000) sample_fw_table = Some (r, s')"
      "s' = sample_fw_table(entry_addr 1 := nfp_mutex_unlocked 0x1000, NFP_RESOURCE_TBL_BASE := nfp_mutex_unlocked 0x1000)"
    using mip_open_releases [where word = "\<lambda>s. s", OF word_memory_laws sample_interface k t(3,1) f t(2), of 38] by blast
  moreover from this(2) have "s' 0x8100000020 = 0x10000000" by (simp add: sample_addr sample_lock)
  ultimately show ?thesis by blast
qed

text \<open>The largest sizes round up to zero, the modulus of the symbol names.\<close>

lemma round_up_8_wraps: "round_up_8 0xfffffff9 = 0" "round_up_8 0xffffffff = 0"
  by (simp_all add: round_up_8_def)

end
