(* ===== verification/NFP_Nsp.thy ===== *)
theory NFP_Nsp
  imports NFP_Rtsym
begin

text \<open>
  The service processor (\<^verbatim>\<open>src/nfpcore/nfp_nsp.c\<close>, \<^verbatim>\<open>src/nfpcore/nfp_nsp.h\<close>,
  \<^verbatim>\<open>src/nfpcore/nfp_nsp_cmds.c\<close>): the handshake of a command over three registers, commands with a buffer
  in device memory or in scattered host memory, and the commands themselves.  A C function that returns a
  count, a negative error number or the negated result code of the processor returns an \<open>int\<close>, because callers
  tell these apart by sign and value only.  Waiting has the number of polls before the deadline as a
  parameter; what the processor leaves in host memory, allocations and DMA mappings are parameters as well.
\<close>

section \<open>Registers and state\<close>

text \<open>The error numbers as the kernel counts them.\<close>

fun errno_val :: "errno \<Rightarrow> int" where
  "errno_val EPERM = 1"
| "errno_val ENOENT = 2"
| "errno_val EIO = 5"
| "errno_val ENXIO = 6"
| "errno_val E2BIG = 7"
| "errno_val EAGAIN = 11"
| "errno_val ENOMEM = 12"
| "errno_val EACCES = 13"
| "errno_val EFAULT = 14"
| "errno_val EBUSY = 16"
| "errno_val EEXIST = 17"
| "errno_val ENODEV = 19"
| "errno_val EINVAL = 22"
| "errno_val ENOSPC = 28"
| "errno_val ERANGE = 34"
| "errno_val ENODATA = 61"
| "errno_val EMSGSIZE = 90"
| "errno_val EOPNOTSUPP = 95"
| "errno_val ENOBUFS = 105"
| "errno_val ETIMEDOUT = 110"
| "errno_val ERESTARTSYS = 512"

definition NSP_STATUS :: u64 where "NSP_STATUS = 0x00"
definition NSP_STATUS_MAGIC :: u64 where "NSP_STATUS_MAGIC = GENMASK_ULL 63 48"
definition NSP_STATUS_MAJOR :: u64 where "NSP_STATUS_MAJOR = GENMASK_ULL 47 44"
definition NSP_STATUS_MINOR :: u64 where "NSP_STATUS_MINOR = GENMASK_ULL 43 32"
definition NSP_STATUS_RESULT :: u64 where "NSP_STATUS_RESULT = GENMASK_ULL 15 8"
definition NSP_STATUS_BUSY :: u64 where "NSP_STATUS_BUSY = BIT_ULL 0"

definition NSP_COMMAND :: u64 where "NSP_COMMAND = 0x08"
definition NSP_COMMAND_OPTION :: u64 where "NSP_COMMAND_OPTION = GENMASK_ULL 63 32"
definition NSP_COMMAND_CODE :: u64 where "NSP_COMMAND_CODE = GENMASK_ULL 31 16"
definition NSP_COMMAND_DMA_BUF :: u64 where "NSP_COMMAND_DMA_BUF = BIT_ULL 1"
definition NSP_COMMAND_START :: u64 where "NSP_COMMAND_START = BIT_ULL 0"

definition NSP_BUFFER :: u64 where "NSP_BUFFER = 0x10"
definition NSP_BUFFER_CPP :: u64 where "NSP_BUFFER_CPP = GENMASK_ULL 63 40"
definition NSP_BUFFER_ADDRESS :: u64 where "NSP_BUFFER_ADDRESS = GENMASK_ULL 39 0"

definition NSP_DFLT_BUFFER :: u64 where "NSP_DFLT_BUFFER = 0x18"
definition NSP_DFLT_BUFFER_CPP :: u64 where "NSP_DFLT_BUFFER_CPP = GENMASK_ULL 63 40"
definition NSP_DFLT_BUFFER_ADDRESS :: u64 where "NSP_DFLT_BUFFER_ADDRESS = GENMASK_ULL 39 0"

definition NSP_DFLT_BUFFER_CONFIG :: u64 where "NSP_DFLT_BUFFER_CONFIG = 0x20"
definition NSP_DFLT_BUFFER_DMA_CHUNK_ORDER :: u64 where "NSP_DFLT_BUFFER_DMA_CHUNK_ORDER = GENMASK_ULL 63 58"
definition NSP_DFLT_BUFFER_SIZE_4KB :: u64 where "NSP_DFLT_BUFFER_SIZE_4KB = GENMASK_ULL 15 8"
definition NSP_DFLT_BUFFER_SIZE_MB :: u64 where "NSP_DFLT_BUFFER_SIZE_MB = GENMASK_ULL 7 0"

definition NFP_CAP_CMD_DMA_SG :: u64 where "NFP_CAP_CMD_DMA_SG = 0x28"

definition NSP_MAGIC :: u64 where "NSP_MAGIC = 0xab10"
definition NSP_MAJOR :: u16 where "NSP_MAJOR = 0"
definition NSP_MINOR :: u16 where "NSP_MINOR = 8"

definition NFP_NSP_TIMEOUT_DEFAULT :: u32 where "NFP_NSP_TIMEOUT_DEFAULT = 30"

datatype nfp_nsp_cmd =
    SPCODE_NOOP | SPCODE_SOFT_RESET | SPCODE_FW_DEFAULT | SPCODE_PHY_INIT | SPCODE_MAC_INIT | SPCODE_PHY_RXADAPT
  | SPCODE_FW_LOAD | SPCODE_ETH_RESCAN | SPCODE_ETH_CONTROL | SPCODE_NSP_WRITE_FLASH | SPCODE_NSP_SENSORS
  | SPCODE_NSP_IDENTIFY | SPCODE_FW_STORED | SPCODE_HWINFO_LOOKUP | SPCODE_HWINFO_SET | SPCODE_FW_LOADED
  | SPCODE_VERSIONS | SPCODE_READ_SFF_EEPROM | SPCODE_READ_MEDIA

fun nfp_nsp_cmd_val :: "nfp_nsp_cmd \<Rightarrow> u16" where
  "nfp_nsp_cmd_val SPCODE_NOOP = 0"
| "nfp_nsp_cmd_val SPCODE_SOFT_RESET = 1"
| "nfp_nsp_cmd_val SPCODE_FW_DEFAULT = 2"
| "nfp_nsp_cmd_val SPCODE_PHY_INIT = 3"
| "nfp_nsp_cmd_val SPCODE_MAC_INIT = 4"
| "nfp_nsp_cmd_val SPCODE_PHY_RXADAPT = 5"
| "nfp_nsp_cmd_val SPCODE_FW_LOAD = 6"
| "nfp_nsp_cmd_val SPCODE_ETH_RESCAN = 7"
| "nfp_nsp_cmd_val SPCODE_ETH_CONTROL = 8"
| "nfp_nsp_cmd_val SPCODE_NSP_WRITE_FLASH = 11"
| "nfp_nsp_cmd_val SPCODE_NSP_SENSORS = 12"
| "nfp_nsp_cmd_val SPCODE_NSP_IDENTIFY = 13"
| "nfp_nsp_cmd_val SPCODE_FW_STORED = 16"
| "nfp_nsp_cmd_val SPCODE_HWINFO_LOOKUP = 17"
| "nfp_nsp_cmd_val SPCODE_HWINFO_SET = 18"
| "nfp_nsp_cmd_val SPCODE_FW_LOADED = 19"
| "nfp_nsp_cmd_val SPCODE_VERSIONS = 21"
| "nfp_nsp_cmd_val SPCODE_READ_SFF_EEPROM = 22"
| "nfp_nsp_cmd_val SPCODE_READ_MEDIA = 23"

text \<open>\<open>entries\<close> is the port table that a configuration in progress works on.\<close>

record nfp_nsp =
  nsp_res :: nfp_resource
  ver_major :: u16
  ver_minor :: u16
  nsp_modified :: bool
  nsp_idx :: u32
  nsp_entries :: "u8 list option"

text \<open>The callbacks of the source only choose a log message and are left out.\<close>

record nfp_nsp_command_arg =
  cmd_code :: u16
  cmd_dma :: bool
  cmd_timeout_sec :: u32
  cmd_option :: u32
  cmd_buf :: u64

text \<open>A pointer is the bytes from there on, at least as many as the size says.\<close>

record nfp_nsp_command_buf_arg =
  buf_cmd :: nfp_nsp_command_arg
  in_buf :: "u8 list option"
  in_size :: u32
  out_buf :: "u8 list option"
  out_size :: u32

definition nfp_nsp_config_modified :: "nfp_nsp \<Rightarrow> bool" where
  "nfp_nsp_config_modified state = nsp_modified state"

definition nfp_nsp_config_set_modified :: "nfp_nsp \<Rightarrow> bool \<Rightarrow> nfp_nsp" where
  "nfp_nsp_config_set_modified state modified = state\<lparr> nsp_modified := modified \<rparr>"

definition nfp_nsp_config_entries :: "nfp_nsp \<Rightarrow> u8 list option" where
  "nfp_nsp_config_entries state = nsp_entries state"

definition nfp_nsp_config_idx :: "nfp_nsp \<Rightarrow> u32" where
  "nfp_nsp_config_idx state = nsp_idx state"

definition nfp_nsp_config_set_state :: "nfp_nsp \<Rightarrow> u8 list option \<Rightarrow> u32 \<Rightarrow> nfp_nsp" where
  "nfp_nsp_config_set_state state entries idx = state\<lparr> nsp_entries := entries, nsp_idx := idx \<rparr>"

definition nfp_nsp_config_clear_state :: "nfp_nsp \<Rightarrow> nfp_nsp" where
  "nfp_nsp_config_clear_state state = state\<lparr> nsp_entries := None, nsp_idx := 0 \<rparr>"

definition nfp_nsp_get_abi_ver_major :: "nfp_nsp \<Rightarrow> u16" where
  "nfp_nsp_get_abi_ver_major state = ver_major state"

definition nfp_nsp_get_abi_ver_minor :: "nfp_nsp \<Rightarrow> u16" where
  "nfp_nsp_get_abi_ver_minor state = ver_minor state"

section \<open>Commands\<close>

definition nfp_nsp_check :: "nfp_nsp \<Rightarrow> (int \<times> nfp_nsp) cppm" where
  "nfp_nsp_check state =
     nfp_cpp_readq (res_cpp_id (nsp_res state)) (res_addr (nsp_res state) + NSP_STATUS)
       (\<lambda>r. case r of
          Inl err \<Rightarrow> Return (- errno_val err, state)
        | Inr reg \<Rightarrow>
            if FIELD_GET NSP_STATUS_MAGIC reg \<noteq> NSP_MAGIC then Return (- errno_val ENODEV, state)
            else
              let state = state\<lparr> ver_major := ucast (FIELD_GET NSP_STATUS_MAJOR reg),
                                 ver_minor := ucast (FIELD_GET NSP_STATUS_MINOR reg) \<rparr> in
              if ver_major state \<noteq> NSP_MAJOR then Return (- errno_val EINVAL, state)
              else if ver_minor state < NSP_MINOR then Return (- errno_val EINVAL, state)
              else if reg AND NSP_STATUS_BUSY \<noteq> 0 then Return (- errno_val EBUSY, state)
              else Return (0, state))"

text \<open>The bytes of \<open>"nfp.sp"\<close>.\<close>

definition NFP_RESOURCE_NSP :: "u8 list" where
  "NFP_RESOURCE_NSP = [0x6e, 0x66, 0x70, 0x2e, 0x73, 0x70]"

definition nfp_nsp_close :: "u16 \<Rightarrow> nfp_nsp \<Rightarrow> unit cppm" where
  "nfp_nsp_close interface state = nfp_resource_release interface (nsp_res state)"

definition nfp_nsp_open ::
  "(u32 \<Rightarrow> u8 list \<Rightarrow> u32) \<Rightarrow> acquire_env \<Rightarrow> bool \<Rightarrow> u16 \<Rightarrow> (int + nfp_nsp) cppm" where
  "nfp_nsp_open crc32_be env alloc_ok interface =
     cpp_bind (nfp_resource_acquire crc32_be env interface NFP_RESOURCE_NSP)
       (\<lambda>r. case r of
          Inl err \<Rightarrow> Return (Inl (- errno_val err))
        | Inr res \<Rightarrow>
            if \<not> alloc_ok then
              cpp_bind (nfp_resource_release interface res) (\<lambda>_. Return (Inl (- errno_val ENOMEM)))
            else
              let state = \<lparr> nsp_res = res, ver_major = 0, ver_minor = 0, nsp_modified = False, nsp_idx = 0,
                            nsp_entries = None \<rparr> in
              cpp_bind (nfp_nsp_check state)
                (\<lambda>(err, state).
                   if err \<noteq> 0 then cpp_bind (nfp_nsp_close interface state) (\<lambda>_. Return (Inl err))
                   else Return (Inr state)))"

text \<open>\<open>polls\<close> is how often the loop goes on before the deadline.\<close>

primrec nfp_nsp_wait_reg :: "nat \<Rightarrow> u32 \<Rightarrow> u64 \<Rightarrow> u64 \<Rightarrow> u64 \<Rightarrow> u64 result cppm" where
  "nfp_nsp_wait_reg 0 nsp_cpp addr msk val =
     nfp_cpp_readq nsp_cpp addr
       (\<lambda>r. case r of
          Inl err \<Rightarrow> Return (Inl err)
        | Inr reg \<Rightarrow> if reg AND msk = val then Return (Inr reg) else Return (Inl ETIMEDOUT))"
| "nfp_nsp_wait_reg (Suc polls) nsp_cpp addr msk val =
     nfp_cpp_readq nsp_cpp addr
       (\<lambda>r. case r of
          Inl err \<Rightarrow> Return (Inl err)
        | Inr reg \<Rightarrow> if reg AND msk = val then Return (Inr reg) else nfp_nsp_wait_reg polls nsp_cpp addr msk val)"

text \<open>The clock during a command: how often each of the two waits polls within so many seconds.\<close>

record nsp_clock =
  start_polls :: "u32 \<Rightarrow> nat"
  busy_polls :: "u32 \<Rightarrow> nat"

definition nsp_command_word :: "nfp_nsp_command_arg \<Rightarrow> u64" where
  "nsp_command_word arg =
     FIELD_PREP NSP_COMMAND_OPTION (ucast (cmd_option arg)) OR FIELD_PREP NSP_COMMAND_CODE (ucast (cmd_code arg)) OR
     FIELD_PREP NSP_COMMAND_DMA_BUF (of_bool (cmd_dma arg)) OR FIELD_PREP NSP_COMMAND_START 1"

text \<open>The end of \<open>__nfp_nsp_command\<close>: the result code, or the option field as a C \<open>int\<close>.\<close>

definition nsp_command_result :: "u64 \<Rightarrow> u64 \<Rightarrow> int" where
  "nsp_command_result reg ret_val =
     (if FIELD_GET NSP_STATUS_RESULT reg \<noteq> 0 then - uint (FIELD_GET NSP_STATUS_RESULT reg)
      else sint (ucast (FIELD_GET NSP_COMMAND_OPTION ret_val) :: u32))"

definition raw_nfp_nsp_command :: "nsp_clock \<Rightarrow> nfp_nsp \<Rightarrow> nfp_nsp_command_arg \<Rightarrow> (int \<times> nfp_nsp) cppm" where
  "raw_nfp_nsp_command clk state arg =
     (let nsp_cpp = res_cpp_id (nsp_res state); nsp_base = res_addr (nsp_res state);
          nsp_status = nsp_base + NSP_STATUS; nsp_command = nsp_base + NSP_COMMAND; nsp_buffer = nsp_base + NSP_BUFFER in
      cpp_bind (nfp_nsp_check state)
        (\<lambda>(err, state).
           if err \<noteq> 0 then Return (err, state)
           else
             nfp_cpp_writeq nsp_cpp nsp_buffer (cmd_buf arg)
               (\<lambda>r. case r of
                  Inl err \<Rightarrow> Return (- errno_val err, state)
                | Inr _ \<Rightarrow>
                    nfp_cpp_writeq nsp_cpp nsp_command (nsp_command_word arg)
                      (\<lambda>r. case r of
                         Inl err \<Rightarrow> Return (- errno_val err, state)
                       | Inr _ \<Rightarrow>
                           cpp_bind (nfp_nsp_wait_reg (start_polls clk NFP_NSP_TIMEOUT_DEFAULT) nsp_cpp nsp_command NSP_COMMAND_START 0)
                             (\<lambda>r. case r of
                                Inl err \<Rightarrow> Return (- errno_val err, state)
                              | Inr _ \<Rightarrow>
                                  cpp_bind (nfp_nsp_wait_reg
                                      (busy_polls clk (if cmd_timeout_sec arg \<noteq> 0 then cmd_timeout_sec arg else NFP_NSP_TIMEOUT_DEFAULT))
                                      nsp_cpp nsp_status NSP_STATUS_BUSY 0)
                                    (\<lambda>r. case r of
                                       Inl err \<Rightarrow> Return (- errno_val err, state)
                                     | Inr reg \<Rightarrow>
                                         nfp_cpp_readq nsp_cpp nsp_command
                                           (\<lambda>r. case r of
                                              Inl err \<Rightarrow> Return (- errno_val err, state)
                                            | Inr ret_val \<Rightarrow> Return (nsp_command_result reg ret_val, state))))))))"

definition command_arg :: "nfp_nsp_cmd \<Rightarrow> u32 \<Rightarrow> nfp_nsp_command_arg" where
  "command_arg code option_val =
     \<lparr> cmd_code = nfp_nsp_cmd_val code, cmd_dma = False, cmd_timeout_sec = 0, cmd_option = option_val, cmd_buf = 0 \<rparr>"

definition nfp_nsp_command :: "nsp_clock \<Rightarrow> nfp_nsp \<Rightarrow> nfp_nsp_cmd \<Rightarrow> (int \<times> nfp_nsp) cppm" where
  "nfp_nsp_command clk state code = raw_nfp_nsp_command clk state (command_arg code 0)"

section \<open>Commands with a buffer in device memory\<close>

text \<open>A transfer is refused only by an error; a short count is accepted.\<close>

definition write_when :: "bool \<Rightarrow> u32 \<Rightarrow> u64 \<Rightarrow> u8 list \<Rightarrow> unit result cppm" where
  "write_when c cpp_id addr bs =
     (if c then Cpp_write cpp_id addr bs (\<lambda>r. case r of Inl err \<Rightarrow> Return (Inl err) | Inr _ \<Rightarrow> Return (Inr ()))
      else Return (Inr ()))"

definition has_bytes :: "u8 list option \<Rightarrow> u32 \<Rightarrow> bool" where
  "has_bytes buf n \<longleftrightarrow> buf \<noteq> None \<and> n \<noteq> 0"

definition nfp_nsp_command_buf_dflt ::
  "nsp_clock \<Rightarrow> nfp_nsp \<Rightarrow> nfp_nsp_command_buf_arg \<Rightarrow> (int \<times> nfp_nsp \<times> u8 list option) cppm" where
  "nfp_nsp_command_buf_dflt clk nsp arg =
     nfp_cpp_readq (res_cpp_id (nsp_res nsp)) (res_addr (nsp_res nsp) + NSP_DFLT_BUFFER)
       (\<lambda>r. case r of
          Inl err \<Rightarrow> Return (- errno_val err, nsp, out_buf arg)
        | Inr reg \<Rightarrow>
            let cpp_id = push_bit 8 (ucast (FIELD_GET NSP_DFLT_BUFFER_CPP reg)) :: u32;
                cpp_buf = FIELD_GET NSP_DFLT_BUFFER_ADDRESS reg in
            cpp_bind (write_when (has_bytes (in_buf arg) (in_size arg)) cpp_id cpp_buf
                        (take (unat (in_size arg)) (the (in_buf arg))))
              (\<lambda>r. case r of
                 Inl err \<Rightarrow> Return (- errno_val err, nsp, out_buf arg)
               | Inr _ \<Rightarrow>
                   cpp_bind (write_when (has_bytes (out_buf arg) (out_size arg) \<and> in_size arg < out_size arg) cpp_id
                               (cpp_buf + ucast (in_size arg))
                               (take (unat (out_size arg) - unat (in_size arg)) (the (out_buf arg))))
                     (\<lambda>r. case r of
                        Inl err \<Rightarrow> Return (- errno_val err, nsp, out_buf arg)
                      | Inr _ \<Rightarrow>
                          if \<not> FIELD_FIT NSP_BUFFER_CPP (ucast (drop_bit 8 cpp_id)) \<or> \<not> FIELD_FIT NSP_BUFFER_ADDRESS cpp_buf
                          then Return (- errno_val EINVAL, nsp, out_buf arg)
                          else
                            cpp_bind (raw_nfp_nsp_command clk nsp
                                ((buf_cmd arg)\<lparr> cmd_buf := FIELD_PREP NSP_BUFFER_CPP (ucast (drop_bit 8 cpp_id)) OR
                                                            FIELD_PREP NSP_BUFFER_ADDRESS cpp_buf \<rparr>))
                              (\<lambda>(ret, nsp).
                                 if ret < 0 then Return (ret, nsp, out_buf arg)
                                 else if has_bytes (out_buf arg) (out_size arg) then
                                   Cpp_read cpp_id cpp_buf (unat (out_size arg))
                                     (\<lambda>r. case r of
                                        Inl err \<Rightarrow> Return (- errno_val err, nsp, out_buf arg)
                                      | Inr bs \<Rightarrow>
                                          Return (ret, nsp, Some (bs @ drop (length bs) (the (out_buf arg)))))
                                 else Return (ret, nsp, out_buf arg)))))"

section \<open>Commands with a buffer in host memory\<close>

text \<open>What the kernel and the processor do during a scatter-gather command: the outcome of the allocations and
  mappings, and the contents that the processor leaves in the chunks of the descriptor.\<close>

record nfp_nsp_dma_buf =
  dma_chunk_cnt :: nat
  dma_descs :: "(u32 \<times> u64) list"

record dma_env =
  chunks_alloc_ok :: bool
  chunk_alloc_ok :: "nat \<Rightarrow> bool"
  map_chunk :: "nat \<Rightarrow> u64 option"
  desc_alloc_ok :: bool
  map_desc :: "u64 option"
  dma_fill :: "nfp_nsp_dma_buf \<Rightarrow> u8 list list \<Rightarrow> u8 list list"

text \<open>The calls that take or give back memory and mappings, in their order.\<close>

datatype dma_obj = Chunk_array | Chunk nat | Dma_desc

datatype dma_call = Kalloc dma_obj | Dma_map dma_obj | Dma_unmap dma_obj | Kfree dma_obj

record sg_chunk =
  chunk_len :: nat
  chunk_data :: "u8 list"

text \<open>The first loop: allocate the chunks and copy the input to them, the rest is zero.  The result has the chunks
  that are allocated and the index at which an allocation failed.\<close>

primrec fill_chunks ::
  "(nat \<Rightarrow> bool) \<Rightarrow> u8 list \<Rightarrow> nat \<Rightarrow> nat \<Rightarrow> nat \<Rightarrow> nat \<Rightarrow> nat list \<Rightarrow> sg_chunk list \<times> nat option" where
  "fill_chunks alloc_ok inp in_len max_size chunk_size off [] = ([], None)"
| "fill_chunks alloc_ok inp in_len max_size chunk_size off (i # is) =
     (if \<not> alloc_ok i then ([], Some i)
      else
        let len = min chunk_size (max_size - off);
            coff = (if in_len > off then min (in_len - off) chunk_size else 0);
            chunk = \<lparr> chunk_len = len, chunk_data = take coff (drop off inp) @ replicate (chunk_size - coff) 0 \<rparr>;
            (chunks, failed) = fill_chunks alloc_ok inp in_len max_size chunk_size (off + len) is in
        (chunk # chunks, failed))"

definition round_down :: "u64 \<Rightarrow> u64 \<Rightarrow> u64" where
  "round_down x y = x AND NOT (y - 1)"

text \<open>The second loop: map the chunks; the addresses of those that are mapped, and on a failure the error and the
  index from which the error path goes back.\<close>

primrec map_chunks :: "(nat \<Rightarrow> u64 option) \<Rightarrow> u64 \<Rightarrow> nat \<Rightarrow> sg_chunk list \<Rightarrow> u64 list \<times> (errno \<times> nat) option" where
  "map_chunks mapping dma_size i [] = ([], None)"
| "map_chunks mapping dma_size i (c # cs) =
     (case mapping i of
        None \<Rightarrow> ([], Some (ENOMEM, i))
      | Some addr \<Rightarrow>
          if round_down addr dma_size \<noteq> round_down (addr + of_nat (chunk_len c) - 1) dma_size
          then ([addr], Some (EFAULT, i + 1))
          else let (addrs, failed) = map_chunks mapping dma_size (i + 1) cs in (addr # addrs, failed))"

text \<open>The last loop: collect the output.  \<open>None\<close> is an access behind the array of chunks.\<close>

primrec gather :: "nat \<Rightarrow> nat \<Rightarrow> (nat \<times> u8 list) list \<Rightarrow> u8 list option" where
  "gather out_len off [] = (if off < out_len then None else Some [])"
| "gather out_len off (c # cs) =
     (if off < out_len then
        let len = min (fst c) (out_len - off) in map_option ((@) (take len (snd c))) (gather out_len (off + len) cs)
      else Some [])"

definition free_chunks :: "nat \<Rightarrow> dma_call list" where
  "free_chunks i = map (\<lambda>j. Kfree (Chunk j)) (rev [0..<i]) @ [Kfree Chunk_array]"

definition unmap_chunks :: "nat \<Rightarrow> dma_call list" where
  "unmap_chunks i = map (\<lambda>j. Dma_unmap (Chunk j)) (rev [0..<i])"

definition alloc_chunks :: "nat \<Rightarrow> dma_call list" where
  "alloc_chunks i = Kalloc Chunk_array # map (\<lambda>j. Kalloc (Chunk j)) [0..<i]"

definition mapped_chunks :: "nat \<Rightarrow> dma_call list" where
  "mapped_chunks i = map (\<lambda>j. Dma_map (Chunk j)) [0..<i]"

definition nfp_nsp_command_buf_dma_sg ::
  "nsp_clock \<Rightarrow> dma_env \<Rightarrow> nfp_nsp \<Rightarrow> nfp_nsp_command_buf_arg \<Rightarrow> nat \<Rightarrow> nat \<Rightarrow> nat \<Rightarrow>
   (int \<times> nfp_nsp \<times> u8 list option \<times> dma_call list) cppm" where
  "nfp_nsp_command_buf_dma_sg clk env nsp arg max_size chunk_order dma_order =
     (let chunk_size = 2 ^ chunk_order; dma_size = BIT_ULL dma_order;
          nseg = (max_size + chunk_size - 1) div chunk_size in
      if \<not> chunks_alloc_ok env then Return (- errno_val ENOMEM, nsp, out_buf arg, [])
      else
        case fill_chunks (chunk_alloc_ok env) (case in_buf arg of None \<Rightarrow> [] | Some inp \<Rightarrow> inp) (unat (in_size arg))
               max_size chunk_size 0 [0..<nseg] of
          (chunks, Some i) \<Rightarrow> Return (- errno_val ENOMEM, nsp, out_buf arg, alloc_chunks (length chunks) @ free_chunks i)
        | (chunks, None) \<Rightarrow>
            case map_chunks (map_chunk env) dma_size 0 chunks of
              (addrs, Some (err, i)) \<Rightarrow>
                Return (- errno_val err, nsp, out_buf arg,
                        alloc_chunks nseg @ mapped_chunks (length addrs) @ unmap_chunks i @ free_chunks nseg)
            | (addrs, None) \<Rightarrow>
                if \<not> desc_alloc_ok env then
                  Return (- errno_val ENOMEM, nsp, out_buf arg,
                          alloc_chunks nseg @ mapped_chunks nseg @ unmap_chunks nseg @ free_chunks nseg)
                else
                  let desc = \<lparr> dma_chunk_cnt = nseg,
                               dma_descs = zip (map (\<lambda>c. of_nat (chunk_len c)) chunks) addrs \<rparr> in
                  case map_desc env of
                    None \<Rightarrow>
                      Return (- errno_val ENOMEM, nsp, out_buf arg,
                              alloc_chunks nseg @ mapped_chunks nseg @ [Kalloc Dma_desc, Kfree Dma_desc] @
                              unmap_chunks nseg @ free_chunks nseg)
                  | Some dma_desc \<Rightarrow>
                      cpp_bind (raw_nfp_nsp_command clk nsp ((buf_cmd arg)\<lparr> cmd_dma := True, cmd_buf := dma_desc \<rparr>))
                        (\<lambda>(ret, nsp).
                           let calls = alloc_chunks nseg @ mapped_chunks nseg @
                                       [Kalloc Dma_desc, Dma_map Dma_desc, Dma_unmap Dma_desc, Kfree Dma_desc] @
                                       unmap_chunks nseg @ free_chunks nseg;
                               filled = dma_fill env desc (map chunk_data chunks) in
                           if ret < 0 then Return (ret, nsp, out_buf arg, calls)
                           else
                             case gather (unat (out_size arg)) 0 (zip (map chunk_len chunks) filled) of
                               None \<Rightarrow> Fault
                             | Some bs \<Rightarrow>
                                 Return (ret, nsp, map_option (\<lambda>out. bs @ drop (length bs) out) (out_buf arg), calls)))"

text \<open>The kernel's \<open>order_base_2(roundup_pow_of_two(n))\<close>.\<close>

fun ceil_log2 :: "nat \<Rightarrow> nat" where
  "ceil_log2 n = (if n \<le> 1 then 0 else Suc (ceil_log2 ((n + 1) div 2)))"

declare ceil_log2.simps [simp del]

definition PAGE_SHIFT :: nat where "PAGE_SHIFT = 12"

definition nfp_nsp_command_buf_dma ::
  "nsp_clock \<Rightarrow> dma_env \<Rightarrow> nfp_nsp \<Rightarrow> nfp_nsp_command_buf_arg \<Rightarrow> nat \<Rightarrow> nat \<Rightarrow>
   (int \<times> nfp_nsp \<times> u8 list option \<times> dma_call list) cppm" where
  "nfp_nsp_command_buf_dma clk env nsp arg max_size dma_order =
     (let buf_order = ceil_log2 max_size in
      nfp_cpp_readq (res_cpp_id (nsp_res nsp)) (res_addr (nsp_res nsp) + NFP_CAP_CMD_DMA_SG)
        (\<lambda>r. case r of
           Inl err \<Rightarrow> Return (- errno_val err, nsp, out_buf arg, [])
         | Inr reg \<Rightarrow>
             let sg_ok = reg AND BIT_ULL (unat (cmd_code (buf_cmd arg)) - 1) \<noteq> 0 in
             if \<not> sg_ok then
               if buf_order > dma_order then Return (- errno_val ENOMEM, nsp, out_buf arg, [])
               else nfp_nsp_command_buf_dma_sg clk env nsp arg max_size buf_order dma_order
             else nfp_nsp_command_buf_dma_sg clk env nsp arg max_size (min dma_order PAGE_SHIFT) dma_order))"

definition nfp_nsp_command_buf ::
  "nsp_clock \<Rightarrow> dma_env \<Rightarrow> nfp_nsp \<Rightarrow> nfp_nsp_command_buf_arg \<Rightarrow> (int \<times> nfp_nsp \<times> u8 list option \<times> dma_call list) cppm" where
  "nfp_nsp_command_buf clk env nsp arg =
     (if ver_minor nsp < 13 then Return (- errno_val EOPNOTSUPP, nsp, out_buf arg, [])
      else
        nfp_cpp_readq (res_cpp_id (nsp_res nsp)) (res_addr (nsp_res nsp) + NSP_DFLT_BUFFER_CONFIG)
          (\<lambda>r. case r of
             Inl err \<Rightarrow> Return (- errno_val err, nsp, out_buf arg, [])
           | Inr reg \<Rightarrow>
               let arg = (if has_bytes (out_buf arg) (out_size arg) \<and> in_size arg < out_size arg then
                            let n = unat (out_size arg) - unat (in_size arg) in
                            arg\<lparr> out_buf := map_option (\<lambda>out. replicate n 0 @ drop n out) (out_buf arg) \<rparr>
                          else arg);
                   max_size = max (in_size arg) (out_size arg);
                   def_size = ucast (FIELD_GET NSP_DFLT_BUFFER_SIZE_MB reg * 0x100000 +
                                     FIELD_GET NSP_DFLT_BUFFER_SIZE_4KB reg * 0x1000) :: u32;
                   dma_order = unat (FIELD_GET NSP_DFLT_BUFFER_DMA_CHUNK_ORDER reg) in
               if def_size \<ge> max_size then
                 cpp_bind (nfp_nsp_command_buf_dflt clk nsp arg) (\<lambda>(ret, nsp, out). Return (ret, nsp, out, []))
               else if dma_order = 0 then Return (- errno_val EINVAL, nsp, out_buf arg, [])
               else nfp_nsp_command_buf_dma clk env nsp arg (unat max_size) dma_order))"

section \<open>The commands\<close>

definition nfp_nsp_has_mac_reinit :: "nfp_nsp \<Rightarrow> bool" where
  "nfp_nsp_has_mac_reinit state \<longleftrightarrow> nfp_nsp_get_abi_ver_minor state > 20"

definition nfp_nsp_has_stored_fw_load :: "nfp_nsp \<Rightarrow> bool" where
  "nfp_nsp_has_stored_fw_load state \<longleftrightarrow> nfp_nsp_get_abi_ver_minor state > 23"

definition nfp_nsp_has_hwinfo_lookup :: "nfp_nsp \<Rightarrow> bool" where
  "nfp_nsp_has_hwinfo_lookup state \<longleftrightarrow> nfp_nsp_get_abi_ver_minor state > 24"

definition nfp_nsp_has_hwinfo_set :: "nfp_nsp \<Rightarrow> bool" where
  "nfp_nsp_has_hwinfo_set state \<longleftrightarrow> nfp_nsp_get_abi_ver_minor state > 25"

definition nfp_nsp_has_fw_loaded :: "nfp_nsp \<Rightarrow> bool" where
  "nfp_nsp_has_fw_loaded state \<longleftrightarrow> nfp_nsp_get_abi_ver_minor state > 25"

definition nfp_nsp_has_versions :: "nfp_nsp \<Rightarrow> bool" where
  "nfp_nsp_has_versions state \<longleftrightarrow> nfp_nsp_get_abi_ver_minor state > 27"

definition nfp_nsp_has_read_module_eeprom :: "nfp_nsp \<Rightarrow> bool" where
  "nfp_nsp_has_read_module_eeprom state \<longleftrightarrow> nfp_nsp_get_abi_ver_minor state > 28"

definition nfp_nsp_has_read_media :: "nfp_nsp \<Rightarrow> bool" where
  "nfp_nsp_has_read_media state \<longleftrightarrow> nfp_nsp_get_abi_ver_minor state > 33"

text \<open>The attempts until the deadline, each with its clock and whether the sleep after it is interrupted; there is
  always a first one.\<close>

fun nfp_nsp_wait :: "nsp_clock \<times> bool \<Rightarrow> (nsp_clock \<times> bool) list \<Rightarrow> nfp_nsp \<Rightarrow> (int \<times> nfp_nsp) cppm" where
  "nfp_nsp_wait (clk, interrupted) rounds state =
     cpp_bind (nfp_nsp_command clk state SPCODE_NOOP)
       (\<lambda>(err, state).
          if err \<noteq> - errno_val EAGAIN then Return (err, state)
          else if interrupted then Return (- errno_val ERESTARTSYS, state)
          else case rounds of
            [] \<Rightarrow> Return (- errno_val ETIMEDOUT, state)
          | r # rs \<Rightarrow> nfp_nsp_wait r rs state)"

definition nfp_nsp_device_soft_reset :: "nsp_clock \<Rightarrow> nfp_nsp \<Rightarrow> (int \<times> nfp_nsp) cppm" where
  "nfp_nsp_device_soft_reset clk state = nfp_nsp_command clk state SPCODE_SOFT_RESET"

definition nfp_nsp_mac_reinit :: "nsp_clock \<Rightarrow> nfp_nsp \<Rightarrow> (int \<times> nfp_nsp) cppm" where
  "nfp_nsp_mac_reinit clk state = nfp_nsp_command clk state SPCODE_MAC_INIT"

definition nfp_nsp_load_fw ::
  "nsp_clock \<Rightarrow> dma_env \<Rightarrow> nfp_nsp \<Rightarrow> u8 list \<Rightarrow> (int \<times> nfp_nsp \<times> u8 list option \<times> dma_call list) cppm" where
  "nfp_nsp_load_fw clk env state fw =
     cpp_bind (nfp_nsp_command_buf clk env state
         \<lparr> buf_cmd = command_arg SPCODE_FW_LOAD (of_nat (length fw)), in_buf = Some fw, in_size = of_nat (length fw),
           out_buf = None, out_size = 0 \<rparr>)
       (\<lambda>(ret, r). Return (if ret < 0 then ret else 0, r))"

definition nfp_nsp_write_flash ::
  "nsp_clock \<Rightarrow> dma_env \<Rightarrow> nfp_nsp \<Rightarrow> u8 list \<Rightarrow> (int \<times> nfp_nsp \<times> u8 list option \<times> dma_call list) cppm" where
  "nfp_nsp_write_flash clk env state fw =
     nfp_nsp_command_buf clk env state
       \<lparr> buf_cmd = (command_arg SPCODE_NSP_WRITE_FLASH (of_nat (length fw)))\<lparr> cmd_timeout_sec := 900 \<rparr>,
         in_buf = Some fw, in_size = of_nat (length fw), out_buf = None, out_size = 0 \<rparr>"

text \<open>The commands that only read, only write, or do both in one buffer, as their initialisers set them up.\<close>

definition read_arg :: "nfp_nsp_cmd \<Rightarrow> u32 \<Rightarrow> u8 list \<Rightarrow> u32 \<Rightarrow> nfp_nsp_command_buf_arg" where
  "read_arg code option_val buf n =
     \<lparr> buf_cmd = command_arg code option_val, in_buf = None, in_size = 0, out_buf = Some buf, out_size = n \<rparr>"

definition write_arg :: "nfp_nsp_cmd \<Rightarrow> u8 list \<Rightarrow> u32 \<Rightarrow> nfp_nsp_command_buf_arg" where
  "write_arg code buf n =
     \<lparr> buf_cmd = command_arg code n, in_buf = Some buf, in_size = n, out_buf = None, out_size = 0 \<rparr>"

definition exchange_arg :: "nfp_nsp_cmd \<Rightarrow> u8 list \<Rightarrow> u32 \<Rightarrow> nfp_nsp_command_buf_arg" where
  "exchange_arg code buf n =
     \<lparr> buf_cmd = command_arg code n, in_buf = Some buf, in_size = n, out_buf = Some buf, out_size = n \<rparr>"

type_synonym buf_command = "nsp_clock \<Rightarrow> dma_env \<Rightarrow> nfp_nsp \<Rightarrow> u8 list \<Rightarrow> u32 \<Rightarrow>
  (int \<times> nfp_nsp \<times> u8 list option \<times> dma_call list) cppm"

definition nfp_nsp_read_eth_table :: buf_command where
  "nfp_nsp_read_eth_table clk env state buf n = nfp_nsp_command_buf clk env state (read_arg SPCODE_ETH_RESCAN n buf n)"

definition nfp_nsp_write_eth_table :: buf_command where
  "nfp_nsp_write_eth_table clk env state buf n = nfp_nsp_command_buf clk env state (write_arg SPCODE_ETH_CONTROL buf n)"

definition nfp_nsp_read_identify :: buf_command where
  "nfp_nsp_read_identify clk env state buf n = nfp_nsp_command_buf clk env state (read_arg SPCODE_NSP_IDENTIFY n buf n)"

definition nfp_nsp_read_sensors :: "u32 \<Rightarrow> buf_command" where
  "nfp_nsp_read_sensors sensor_mask clk env state buf n =
     nfp_nsp_command_buf clk env state (read_arg SPCODE_NSP_SENSORS sensor_mask buf n)"

definition nfp_nsp_load_stored_fw :: "nsp_clock \<Rightarrow> nfp_nsp \<Rightarrow> (int \<times> nfp_nsp) cppm" where
  "nfp_nsp_load_stored_fw clk state =
     cpp_bind (raw_nfp_nsp_command clk state (command_arg SPCODE_FW_STORED 0))
       (\<lambda>(ret, state). Return (if ret < 0 then ret else 0, state))"

definition NFP_HWINFO_LOOKUP_SIZE :: u32 where "NFP_HWINFO_LOOKUP_SIZE = 0xfff"

definition raw_nfp_nsp_hwinfo_lookup :: buf_command where
  "raw_nfp_nsp_hwinfo_lookup clk env state buf n =
     nfp_nsp_command_buf clk env state (exchange_arg SPCODE_HWINFO_LOOKUP buf n)"

text \<open>\<open>strnlen\<close> of a buffer.\<close>

definition strnlen :: "u8 list \<Rightarrow> nat \<Rightarrow> nat" where
  "strnlen bs n = length (c_str (take n bs))"

definition nfp_nsp_hwinfo_lookup :: buf_command where
  "nfp_nsp_hwinfo_lookup clk env state buf n =
     (let n = min n NFP_HWINFO_LOOKUP_SIZE in
      cpp_bind (raw_nfp_nsp_hwinfo_lookup clk env state buf n)
        (\<lambda>(err, state, out, calls).
           if err \<noteq> 0 then Return (err, state, out, calls)
           else if strnlen (the out) (unat n) = unat n then Return (- errno_val EINVAL, state, out, calls)
           else Return (0, state, out, calls)))"

text \<open>\<open>strcpy\<close> of a terminated string into a buffer with room for it.\<close>

definition strcpy_to :: "u8 list \<Rightarrow> u8 list \<Rightarrow> u8 list" where
  "strcpy_to buf str = c_str str @ [0] @ drop (length (c_str str) + 1) buf"

definition nfp_nsp_hwinfo_lookup_optional :: "u8 list \<Rightarrow> buf_command" where
  "nfp_nsp_hwinfo_lookup_optional default_val clk env state buf n =
     (if strnlen default_val (unat n) = unat n then Return (- errno_val EINVAL, state, Some buf, [])
      else if \<not> nfp_nsp_has_hwinfo_lookup state then Return (0, state, Some (strcpy_to buf default_val), [])
      else
        let n = min n NFP_HWINFO_LOOKUP_SIZE in
        cpp_bind (raw_nfp_nsp_hwinfo_lookup clk env state buf n)
          (\<lambda>(err, state, out, calls).
             if err \<noteq> 0 then
               if err = - errno_val ENOENT then Return (0, state, Some (strcpy_to (the out) default_val), calls)
               else Return (err, state, out, calls)
             else if strnlen (the out) (unat n) = unat n then Return (- errno_val EINVAL, state, out, calls)
             else Return (0, state, out, calls)))"

definition nfp_nsp_hwinfo_set :: buf_command where
  "nfp_nsp_hwinfo_set clk env state buf n = nfp_nsp_command_buf clk env state (write_arg SPCODE_HWINFO_SET buf n)"

definition nfp_nsp_fw_loaded :: "nsp_clock \<Rightarrow> nfp_nsp \<Rightarrow> (int \<times> nfp_nsp) cppm" where
  "nfp_nsp_fw_loaded clk state = raw_nfp_nsp_command clk state (command_arg SPCODE_FW_LOADED 0)"

definition NFP_VERSIONS_SIZE :: u32 where "NFP_VERSIONS_SIZE = 0xfff"

definition nfp_nsp_versions :: buf_command where
  "nfp_nsp_versions clk env state buf n =
     nfp_nsp_command_buf clk env state
       (read_arg SPCODE_VERSIONS (min n NFP_VERSIONS_SIZE) buf (min n NFP_VERSIONS_SIZE))"

datatype nfp_nsp_versions_id =
    NFP_VERSIONS_BSP | NFP_VERSIONS_CPLD | NFP_VERSIONS_APP | NFP_VERSIONS_BUNDLE | NFP_VERSIONS_UNDI
  | NFP_VERSIONS_NCSI | NFP_VERSIONS_CFGR

fun versions_val :: "nfp_nsp_versions_id \<Rightarrow> nat" where
  "versions_val NFP_VERSIONS_BSP = 0"
| "versions_val NFP_VERSIONS_CPLD = 1"
| "versions_val NFP_VERSIONS_APP = 2"
| "versions_val NFP_VERSIONS_BUNDLE = 3"
| "versions_val NFP_VERSIONS_UNDI = 4"
| "versions_val NFP_VERSIONS_NCSI = 5"
| "versions_val NFP_VERSIONS_CFGR = 6"

fun id2off :: "nfp_nsp_versions_id \<Rightarrow> nat" where
  "id2off NFP_VERSIONS_BSP = 2"
| "id2off NFP_VERSIONS_CPLD = 6"
| "id2off NFP_VERSIONS_APP = 10"
| "id2off NFP_VERSIONS_BUNDLE = 14"
| "id2off NFP_VERSIONS_UNDI = 18"
| "id2off NFP_VERSIONS_NCSI = 22"
| "id2off NFP_VERSIONS_CFGR = 26"

text \<open>The result is the offset of the string.  Every identifier has a non-zero offset, so the first check of the
  source never fails for a value of the enumeration.\<close>

definition nfp_nsp_versions_get :: "nfp_nsp_versions_id \<Rightarrow> bool \<Rightarrow> u8 list \<Rightarrow> u32 \<Rightarrow> nat result" where
  "nfp_nsp_versions_get vid flash buf n =
     (let field = versions_val vid * 2 + of_bool flash;
          buf_field_cnt = unat (get_unaligned_le16 buf) in
      if buf_field_cnt \<le> field then Inl ENOENT
      else
        let buf_off = unat (get_unaligned_le16 (drop (id2off vid + of_bool flash * 2) buf)) in
        if buf_off = 0 then Inl ENOENT
        else if buf_off \<ge> unat n then Inl EINVAL
        else if strnlen (drop buf_off buf) (unat n - buf_off) = unat n - buf_off then Inl EINVAL
        else Inr buf_off)"

definition raw_nfp_nsp_module_eeprom :: buf_command where
  "raw_nfp_nsp_module_eeprom clk env state buf n =
     nfp_nsp_command_buf clk env state (exchange_arg SPCODE_READ_SFF_EEPROM buf n)"

definition NSP_SFF_EEPROM_BLOCK_LEN :: u32 where "NSP_SFF_EEPROM_BLOCK_LEN = 8"

definition put_unaligned_le16 :: "u16 \<Rightarrow> u8 list" where
  "put_unaligned_le16 v = [ucast v, ucast (drop_bit 8 v)]"

text \<open>\<open>struct eeprom_buf\<close>: the length of the header in blocks, length, offset, the length read, the port, then
  the data.  The result has the error, the state, the data read and the calls.\<close>

definition eeprom_buf :: "u32 \<Rightarrow> u32 \<Rightarrow> u32 \<Rightarrow> u8 list" where
  "eeprom_buf len offset eth_index =
     [1] @ put_unaligned_le16 (ucast len) @ put_unaligned_le16 (ucast offset) @ put_unaligned_le16 0 @ [ucast eth_index] @
     replicate (unat ((len - 1 OR (NSP_SFF_EEPROM_BLOCK_LEN - 1)) + 1)) 0"

definition nfp_nsp_read_module_eeprom ::
  "bool \<Rightarrow> nsp_clock \<Rightarrow> dma_env \<Rightarrow> nfp_nsp \<Rightarrow> u32 \<Rightarrow> u32 \<Rightarrow> u8 list \<Rightarrow> u32 \<Rightarrow>
   (int \<times> nfp_nsp \<times> u8 list \<times> u32 option) cppm" where
  "nfp_nsp_read_module_eeprom alloc_ok clk env state eth_index offset data len =
     (if \<not> alloc_ok then Return (- errno_val ENOMEM, state, data, None)
      else
        let buf = eeprom_buf len offset eth_index in
        cpp_bind (raw_nfp_nsp_module_eeprom clk env state buf (of_nat (length buf)))
          (\<lambda>(ret, state, out, _).
             let buf = the out;
                 read_len = min len (ucast (get_unaligned_le16 (drop 5 buf)));
                 data = take (unat read_len) (drop 8 buf) @ drop (unat read_len) data in
             Return (if ret = 0 \<and> read_len < len then - errno_val EIO else ret, state, data, Some read_len)))"

definition nfp_nsp_read_media :: buf_command where
  "nfp_nsp_read_media clk env state buf n = nfp_nsp_command_buf clk env state (exchange_arg SPCODE_READ_MEDIA buf n)"

section \<open>Identification and sensors\<close>

record nfp_nsp_identify =
  ni_version :: "u8 list"
  ni_flags :: u8
  ni_br_primary :: u8
  ni_br_secondary :: u8
  ni_br_nsp :: u8
  ni_primary :: u16
  ni_secondary :: u16
  ni_nsp :: u16
  ni_sensor_mask :: u64

definition sizeof_nsp_identify :: u32 where "sizeof_nsp_identify = 64"

definition raw_nfp_nsp_identify ::
  "bool \<Rightarrow> bool \<Rightarrow> nsp_clock \<Rightarrow> dma_env \<Rightarrow> nfp_nsp \<Rightarrow> (nfp_nsp_identify option \<times> nfp_nsp) cppm" where
  "raw_nfp_nsp_identify alloc_ok alloc_ok2 clk env nsp =
     (if nfp_nsp_get_abi_ver_minor nsp < 15 \<or> \<not> alloc_ok then Return (None, nsp)
      else
        cpp_bind (nfp_nsp_read_identify clk env nsp (replicate (unat sizeof_nsp_identify) 0) sizeof_nsp_identify)
          (\<lambda>(ret, nsp, out, _).
             if ret < 0 \<or> \<not> alloc_ok2 then Return (None, nsp)
             else
               let ni = the out in
               Return (Some \<lparr> ni_version = take 39 ni @ [0], ni_flags = ni ! 40, ni_br_primary = ni ! 41,
                              ni_br_secondary = ni ! 42, ni_br_nsp = ni ! 43,
                              ni_primary = get_unaligned_le16 (drop 44 ni), ni_secondary = get_unaligned_le16 (drop 46 ni),
                              ni_nsp = get_unaligned_le16 (drop 48 ni), ni_sensor_mask = get_unaligned_le64 (drop 56 ni) \<rparr>,
                       nsp)))"

text \<open>The \<open>default\<close> case of the source is a value outside of the enumeration.\<close>

datatype nfp_nsp_sensor_id =
    NFP_SENSOR_CHIP_TEMPERATURE | NFP_SENSOR_ASSEMBLY_POWER | NFP_SENSOR_ASSEMBLY_12V_POWER | NFP_SENSOR_ASSEMBLY_3V3_POWER

fun sensor_id_val :: "nfp_nsp_sensor_id \<Rightarrow> nat" where
  "sensor_id_val NFP_SENSOR_CHIP_TEMPERATURE = 0"
| "sensor_id_val NFP_SENSOR_ASSEMBLY_POWER = 1"
| "sensor_id_val NFP_SENSOR_ASSEMBLY_12V_POWER = 2"
| "sensor_id_val NFP_SENSOR_ASSEMBLY_3V3_POWER = 3"

definition nfp_hwmon_read_sensor ::
  "(u32 \<Rightarrow> u8 list \<Rightarrow> u32) \<Rightarrow> acquire_env \<Rightarrow> bool \<Rightarrow> u16 \<Rightarrow> nsp_clock \<Rightarrow> dma_env \<Rightarrow> nfp_nsp_sensor_id \<Rightarrow> u8 list \<Rightarrow>
   (int \<times> u32 option) cppm" where
  "nfp_hwmon_read_sensor crc32_be aenv alloc_ok interface clk env sid s =
     cpp_bind (nfp_nsp_open crc32_be aenv alloc_ok interface)
       (\<lambda>r. case r of
          Inl err \<Rightarrow> Return (err, None)
        | Inr nsp \<Rightarrow>
            cpp_bind (nfp_nsp_read_sensors (push_bit (sensor_id_val sid) 1) clk env nsp s 16)
              (\<lambda>(ret, nsp, out, _).
                 cpp_bind (nfp_nsp_close interface nsp)
                   (\<lambda>_. if ret < 0 then Return (ret, None)
                         else Return (0, Some (get_unaligned_le32 (drop (4 * sensor_id_val sid) (the out)))))))"

end
