(* ===== verification/NFP_Nsp_Proto.thy ===== *)
theory NFP_Nsp_Proto
  imports NFP_Nsp "HOL-Library.Sublist"
begin

text \<open>
  What the commands of the service processor do on the bus and with host memory, for every behaviour of the
  device: the traces of a bus program and the handshake they follow; a scattered buffer is the flat buffer it
  stands for, and every path of a scatter-gather command gives back what it took; the lock of the processor is
  given back whenever opening it fails.
\<close>

section \<open>Traces of bus programs\<close>

text \<open>An access with its answer; a trace is what a program may do whatever the device answers.\<close>

datatype bus_event = Rd u32 u64 nat "u8 list result" | Wr u32 u64 "u8 list" "nat result"

inductive trace :: "'a cppm \<Rightarrow> bus_event list \<Rightarrow> 'a \<Rightarrow> bool" where
  trace_return: "trace (Return x) [] x"
| trace_read: "trace (k r) es x \<Longrightarrow> trace (Cpp_read cpp_id a n k) (Rd cpp_id a n r # es) x"
| trace_write: "trace (k r) es x \<Longrightarrow> trace (Cpp_write cpp_id a bs k) (Wr cpp_id a bs r # es) x"

inductive_simps trace_simps [simp]:
  "trace (Return y) es x"
  "trace (Cpp_read cpp_id a n k) es x"
  "trace (Cpp_write cpp_id a bs k) es x"
  "trace Fault es x"

lemma run_trace: "run D p s = Some (x, s') \<Longrightarrow> \<exists>es. trace p es x"
proof (induction p arbitrary: s)
  case (Cpp_read cpp_id a n k)
  then show ?case by (cases "dev_read D cpp_id a n s") (auto, blast)
next
  case (Cpp_write cpp_id a bs k)
  then show ?case by (cases "dev_write D cpp_id a bs s") (auto, blast)
qed auto

lemma trace_bind: "trace (cpp_bind p f) es x \<longleftrightarrow> (\<exists>es1 es2 y. es = es1 @ es2 \<and> trace p es1 y \<and> trace (f y) es2 x)"
proof (induction p arbitrary: es)
  case (Cpp_read cpp_id a n k)
  have IH: "trace (cpp_bind (k r) f) es x \<longleftrightarrow> (\<exists>es1 es2 y. es = es1 @ es2 \<and> trace (k r) es1 y \<and> trace (f y) es2 x)" for r es
    by (rule Cpp_read) simp
  show ?case by (simp add: IH) (metis append_Cons)
next
  case (Cpp_write cpp_id a bs k)
  have IH: "trace (cpp_bind (k r) f) es x \<longleftrightarrow> (\<exists>es1 es2 y. es = es1 @ es2 \<and> trace (k r) es1 y \<and> trace (f y) es2 x)" for r es
    by (rule Cpp_write) simp
  show ?case by (simp add: IH) (metis append_Cons)
qed auto

text \<open>The value of a register access.\<close>

definition q_value :: "u8 list result \<Rightarrow> u64 result" where
  "q_value r = (case r of Inl err \<Rightarrow> Inl err | Inr tmp \<Rightarrow> if length tmp \<noteq> 8 then Inl EIO else Inr (get_unaligned_le64 tmp))"

definition q_done :: "nat result \<Rightarrow> unit result" where
  "q_done r = (case r of Inl err \<Rightarrow> Inl err | Inr n \<Rightarrow> if n = 8 then Inr () else Inl EIO)"

lemma trace_readq [simp]:
  "trace (nfp_cpp_readq cpp_id a k) es x \<longleftrightarrow> (\<exists>r es'. es = Rd cpp_id a 8 r # es' \<and> trace (k (q_value r)) es' x)"
  by (auto simp: nfp_cpp_readq_def q_value_def split: sum.splits if_splits)

lemma trace_writeq [simp]:
  "trace (nfp_cpp_writeq cpp_id a v k) es x \<longleftrightarrow>
     (\<exists>r es'. es = Wr cpp_id a (put_unaligned_le64 v) r # es' \<and> trace (k (q_done r)) es' x)"
  by (auto simp: nfp_cpp_writeq_def q_done_def split: sum.splits if_splits)

lemma q_done_ok: "q_done r = Inr () \<longleftrightarrow> r = Inr 8"
  by (auto simp: q_done_def split: sum.splits)

section \<open>The handshake of a command\<close>

lemma errno_val_pos: "0 < errno_val err"
  by (cases err) simp_all

lemma errno_neg [simp]: "- errno_val err < 0" "\<not> 0 \<le> - errno_val err" "- errno_val err \<noteq> 0" "errno_val err \<noteq> 0"
    "0 \<le> errno_val err"
  using errno_val_pos [of err] by simp_all

declare errno_val.simps [simp del]

text \<open>Polling a register until the bits of a mask are zero: all answers but the last have some of them set.\<close>

definition polled :: "u64 \<Rightarrow> u8 list result list \<Rightarrow> u64 \<Rightarrow> bool" where
  "polled m rs v \<longleftrightarrow>
     rs \<noteq> [] \<and> list_all (\<lambda>r. \<exists>u. q_value r = Inr u \<and> u AND m \<noteq> 0) (butlast rs) \<and> q_value (last rs) = Inr v \<and> v AND m = 0"

lemma wait_reg_trace:
  assumes "trace (nfp_nsp_wait_reg polls c a m 0) es r"
  shows "\<exists>rs. es = map (Rd c a 8) rs \<and> length rs \<le> polls + 1 \<and> (\<forall>v. r = Inr v \<longrightarrow> polled m rs v)"
  using assms
proof (induction polls arbitrary: es)
  case 0
  then obtain q where q: "es = Rd c a 8 q # []" "\<forall>v. r = Inr v \<longrightarrow> q_value q = Inr v \<and> v AND m = 0"
    unfolding nfp_nsp_wait_reg.simps trace_readq by (elim exE conjE) (case_tac "q_value ra", auto split: if_splits)
  show ?case by (rule exI [of _ "[q]"]) (use q in \<open>simp add: polled_def\<close>)
next
  case (Suc polls)
  then obtain q es' where q: "es = Rd c a 8 q # es'"
      "trace (case q_value q of Inl err \<Rightarrow> Return (Inl err)
         | Inr reg \<Rightarrow> if reg AND m = 0 then Return (Inr reg) else nfp_nsp_wait_reg polls c a m 0) es' r" by auto
  show ?case
  proof (cases "\<exists>u. q_value q = Inr u \<and> u AND m \<noteq> 0")
    case True
    with q(2) have "trace (nfp_nsp_wait_reg polls c a m 0) es' r" by auto
    then obtain rs where rs: "es' = map (Rd c a 8) rs" "length rs \<le> polls + 1" "\<forall>v. r = Inr v \<longrightarrow> polled m rs v"
      using Suc.IH by blast
    show ?thesis by (rule exI [of _ "q # rs"]) (use True rs q(1) in \<open>auto simp: polled_def\<close>)
  next
    case False
    with q(2) have "es' = []" "\<forall>v. r = Inr v \<longrightarrow> q_value q = Inr v \<and> v AND m = 0"
      by (cases "q_value q"; auto split: if_splits)+
    then show ?thesis by (intro exI [of _ "[q]"]) (simp add: polled_def q(1))
  qed
qed

lemma check_trace:
  assumes "trace (nfp_nsp_check nsp) es (err, nsp')"
  shows "nsp_res nsp' = nsp_res nsp" "err = 0 \<or> (\<exists>e. err = - errno_val e)"
    and "\<exists>r. es = [Rd (res_cpp_id (nsp_res nsp)) (res_addr (nsp_res nsp) + NSP_STATUS) 8 r] \<and>
      (err = 0 \<longrightarrow> (\<exists>v. q_value r = Inr v \<and> FIELD_GET NSP_STATUS_MAGIC v = NSP_MAGIC \<and> v AND NSP_STATUS_BUSY = 0))"
proof -
  obtain r es' where r: "es = Rd (res_cpp_id (nsp_res nsp)) (res_addr (nsp_res nsp) + NSP_STATUS) 8 r # es'"
      and t: "trace (case q_value r of
          Inl err \<Rightarrow> Return (- errno_val err, nsp)
        | Inr reg \<Rightarrow>
            if FIELD_GET NSP_STATUS_MAGIC reg \<noteq> NSP_MAGIC then Return (- errno_val ENODEV, nsp)
            else
              let state = nsp\<lparr> ver_major := ucast (FIELD_GET NSP_STATUS_MAJOR reg),
                               ver_minor := ucast (FIELD_GET NSP_STATUS_MINOR reg) \<rparr> in
              if ver_major state \<noteq> NSP_MAJOR then Return (- errno_val EINVAL, state)
              else if ver_minor state < NSP_MINOR then Return (- errno_val EINVAL, state)
              else if reg AND NSP_STATUS_BUSY \<noteq> 0 then Return (- errno_val EBUSY, state)
              else Return (0, state)) es' (err, nsp')"
    using assms unfolding nfp_nsp_check_def trace_readq by blast
  have a: "es' = [] \<and> nsp_res nsp' = nsp_res nsp \<and> (err = 0 \<or> (\<exists>e. err = - errno_val e)) \<and>
      (err = 0 \<longrightarrow> (\<exists>v. q_value r = Inr v \<and> FIELD_GET NSP_STATUS_MAGIC v = NSP_MAGIC \<and> v AND NSP_STATUS_BUSY = 0))"
    using t by (cases "q_value r") (auto simp: Let_def split: if_splits)
  then show "nsp_res nsp' = nsp_res nsp" "err = 0 \<or> (\<exists>e. err = - errno_val e)" by simp_all
  show "\<exists>r. es = [Rd (res_cpp_id (nsp_res nsp)) (res_addr (nsp_res nsp) + NSP_STATUS) 8 r] \<and>
      (err = 0 \<longrightarrow> (\<exists>v. q_value r = Inr v \<and> FIELD_GET NSP_STATUS_MAGIC v = NSP_MAGIC \<and> v AND NSP_STATUS_BUSY = 0))"
    by (rule exI [of _ r]) (use a r in simp)
qed

text \<open>The writes of a trace.\<close>

fun writes :: "bus_event list \<Rightarrow> (u32 \<times> u64 \<times> u8 list) list" where
  "writes [] = []"
| "writes (Rd cpp_id a n r # es) = writes es"
| "writes (Wr cpp_id a bs r # es) = (cpp_id, a, bs) # writes es"

lemma writes_append [simp]: "writes (es @ es') = writes es @ writes es'"
  by (induction es rule: writes.induct) simp_all

lemma writes_reads [simp]: "writes (map (Rd c a n) rs) = []"
  by (induction rs) simp_all

text \<open>A complete handshake: the processor is found ready, the buffer and then the command are written, the start
  bit is polled until it is clear, then the busy bit, and the option field is read.\<close>

definition handshake :: "u32 \<Rightarrow> u64 \<Rightarrow> nfp_nsp_command_arg \<Rightarrow> bus_event list \<Rightarrow> u64 \<Rightarrow> u64 \<Rightarrow> bool" where
  "handshake c base arg es status answer \<longleftrightarrow>
     (\<exists>r0 v0 starts v1 busys r2.
        es = [Rd c (base + NSP_STATUS) 8 r0,
              Wr c (base + NSP_BUFFER) (put_unaligned_le64 (cmd_buf arg)) (Inr 8),
              Wr c (base + NSP_COMMAND) (put_unaligned_le64 (nsp_command_word arg)) (Inr 8)] @
             map (Rd c (base + NSP_COMMAND) 8) starts @ map (Rd c (base + NSP_STATUS) 8) busys @
             [Rd c (base + NSP_COMMAND) 8 r2] \<and>
        q_value r0 = Inr v0 \<and> FIELD_GET NSP_STATUS_MAGIC v0 = NSP_MAGIC \<and> v0 AND NSP_STATUS_BUSY = 0 \<and>
        polled NSP_COMMAND_START starts v1 \<and> polled NSP_STATUS_BUSY busys status \<and> q_value r2 = Inr answer)"

lemma errno_is [simp]: "\<exists>e. errno_val err = errno_val e" by blast

text \<open>The accesses after the processor was found ready, from the last to the first.\<close>

lemma answer_trace:
  assumes "trace (nfp_cpp_readq c a (\<lambda>r. case r of Inl err \<Rightarrow> Return (- errno_val err, st)
      | Inr ret_val \<Rightarrow> Return (f ret_val, st))) es (ret, nsp')"
  shows "nsp' = st \<and> (\<exists>r. es = [Rd c a 8 r] \<and> ((\<exists>e. ret = - errno_val e) \<or> (\<exists>v. q_value r = Inr v \<and> ret = f v)))"
proof -
  obtain r es' where r: "es = Rd c a 8 r # es'"
      and t: "trace (case q_value r of Inl err \<Rightarrow> Return (- errno_val err, st) | Inr ret_val \<Rightarrow> Return (f ret_val, st)) es' (ret, nsp')"
    using assms unfolding trace_readq by blast
  from t show ?thesis by (cases "q_value r") (auto simp: r)
qed

text \<open>A wait is followed by \<open>k\<close> when it ended in time.\<close>

lemma wait_trace:
  assumes "trace (cpp_bind (nfp_nsp_wait_reg n c a m 0) (\<lambda>r. case r of Inl err \<Rightarrow> Return (- errno_val err, st) | Inr v \<Rightarrow> k v)) es (ret, nsp')"
  shows "\<exists>rs es'. es = map (Rd c a 8) rs @ es' \<and>
    ((\<exists>e. ret = - errno_val e) \<and> nsp' = st \<and> es' = [] \<or> (\<exists>v. polled m rs v \<and> trace (k v) es' (ret, nsp')))"
proof -
  obtain es1 es2 r where es: "es = es1 @ es2" "trace (nfp_nsp_wait_reg n c a m 0) es1 r"
      and t: "trace (case r of Inl err \<Rightarrow> Return (- errno_val err, st) | Inr v \<Rightarrow> k v) es2 (ret, nsp')"
    using assms unfolding trace_bind by blast
  obtain rs where rs: "es1 = map (Rd c a 8) rs" "\<forall>v. r = Inr v \<longrightarrow> polled m rs v" using wait_reg_trace [OF es(2)] by blast
  have "(\<exists>e. ret = - errno_val e) \<and> nsp' = st \<and> es2 = [] \<or> (\<exists>v. polled m rs v \<and> trace (k v) es2 (ret, nsp'))"
    using t rs(2) by (cases r) auto
  with rs(1) es(1) show ?thesis by blast
qed

lemma writeq_trace:
  assumes "trace (nfp_cpp_writeq c a w (\<lambda>r. case r of Inl err \<Rightarrow> Return (- errno_val err, st) | Inr _ \<Rightarrow> k)) es (ret, nsp')"
  shows "\<exists>r es'. es = Wr c a (put_unaligned_le64 w) r # es' \<and>
    ((\<exists>e. ret = - errno_val e) \<and> nsp' = st \<and> es' = [] \<or> r = Inr 8 \<and> trace k es' (ret, nsp'))"
proof -
  obtain r es' where r: "es = Wr c a (put_unaligned_le64 w) r # es'"
      and t: "trace (case q_done r of Inl err \<Rightarrow> Return (- errno_val err, st) | Inr _ \<Rightarrow> k) es' (ret, nsp')"
    using assms unfolding trace_writeq by blast
  have "(\<exists>e. ret = - errno_val e) \<and> nsp' = st \<and> es' = [] \<or> r = Inr 8 \<and> trace k es' (ret, nsp')"
    using t q_done_ok [of r] by (cases "q_done r") auto
  with r show ?thesis by blast
qed

definition poll_prog :: "nsp_clock \<Rightarrow> u32 \<Rightarrow> u64 \<Rightarrow> nfp_nsp_command_arg \<Rightarrow> nfp_nsp \<Rightarrow> (int \<times> nfp_nsp) cppm" where
  "poll_prog clk c base arg st =
     cpp_bind (nfp_nsp_wait_reg (start_polls clk NFP_NSP_TIMEOUT_DEFAULT) c (base + NSP_COMMAND) NSP_COMMAND_START 0)
       (\<lambda>r. case r of
          Inl err \<Rightarrow> Return (- errno_val err, st)
        | Inr _ \<Rightarrow>
            cpp_bind (nfp_nsp_wait_reg
                (busy_polls clk (if cmd_timeout_sec arg \<noteq> 0 then cmd_timeout_sec arg else NFP_NSP_TIMEOUT_DEFAULT))
                c (base + NSP_STATUS) NSP_STATUS_BUSY 0)
              (\<lambda>r. case r of
                 Inl err \<Rightarrow> Return (- errno_val err, st)
               | Inr reg \<Rightarrow>
                   nfp_cpp_readq c (base + NSP_COMMAND)
                     (\<lambda>r. case r of
                        Inl err \<Rightarrow> Return (- errno_val err, st)
                      | Inr ret_val \<Rightarrow> Return (nsp_command_result reg ret_val, st))))"

lemma poll_trace:
  assumes "trace (poll_prog clk c base arg st) es (ret, nsp')"
  shows "nsp' = st \<and> writes es = [] \<and>
    ((\<exists>e. ret = - errno_val e) \<or>
     (\<exists>starts v1 busys status r2 answer.
        es = map (Rd c (base + NSP_COMMAND) 8) starts @ map (Rd c (base + NSP_STATUS) 8) busys @
             [Rd c (base + NSP_COMMAND) 8 r2] \<and>
        polled NSP_COMMAND_START starts v1 \<and> polled NSP_STATUS_BUSY busys status \<and> q_value r2 = Inr answer \<and>
        ret = nsp_command_result status answer))"
  using assms unfolding poll_prog_def
proof (elim wait_trace [elim_format] answer_trace [elim_format] exE conjE disjE)
  fix starts es1 v1 busys es2 status r2 answer
  assume "es = map (Rd c (base + NSP_COMMAND) 8) starts @ es1" "es1 = map (Rd c (base + NSP_STATUS) 8) busys @ es2"
    "es2 = [Rd c (base + NSP_COMMAND) 8 r2]" "polled NSP_COMMAND_START starts v1" "polled NSP_STATUS_BUSY busys status"
    "q_value r2 = Inr answer" "ret = nsp_command_result status answer" "nsp' = st"
  then show ?thesis by simp blast
qed simp_all

text \<open>C5. Whatever the device answers, a command writes at most its buffer and then its command word, in this order,
  and keeps its resource.  It returns an error number of the driver, or it has made a complete handshake: the
  processor was found ready, the command was started, the start bit and then the busy bit were polled until they
  were clear, and the return value is the negated result code of the final status or the option field of the
  answer.\<close>

theorem nsp_command_protocol:
  assumes "trace (raw_nfp_nsp_command clk nsp arg) es (ret, nsp')"
  shows "prefix (writes es)
      [(res_cpp_id (nsp_res nsp), res_addr (nsp_res nsp) + NSP_BUFFER, put_unaligned_le64 (cmd_buf arg)),
       (res_cpp_id (nsp_res nsp), res_addr (nsp_res nsp) + NSP_COMMAND, put_unaligned_le64 (nsp_command_word arg))] \<and>
    nsp_res nsp' = nsp_res nsp \<and>
    ((\<exists>err. ret = - errno_val err) \<or>
     (\<exists>status answer. handshake (res_cpp_id (nsp_res nsp)) (res_addr (nsp_res nsp)) arg es status answer \<and>
        ret = nsp_command_result status answer))"
proof -
  let ?c = "res_cpp_id (nsp_res nsp)" and ?b = "res_addr (nsp_res nsp)"
  obtain es1 es2 err st where es: "es = es1 @ es2" "trace (nfp_nsp_check nsp) es1 (err, st)"
      and t: "trace (if err \<noteq> 0 then Return (err, st)
        else nfp_cpp_writeq ?c (?b + NSP_BUFFER) (cmd_buf arg)
          (\<lambda>r. case r of
             Inl err \<Rightarrow> Return (- errno_val err, st)
           | Inr _ \<Rightarrow>
               nfp_cpp_writeq ?c (?b + NSP_COMMAND) (nsp_command_word arg)
                 (\<lambda>r. case r of Inl err \<Rightarrow> Return (- errno_val err, st) | Inr _ \<Rightarrow> poll_prog clk ?c ?b arg st))) es2 (ret, nsp')"
    using assms unfolding raw_nfp_nsp_command_def Let_def trace_bind poll_prog_def
    by (elim exE conjE) (erule (1) that [OF _ back_subst [of "\<lambda>y. trace _ _ y", OF _ surjective_pairing]], simp only: split_def poll_prog_def)
  note check = check_trace [OF es(2)]
  obtain r0 where r0: "es1 = [Rd ?c (?b + NSP_STATUS) 8 r0]"
      "err = 0 \<Longrightarrow> \<exists>v. q_value r0 = Inr v \<and> FIELD_GET NSP_STATUS_MAGIC v = NSP_MAGIC \<and> v AND NSP_STATUS_BUSY = 0"
    using check(3) by blast
  show ?thesis
  proof (cases "err = 0")
    case False
    with t have "es2 = []" "ret = err" "nsp' = st" by simp_all
    with False check(1,2) es(1) r0(1) show ?thesis by simp
  next
    case True
    obtain v0 where v0: "q_value r0 = Inr v0" "FIELD_GET NSP_STATUS_MAGIC v0 = NSP_MAGIC" "v0 AND NSP_STATUS_BUSY = 0"
      using r0(2) [OF True] by blast
    note t = t [simplified True simp_thms if_False]
    from t show ?thesis
    proof (elim writeq_trace [elim_format] poll_trace [elim_format] exE conjE disjE)
      fix r1 es3 r1' es4 starts v1 busys status r2 answer
      assume "es2 = Wr ?c (?b + NSP_BUFFER) (put_unaligned_le64 (cmd_buf arg)) r1 # es3" "r1 = Inr 8"
        "es3 = Wr ?c (?b + NSP_COMMAND) (put_unaligned_le64 (nsp_command_word arg)) r1' # es4" "r1' = Inr 8"
        "es4 = map (Rd ?c (?b + NSP_COMMAND) 8) starts @ map (Rd ?c (?b + NSP_STATUS) 8) busys @ [Rd ?c (?b + NSP_COMMAND) 8 r2]"
      then have e: "es = [Rd ?c (?b + NSP_STATUS) 8 r0, Wr ?c (?b + NSP_BUFFER) (put_unaligned_le64 (cmd_buf arg)) (Inr 8),
          Wr ?c (?b + NSP_COMMAND) (put_unaligned_le64 (nsp_command_word arg)) (Inr 8)] @
          map (Rd ?c (?b + NSP_COMMAND) 8) starts @ map (Rd ?c (?b + NSP_STATUS) 8) busys @ [Rd ?c (?b + NSP_COMMAND) 8 r2]"
        using es(1) r0(1) by simp
      assume p: "polled NSP_COMMAND_START starts v1" "polled NSP_STATUS_BUSY busys status" "q_value r2 = Inr answer"
        "ret = nsp_command_result status answer" "nsp' = st"
      have "handshake ?c ?b arg es status answer" unfolding handshake_def using e v0 p(1-3) by blast
      moreover have "writes es = [(?c, ?b + NSP_BUFFER, put_unaligned_le64 (cmd_buf arg)),
          (?c, ?b + NSP_COMMAND, put_unaligned_le64 (nsp_command_word arg))]" unfolding e by simp
      ultimately show ?thesis using p(4,5) check(1) by auto
    qed (simp_all add: es(1) r0(1) check(1))
  qed
qed

section \<open>Memory and mappings of a scatter-gather command\<close>

text \<open>The objects that are allocated and those that are mapped; a call that uses an object wrongly is \<open>None\<close>.\<close>

fun dma_run :: "dma_obj set \<times> dma_obj set \<Rightarrow> dma_call list \<Rightarrow> (dma_obj set \<times> dma_obj set) option" where
  "dma_run (A, M) [] = Some (A, M)"
| "dma_run (A, M) (Kalloc b # cs) = (if b \<in> A then None else dma_run (insert b A, M) cs)"
| "dma_run (A, M) (Dma_map b # cs) = (if b \<notin> A \<or> b \<in> M then None else dma_run (A, insert b M) cs)"
| "dma_run (A, M) (Dma_unmap b # cs) = (if b \<notin> M then None else dma_run (A, M - {b}) cs)"
| "dma_run (A, M) (Kfree b # cs) = (if b \<notin> A \<or> b \<in> M then None else dma_run (A - {b}, M) cs)"

text \<open>Nothing is freed twice, freed while mapped, used after it was freed, or left behind.\<close>

definition dma_balanced :: "dma_call list \<Rightarrow> bool" where
  "dma_balanced cs \<longleftrightarrow> dma_run ({}, {}) cs = Some ({}, {})"

lemma dma_run_append: "dma_run S (cs @ cs') = (case dma_run S cs of None \<Rightarrow> None | Some S' \<Rightarrow> dma_run S' cs')"
  by (induction S cs rule: dma_run.induct) simp_all

abbreviation chunks_to :: "nat \<Rightarrow> dma_obj set" where
  "chunks_to n \<equiv> Chunk ` {..<n}"

lemma run_alloc_chunks: "dma_run ({}, {}) (alloc_chunks n) = Some (insert Chunk_array (chunks_to n), {})"
proof -
  have "dma_run ({Chunk_array}, {}) (map (\<lambda>j. Kalloc (Chunk j)) [0..<n]) = Some (insert Chunk_array (chunks_to n), {})"
    by (induction n) (auto simp: dma_run_append lessThan_Suc)
  then show ?thesis by (simp add: alloc_chunks_def)
qed

lemma run_mapped_chunks: "chunks_to i \<subseteq> A \<Longrightarrow> dma_run (A, {}) (mapped_chunks i) = Some (A, chunks_to i)"
  unfolding mapped_chunks_def by (induction i) (auto simp: dma_run_append lessThan_Suc)

lemma run_unmap_chunks: "dma_run (A, chunks_to i) (unmap_chunks i) = Some (A, {})"
  unfolding unmap_chunks_def
proof (induction i)
  case (Suc i)
  have "chunks_to (Suc i) - {Chunk i} = chunks_to i" by (auto simp: less_Suc_eq)
  with Suc show ?case by (simp add: lessThan_Suc)
qed simp

lemma run_free_chunks: "dma_run (insert Chunk_array (chunks_to n), {}) (free_chunks n) = Some ({}, {})"
proof -
  have "dma_run (insert Chunk_array (chunks_to n), {}) (map (\<lambda>j. Kfree (Chunk j)) (rev [0..<n])) = Some ({Chunk_array}, {})"
  proof (induction n)
    case (Suc n)
    have "insert Chunk_array (chunks_to (Suc n)) - {Chunk n} = insert Chunk_array (chunks_to n)" by (auto simp: less_Suc_eq)
    with Suc show ?case by (simp add: lessThan_Suc)
  qed simp
  then show ?thesis by (simp add: free_chunks_def dma_run_append)
qed

lemmas dma_runs = run_alloc_chunks run_mapped_chunks run_unmap_chunks run_free_chunks dma_run_append

lemma desc_runs:
  "dma_run (insert Chunk_array (chunks_to n), M) (Kalloc Dma_desc # cs) = dma_run (insert Dma_desc (insert Chunk_array (chunks_to n)), M) cs"
  "Dma_desc \<notin> A \<Longrightarrow> dma_run (insert Dma_desc A, chunks_to i) (Kfree Dma_desc # cs) = dma_run (A, chunks_to i) cs"
  "dma_run (insert Dma_desc A, chunks_to i) (Dma_map Dma_desc # Dma_unmap Dma_desc # cs) = dma_run (insert Dma_desc A, chunks_to i) cs"
  by auto

lemma sg_calls_balanced:
  shows "dma_balanced []" and "dma_balanced (alloc_chunks i @ free_chunks i)"
    and "i \<le> n \<Longrightarrow> dma_balanced (alloc_chunks n @ mapped_chunks i @ unmap_chunks i @ free_chunks n)"
    and "dma_balanced (alloc_chunks n @ mapped_chunks n @ [Kalloc Dma_desc, Kfree Dma_desc] @ unmap_chunks n @ free_chunks n)"
    and "dma_balanced (alloc_chunks n @ mapped_chunks n @
      [Kalloc Dma_desc, Dma_map Dma_desc, Dma_unmap Dma_desc, Kfree Dma_desc] @ unmap_chunks n @ free_chunks n)"
proof -
  have sub: "i \<le> n \<Longrightarrow> chunks_to i \<subseteq> insert Chunk_array (chunks_to n)" for i by auto
  have d: "Dma_desc \<notin> insert Chunk_array (chunks_to n)" by auto
  show "dma_balanced []" by (simp add: dma_balanced_def)
  show "dma_balanced (alloc_chunks i @ free_chunks i)" by (simp add: dma_balanced_def dma_runs)
  show "dma_balanced (alloc_chunks n @ mapped_chunks i @ unmap_chunks i @ free_chunks n)" if "i \<le> n"
    using sub [OF that] by (simp add: dma_balanced_def dma_runs)
  show "dma_balanced (alloc_chunks n @ mapped_chunks n @ [Kalloc Dma_desc, Kfree Dma_desc] @ unmap_chunks n @ free_chunks n)"
    using sub [OF order_refl] d by (simp add: dma_balanced_def dma_runs desc_runs del: dma_run.simps)
  show "dma_balanced (alloc_chunks n @ mapped_chunks n @
      [Kalloc Dma_desc, Dma_map Dma_desc, Dma_unmap Dma_desc, Kfree Dma_desc] @ unmap_chunks n @ free_chunks n)"
    using sub [OF order_refl] d by (simp add: dma_balanced_def dma_runs desc_runs del: dma_run.simps)
qed

section \<open>Scattered buffers\<close>

text \<open>The buffer the chunks stand for: the input, then zeros.\<close>

definition flat_buf :: "u8 list \<Rightarrow> nat \<Rightarrow> nat \<Rightarrow> u8 list" where
  "flat_buf inp in_len max_size = take in_len inp @ replicate (max_size - in_len) 0"

lemma chunk_of_flat:
  assumes "in_len \<le> length inp" "in_len \<le> max_size" "coff = (if in_len > off then min (in_len - off) cs else 0)"
  shows "take (min cs (max_size - off)) (take coff (drop off inp) @ replicate (cs - coff) 0) =
    take (min cs (max_size - off)) (drop off (flat_buf inp in_len max_size))"
proof (cases "in_len \<le> off")
  case True
  then show ?thesis using assms by (simp add: flat_buf_def)
next
  case False
  let ?n = "min cs (max_size - off)"
  have f: "drop off (flat_buf inp in_len max_size) = take (in_len - off) (drop off inp) @ replicate (max_size - in_len) 0"
    using False assms(1) by (simp add: flat_buf_def drop_take)
  show ?thesis
  proof (cases "cs \<le> in_len - off")
    case True
    then have "?n \<le> in_len - off" "coff = cs" using False assms(3) by simp_all
    then show ?thesis using assms(1) by (simp add: f)
  next
    case small: False
    then have c: "coff = in_len - off" using False assms(3) by simp
    have l: "length (take coff (drop off inp)) = coff" using assms(1) by (simp add: c)
    have k: "?n - coff \<le> cs - coff" "?n - coff \<le> max_size - in_len" using False unfolding c by linarith+
    have r: "take (?n - coff) (replicate m 0) = replicate (?n - coff) (0 :: u8)" if "?n - coff \<le> m" for m
      unfolding take_replicate min_absorb1 [OF that] ..
    show ?thesis unfolding f c [symmetric] take_append l r [OF k(1)] r [OF k(2)] ..
  qed
qed

lemma fill_chunks_ok:
  assumes "list_all alloc_ok is" "in_len \<le> length inp" "in_len \<le> max_size" "max_size \<le> off + cs * length is" "off \<le> max_size"
  shows "\<exists>chunks. fill_chunks alloc_ok inp in_len max_size cs off is = (chunks, None) \<and> length chunks = length is \<and>
    sum_list (map chunk_len chunks) = max_size - off \<and>
    list_all (\<lambda>c. chunk_len c \<le> length (chunk_data c) \<and> chunk_len c \<le> cs \<and> chunk_len c \<le> max_size) chunks \<and>
    concat (map (\<lambda>c. take (chunk_len c) (chunk_data c)) chunks) = drop off (flat_buf inp in_len max_size)"
  using assms
proof (induction "is" arbitrary: off)
  case Nil
  then show ?case by (simp add: flat_buf_def)
next
  case (Cons i "is")
  let ?len = "min cs (max_size - off)"
  let ?coff = "if in_len > off then min (in_len - off) cs else 0"
  let ?data = "take ?coff (drop off inp) @ replicate (cs - ?coff) 0"
  have "max_size \<le> off + ?len + cs * length is" "off + ?len \<le> max_size" using Cons.prems(4,5) by (auto simp: min_def)
  then obtain chunks where IH: "fill_chunks alloc_ok inp in_len max_size cs (off + ?len) is = (chunks, None)"
      "length chunks = length is" "sum_list (map chunk_len chunks) = max_size - (off + ?len)"
      "list_all (\<lambda>c. chunk_len c \<le> length (chunk_data c) \<and> chunk_len c \<le> cs \<and> chunk_len c \<le> max_size) chunks"
      "concat (map (\<lambda>c. take (chunk_len c) (chunk_data c)) chunks) = drop (off + ?len) (flat_buf inp in_len max_size)"
    using Cons.IH [of "off + ?len"] Cons.prems(1-3) by auto
  have d: "take ?len ?data = take ?len (drop off (flat_buf inp in_len max_size))"
    using Cons.prems(2,3) refl by (rule chunk_of_flat)
  have l: "length ?data = cs" using Cons.prems(2) by simp
  have j: "take ?len (drop off (flat_buf inp in_len max_size)) @ drop (off + ?len) (flat_buf inp in_len max_size) =
      drop off (flat_buf inp in_len max_size)" by (metis append_take_drop_id drop_drop add.commute)
  let ?c = "\<lparr> chunk_len = ?len, chunk_data = ?data \<rparr>"
  have "fill_chunks alloc_ok inp in_len max_size cs off (i # is) = (?c # chunks, None)"
    using Cons.prems(1) by (simp add: Let_def IH(1) del: min_def)
  moreover have "sum_list (map chunk_len (?c # chunks)) = max_size - off" using IH(3) by simp
  moreover have "list_all (\<lambda>c. chunk_len c \<le> length (chunk_data c) \<and> chunk_len c \<le> cs \<and> chunk_len c \<le> max_size) (?c # chunks)"
    using IH(4) l by simp
  moreover have "concat (map (\<lambda>c. take (chunk_len c) (chunk_data c)) (?c # chunks)) = drop off (flat_buf inp in_len max_size)"
    using IH(5) d j by simp
  ultimately show ?case using IH(2) by auto
qed

lemma gather_ok:
  assumes "out_len - off \<le> sum_list (map fst cs)"
  shows "gather out_len off cs \<noteq> None"
    and "list_all (\<lambda>c. fst c \<le> length (snd c)) cs \<Longrightarrow>
      gather out_len off cs = Some (take (out_len - off) (concat (map (\<lambda>c. take (fst c) (snd c)) cs)))"
proof -
  show "gather out_len off cs \<noteq> None" using assms
  proof (induction cs arbitrary: off)
    case (Cons c cs)
    then have "gather out_len (off + min (fst c) (out_len - off)) cs \<noteq> None" by (intro Cons.IH) (auto simp: min_def)
    then show ?case by (simp add: Let_def)
  qed simp
  show "list_all (\<lambda>c. fst c \<le> length (snd c)) cs \<Longrightarrow>
      gather out_len off cs = Some (take (out_len - off) (concat (map (\<lambda>c. take (fst c) (snd c)) cs)))" using assms
  proof (induction cs arbitrary: off)
    case (Cons c cs)
    let ?len = "min (fst c) (out_len - off)"
    have "gather out_len (off + ?len) cs = Some (take (out_len - (off + ?len)) (concat (map (\<lambda>c. take (fst c) (snd c)) cs)))"
      using Cons.prems by (intro Cons.IH) (auto simp: min_def)
    then show ?case using Cons.prems(1) by (auto simp: Let_def min_def)
  qed simp
qed

section \<open>Programs that return\<close>

text \<open>Whatever the device answers, the program returns a result with the property \<open>P\<close>, and the length of each access
  has the property \<open>L\<close>; in particular the program never uses a null pointer.\<close>

primrec always_on :: "(nat \<Rightarrow> bool) \<Rightarrow> ('a \<Rightarrow> bool) \<Rightarrow> 'a cppm \<Rightarrow> bool" where
  "always_on L P (Return x) = P x"
| "always_on L P (Cpp_read cpp_id a n k) = (L n \<and> (\<forall>r. always_on L P (k r)))"
| "always_on L P (Cpp_write cpp_id a bs k) = (L (length bs) \<and> (\<forall>r. always_on L P (k r)))"
| "always_on L P Fault = False"

abbreviation always :: "('a \<Rightarrow> bool) \<Rightarrow> 'a cppm \<Rightarrow> bool" where
  "always \<equiv> always_on (\<lambda>_. True)"

lemma always_run: "always_on L P p \<Longrightarrow> \<exists>x s'. run D p s = Some (x, s') \<and> P x"
proof (induction p arbitrary: s)
  case (Cpp_read cpp_id a n k)
  then show ?case by (cases "dev_read D cpp_id a n s") simp
next
  case (Cpp_write cpp_id a bs k)
  then show ?case by (cases "dev_write D cpp_id a bs s") simp
qed auto

lemma always_bind: "always_on L Q p \<Longrightarrow> (\<And>x. Q x \<Longrightarrow> always_on L P (f x)) \<Longrightarrow> always_on L P (cpp_bind p f)"
  by (induction p) auto

lemma always_readq: "L 8 \<Longrightarrow> (\<And>r. always_on L P (k r)) \<Longrightarrow> always_on L P (nfp_cpp_readq cpp_id a k)"
  by (auto simp: nfp_cpp_readq_def split: sum.split)

lemma always_writeq: "L 8 \<Longrightarrow> (\<And>r. always_on L P (k r)) \<Longrightarrow> always_on L P (nfp_cpp_writeq cpp_id a v k)"
  by (auto simp: nfp_cpp_writeq_def split: sum.split)

lemma always_wait_reg: "L 8 \<Longrightarrow> always_on L (\<lambda>_. True) (nfp_nsp_wait_reg polls c a m v)"
  by (induction polls) (auto intro!: always_readq split: sum.split)

lemma always_check: "L 8 \<Longrightarrow> always_on L (\<lambda>(_, nsp'). nsp_res nsp' = nsp_res nsp) (nfp_nsp_check nsp)"
  by (auto simp: nfp_nsp_check_def Let_def intro!: always_readq split: sum.split)

lemma always_command: "L 8 \<Longrightarrow> always_on L (\<lambda>(_, nsp'). nsp_res nsp' = nsp_res nsp) (raw_nfp_nsp_command clk nsp arg)"
  unfolding raw_nfp_nsp_command_def Let_def
  by (rule always_bind [OF always_check])
    (auto intro!: always_readq always_writeq always_bind [OF always_wait_reg] split: sum.split)

lemma always_write_when: "(c \<Longrightarrow> L (length bs)) \<Longrightarrow> always_on L (\<lambda>_. True) (write_when c cpp_id a bs)"
  by (auto simp: write_when_def split: sum.split)

text \<open>Buffers are as long as their sizes say; the lengths of the transfers of a command.\<close>

definition arg_ok :: "nfp_nsp_command_buf_arg \<Rightarrow> bool" where
  "arg_ok arg \<longleftrightarrow>
     (case in_buf arg of None \<Rightarrow> in_size arg = 0 | Some inp \<Rightarrow> unat (in_size arg) \<le> length inp) \<and>
     (case out_buf arg of None \<Rightarrow> out_size arg = 0 | Some out \<Rightarrow> unat (out_size arg) \<le> length out)"

definition buf_lens :: "(nat \<Rightarrow> bool) \<Rightarrow> nfp_nsp_command_buf_arg \<Rightarrow> bool" where
  "buf_lens L arg \<longleftrightarrow>
     L 8 \<and> (in_size arg \<noteq> 0 \<longrightarrow> L (unat (in_size arg))) \<and> (out_size arg \<noteq> 0 \<longrightarrow> L (unat (out_size arg))) \<and>
     (in_size arg < out_size arg \<longrightarrow> L (unat (out_size arg) - unat (in_size arg)))"

lemma always_buf_dflt:
  assumes "buf_lens L arg" "arg_ok arg"
  shows "always_on L (\<lambda>(_, nsp', _). nsp_res nsp' = nsp_res nsp) (nfp_nsp_command_buf_dflt clk nsp arg)"
proof -
  have i: "has_bytes (in_buf arg) (in_size arg) \<Longrightarrow> L (length (take (unat (in_size arg)) (the (in_buf arg))))"
    and o: "has_bytes (out_buf arg) (out_size arg) \<and> in_size arg < out_size arg \<Longrightarrow>
      L (length (take (unat (out_size arg) - unat (in_size arg)) (the (out_buf arg))))"
    and r: "L 8" "has_bytes (out_buf arg) (out_size arg) \<Longrightarrow> L (unat (out_size arg))"
    using assms by (auto simp: arg_ok_def buf_lens_def has_bytes_def min_absorb2 split: option.splits)
  show ?thesis
    unfolding nfp_nsp_command_buf_dflt_def Let_def
    by (auto intro!: always_readq always_bind [OF always_write_when [where L = L, OF i]] always_bind [OF always_write_when [where L = L, OF o]]
        always_bind [OF always_command] r split: sum.split)
qed

section \<open>Scatter-gather commands\<close>

text \<open>The processor leaves as many chunks as it got.\<close>

definition fills_chunks :: "dma_env \<Rightarrow> bool" where
  "fills_chunks env \<longleftrightarrow> (\<forall>desc cs. length (dma_fill env desc cs) = length cs)"

fun buf_post :: "nfp_nsp \<Rightarrow> int \<times> nfp_nsp \<times> u8 list option \<times> dma_call list \<Rightarrow> bool" where
  "buf_post nsp (_, nsp', _, calls) \<longleftrightarrow> nsp_res nsp' = nsp_res nsp \<and> dma_balanced calls"

lemma fill_chunks_None: "fill_chunks alloc_ok inp in_len max_size cs off is = (chunks, None) \<Longrightarrow> list_all alloc_ok is"
  by (induction "is" arbitrary: off chunks) (auto simp: Let_def split: if_splits prod.splits)

lemma fill_chunks_failed: "fill_chunks alloc_ok inp in_len max_size cs off [j..<n] = (chunks, Some i) \<Longrightarrow> i = j + length chunks"
proof (induction "n - j" arbitrary: j off chunks)
  case (Suc k)
  then have u: "[j..<n] = j # [Suc j..<n]" by (simp add: upt_conv_Cons)
  show ?case
  proof (cases "alloc_ok j")
    case True
    then obtain off' where "chunks \<noteq> []" "fill_chunks alloc_ok inp in_len max_size cs off' [Suc j..<n] = (tl chunks, Some i)"
      using Suc.prems unfolding u by (auto simp: Let_def split: prod.splits)
    then show ?thesis using Suc.hyps(1) [of "Suc j" off' "tl chunks"] Suc.hyps(2) by (cases chunks) auto
  next
    case False
    then show ?thesis using Suc.prems unfolding u by auto
  qed
qed simp

lemma map_chunks_failed:
  "map_chunks f dma_size i cs = (addrs, Some (err, j)) \<Longrightarrow> j = i + length addrs \<and> j \<le> i + length cs"
proof (induction cs arbitrary: i addrs)
  case (Cons c cs)
  then show ?case by (fastforce simp: Let_def split: option.splits if_splits prod.splits)
qed simp

lemma div_round_up: "0 < c \<Longrightarrow> m \<le> c * ((m + c - 1) div c)" for m c :: nat
  using dividend_less_times_div [of c "m + c - 1"] by linarith

lemma sg_fill:
  assumes f: "fill_chunks alloc_ok inp in_len max_size cs 0 [0..<(max_size + cs - 1) div cs] = (chunks, None)"
    and "0 < cs" "in_len \<le> length inp" "in_len \<le> max_size"
  shows "length chunks = (max_size + cs - 1) div cs" "sum_list (map chunk_len chunks) = max_size"
    "list_all (\<lambda>c. chunk_len c \<le> length (chunk_data c) \<and> chunk_len c \<le> cs \<and> chunk_len c \<le> max_size) chunks"
    "concat (map (\<lambda>c. take (chunk_len c) (chunk_data c)) chunks) = flat_buf inp in_len max_size"
proof -
  have le: "max_size \<le> 0 + cs * length [0..<(max_size + cs - 1) div cs]" using div_round_up [OF assms(2), of max_size] by simp
  note F = fill_chunks_ok [OF fill_chunks_None [OF f] assms(3,4) le le0, unfolded f]
  from F show "length chunks = (max_size + cs - 1) div cs" "sum_list (map chunk_len chunks) = max_size"
    "list_all (\<lambda>c. chunk_len c \<le> length (chunk_data c) \<and> chunk_len c \<le> cs \<and> chunk_len c \<le> max_size) chunks"
    "concat (map (\<lambda>c. take (chunk_len c) (chunk_data c)) chunks) = flat_buf inp in_len max_size" by auto
qed

lemma always_dma_sg:
  assumes L: "L 8" and arg: "arg_ok arg" and env: "fills_chunks env" and max: "unat (in_size arg) \<le> max_size" "unat (out_size arg) \<le> max_size"
  shows "always_on L (buf_post nsp)
    (nfp_nsp_command_buf_dma_sg clk env nsp arg max_size chunk_order dma_order)"
proof -
  let ?nseg = "(max_size + 2 ^ chunk_order - 1) div 2 ^ chunk_order"
  let ?inp = "case in_buf arg of None \<Rightarrow> [] | Some inp \<Rightarrow> inp"
  obtain chunks failed where f: "fill_chunks (chunk_alloc_ok env) ?inp (unat (in_size arg)) max_size (2 ^ chunk_order) 0 [0..<?nseg] = (chunks, failed)"
    by fastforce
  obtain addrs mfail where m: "map_chunks (map_chunk env) (BIT_ULL dma_order) 0 chunks = (addrs, mfail)" by fastforce
  have inp: "unat (in_size arg) \<le> length ?inp" using arg by (auto simp: arg_ok_def split: option.splits)
  show ?thesis
  proof (cases failed)
    case (Some i)
    then show ?thesis using f fill_chunks_failed [OF f [unfolded Some]]
      by (simp add: nfp_nsp_command_buf_dma_sg_def Let_def sg_calls_balanced)
  next
    case None
    note c = sg_fill [OF f [unfolded None] _ inp max(1), simplified]
    have out: "gather (unat (out_size arg)) 0 (zip (map chunk_len chunks) (dma_fill env desc (map chunk_data chunks))) \<noteq> None" for desc
      by (rule gather_ok) (use env c(2) max(2) in \<open>simp add: fills_chunks_def\<close>)
    show ?thesis
    proof (cases mfail)
      case (Some e)
      then obtain err j where e: "mfail = Some (err, j)" by (cases e) simp
      have "j \<le> ?nseg" "j = length addrs" using map_chunks_failed [OF m [unfolded e]] c(1) by simp_all
      then show ?thesis using f m None e by (simp add: nfp_nsp_command_buf_dma_sg_def Let_def sg_calls_balanced)
    next
      case mNone: None
      have "\<exists>g. \<forall>desc. gather (unat (out_size arg)) 0 (zip (map chunk_len chunks) (dma_fill env desc (map chunk_data chunks))) = Some (g desc)"
        using out by (intro choice) auto
      then obtain g where "\<And>desc. gather (unat (out_size arg)) 0
          (zip (map chunk_len chunks) (dma_fill env desc (map chunk_data chunks))) = Some (g desc)" by blast
      then show ?thesis using f m None mNone
        by (auto simp: nfp_nsp_command_buf_dma_sg_def Let_def sg_calls_balanced [simplified]
            intro!: always_bind [OF always_command [where L = L]] L split: option.splits)
    qed
  qed
qed

lemma always_buf_dma:
  assumes "L 8" "arg_ok arg" "fills_chunks env" "unat (in_size arg) \<le> max_size" "unat (out_size arg) \<le> max_size"
  shows "always_on L (buf_post nsp)
    (nfp_nsp_command_buf_dma clk env nsp arg max_size dma_order)"
  unfolding nfp_nsp_command_buf_dma_def Let_def
  by (rule always_readq [where L = L, OF assms(1)]) (auto simp: sg_calls_balanced intro!: always_dma_sg assms split: sum.split)

lemma always_buf:
  assumes "buf_lens L arg" "arg_ok arg" "fills_chunks env"
  shows "always_on L (buf_post nsp) (nfp_nsp_command_buf clk env nsp arg)"
proof -
  let ?n = "unat (out_size arg) - unat (in_size arg)"
  let ?arg = "if has_bytes (out_buf arg) (out_size arg) \<and> in_size arg < out_size arg
    then arg\<lparr> out_buf := map_option (\<lambda>out. replicate ?n 0 @ drop ?n out) (out_buf arg) \<rparr> else arg"
  let ?max = "unat (max (in_size ?arg) (out_size ?arg))"
  have a: "arg_ok ?arg" using assms(2) by (auto simp: arg_ok_def split: option.splits)
  have b: "buf_lens L ?arg" using assms(1) by (simp add: buf_lens_def)
  have L: "L 8" using assms(1) by (simp add: buf_lens_def)
  have m: "unat (in_size ?arg) \<le> ?max" "unat (out_size ?arg) \<le> ?max" by (simp_all add: max_def word_le_nat_alt)
  have d: "always_on L (buf_post nsp)
      (cpp_bind (nfp_nsp_command_buf_dflt clk nsp ?arg) (\<lambda>(ret, nsp, out). Return (ret, nsp, out, [])))"
    by (rule always_bind [OF always_buf_dflt [OF b a]]) (auto simp: sg_calls_balanced)
  show ?thesis
    unfolding nfp_nsp_command_buf_def Let_def
    using always_buf_dma [where L = L, OF L a assms(3) m, of nsp clk] d L
    by (auto intro!: always_readq simp: sg_calls_balanced split: sum.split)
qed

text \<open>C13. A command with a buffer returns for every device, every failure of an allocation or a mapping and every
  size: it keeps its resource, and whatever memory and mappings it took are given back, each once, unmapped before
  it is freed.\<close>

theorem nsp_buf_balanced:
  assumes "arg_ok arg" "fills_chunks env"
  shows "\<exists>ret nsp' out calls s'. run D (nfp_nsp_command_buf clk env nsp arg) s = Some ((ret, nsp', out, calls), s') \<and>
    dma_balanced calls \<and> nsp_res nsp' = nsp_res nsp"
  using always_run [OF always_buf [OF _ assms, of "\<lambda>_. True" nsp clk], of D s] by (auto simp: buf_lens_def)

text \<open>The chunks of a descriptor as one buffer, and a processor that treats them as such.\<close>

definition dma_view :: "nfp_nsp_dma_buf \<Rightarrow> u8 list list \<Rightarrow> u8 list" where
  "dma_view desc cs = concat (map2 (\<lambda>d c. take (unat (fst d)) c) (dma_descs desc) cs)"

definition processor_flat :: "dma_env \<Rightarrow> (u8 list \<Rightarrow> u8 list) \<Rightarrow> bool" where
  "processor_flat env f \<longleftrightarrow>
     (\<forall>desc cs. length cs = length (dma_descs desc) \<longrightarrow>
        map length (dma_fill env desc cs) = map length cs \<and> dma_view desc (dma_fill env desc cs) = f (dma_view desc cs))"

text \<open>Memory and mappings for a command are available.\<close>

definition dma_ready :: "dma_env \<Rightarrow> nat \<Rightarrow> nat \<Rightarrow> nat \<Rightarrow> u64 \<Rightarrow> bool" where
  "dma_ready env nseg chunk_size dma_order dma_desc \<longleftrightarrow>
     chunks_alloc_ok env \<and> desc_alloc_ok env \<and> map_desc env = Some dma_desc \<and>
     (\<forall>i<nseg. chunk_alloc_ok env i \<and>
        (\<exists>addr. map_chunk env i = Some addr \<and>
           (\<forall>len\<le>chunk_size. round_down addr (BIT_ULL dma_order) = round_down (addr + of_nat len - 1) (BIT_ULL dma_order))))"

lemma map_chunks_ok:
  assumes "\<forall>j<i + length cs. \<exists>addr. f j = Some addr \<and> (\<forall>len\<le>n. round_down addr d = round_down (addr + of_nat len - 1) d)"
    and "list_all (\<lambda>c. chunk_len c \<le> n) cs"
  shows "\<exists>addrs. map_chunks f d i cs = (addrs, None) \<and> length addrs = length cs"
  using assms
proof (induction cs arbitrary: i)
  case (Cons c cs)
  have i: "i < i + length (c # cs)" by simp
  obtain addr where a: "f i = Some addr" "\<forall>len\<le>n. round_down addr d = round_down (addr + of_nat len - 1) d"
    using Cons.prems(1) [rule_format, OF i] by blast
  have "chunk_len c \<le> n" using Cons.prems(2) by simp
  with a(2) have "round_down addr d = round_down (addr + of_nat (chunk_len c) - 1) d" by blast
  moreover obtain addrs where "map_chunks f d (Suc i) cs = (addrs, None)" "length addrs = length cs"
    using Cons.IH [of "Suc i"] Cons.prems by auto
  ultimately show ?case using a(1) by (simp add: Let_def)
qed simp

lemma view_zip:
  assumes "length addrs = length ls" "list_all (\<lambda>l. l < 2 ^ 32) ls"
  shows "dma_view \<lparr> dma_chunk_cnt = n, dma_descs = zip (map of_nat ls) addrs \<rparr> cs = concat (map (\<lambda>c. take (fst c) (snd c)) (zip ls cs))"
  using assms
proof (induction ls arbitrary: addrs cs)
  case (Cons l ls)
  then obtain a addrs' where "addrs = a # addrs'" by (cases addrs) auto
  with Cons show ?case by (cases cs) (simp_all add: dma_view_def unat_of_nat take_bit_nat_eq_self)
qed (simp add: dma_view_def)

lemma sg_gather:
  assumes len: "length addrs = length chunks" and f: "processor_flat env f"
    and c: "list_all (\<lambda>c. chunk_len c \<le> length (chunk_data c) \<and> chunk_len c < 2 ^ 32) chunks"
    and out: "out_len \<le> sum_list (map chunk_len chunks)"
  shows "gather out_len 0 (zip (map chunk_len chunks)
      (dma_fill env \<lparr> dma_chunk_cnt = n, dma_descs = zip (map (\<lambda>c. of_nat (chunk_len c)) chunks) addrs \<rparr> (map chunk_data chunks))) =
    Some (take out_len (f (concat (map (\<lambda>c. take (chunk_len c) (chunk_data c)) chunks))))"
proof -
  let ?ls = "map chunk_len chunks" and ?ds = "map chunk_data chunks"
  let ?desc = "\<lparr> dma_chunk_cnt = n, dma_descs = zip (map of_nat ?ls) addrs \<rparr>"
  let ?filled = "dma_fill env ?desc ?ds"
  have d: "?desc = \<lparr> dma_chunk_cnt = n, dma_descs = zip (map (\<lambda>c. of_nat (chunk_len c)) chunks) addrs \<rparr>" by (simp add: comp_def)
  have ls: "list_all (\<lambda>l. l < 2 ^ 32) ?ls" using c by (auto simp: list_all_iff)
  have view: "dma_view ?desc cs = concat (map (\<lambda>c. take (fst c) (snd c)) (zip ?ls cs))" for cs
    by (rule view_zip [OF _ ls]) (simp add: len)
  have p: "map length ?filled = map length ?ds" "dma_view ?desc ?filled = f (dma_view ?desc ?ds)"
    using f len by (simp_all add: processor_flat_def)
  have l: "length ?filled = length chunks" using arg_cong [OF p(1), of length] by simp
  have "map (\<lambda>c. take (fst c) (snd c)) (zip ?ls ?ds) = map (\<lambda>c. take (chunk_len c) (chunk_data c)) chunks"
    by (simp add: zip_map_map zip_same_conv_map)
  then have v: "dma_view ?desc ?filled = f (concat (map (\<lambda>c. take (chunk_len c) (chunk_data c)) chunks))"
    using p(2) view [of ?ds] by simp
  have "length (?filled ! i) = length (chunk_data (chunks ! i))" if "i < length chunks" for i
    using arg_cong [OF p(1), of "\<lambda>xs. xs ! i"] that l by simp
  then have "list_all (\<lambda>c. fst c \<le> length (snd c)) (zip ?ls ?filled)"
    using c l by (simp add: list_all_length)
  then have "gather out_len 0 (zip ?ls ?filled) = Some (take out_len (dma_view ?desc ?filled))"
    unfolding view using gather_ok(2) [of out_len 0 "zip ?ls ?filled"] l out by simp
  then have "gather out_len 0 (zip ?ls ?filled) = Some (take out_len (f (concat (map (\<lambda>c. take (chunk_len c) (chunk_data c)) chunks))))"
    unfolding v .
  then show ?thesis unfolding d .
qed

text \<open>C14. With memory and mappings available, a scatter-gather command is the command on one flat buffer: the
  processor sees the input followed by zeros, and the output is the front of the buffer as the processor left it,
  however the buffer is cut into chunks.\<close>

theorem dma_sg_flat:
  assumes arg: "arg_ok arg" and f: "processor_flat env f"
    and max: "unat (in_size arg) \<le> max_size" "unat (out_size arg) \<le> max_size" "max_size < 2 ^ 32"
    and nseg: "nseg = (max_size + 2 ^ chunk_order - 1) div 2 ^ chunk_order"
    and ready: "dma_ready env nseg (2 ^ chunk_order) dma_order dma_desc"
  shows "nfp_nsp_command_buf_dma_sg clk env nsp arg max_size chunk_order dma_order =
    cpp_bind (raw_nfp_nsp_command clk nsp ((buf_cmd arg)\<lparr> cmd_dma := True, cmd_buf := dma_desc \<rparr>))
      (\<lambda>(ret, nsp').
         let inp = (case in_buf arg of None \<Rightarrow> [] | Some inp \<Rightarrow> inp);
             outp = take (unat (out_size arg)) (f (flat_buf inp (unat (in_size arg)) max_size)) in
         Return (ret, nsp', if ret < 0 then out_buf arg else map_option (\<lambda>out. outp @ drop (length outp) out) (out_buf arg),
           alloc_chunks nseg @ mapped_chunks nseg @ [Kalloc Dma_desc, Dma_map Dma_desc, Dma_unmap Dma_desc, Kfree Dma_desc] @
           unmap_chunks nseg @ free_chunks nseg))"
proof -
  let ?inp = "case in_buf arg of None \<Rightarrow> [] | Some inp \<Rightarrow> inp"
  have inp: "unat (in_size arg) \<le> length ?inp" using arg by (auto simp: arg_ok_def split: option.splits)
  have ok: "list_all (chunk_alloc_ok env) [0..<nseg]" using ready by (simp add: dma_ready_def list_all_iff)
  have "max_size \<le> 0 + 2 ^ chunk_order * length [0..<nseg]" using div_round_up [of "2 ^ chunk_order" max_size] by (simp add: nseg)
  from fill_chunks_ok [OF ok inp max(1) this le0]
  obtain chunks where fc: "fill_chunks (chunk_alloc_ok env) ?inp (unat (in_size arg)) max_size (2 ^ chunk_order) 0 [0..<nseg] = (chunks, None)"
    by blast
  note c = sg_fill [OF fc [unfolded nseg] _ inp max(1), simplified]
  have "\<forall>j<0 + length chunks. \<exists>addr. map_chunk env j = Some addr \<and>
      (\<forall>len\<le>2 ^ chunk_order. round_down addr (BIT_ULL dma_order) = round_down (addr + of_nat len - 1) (BIT_ULL dma_order))"
    using ready c(1) by (simp add: dma_ready_def nseg)
  moreover have "list_all (\<lambda>c. chunk_len c \<le> 2 ^ chunk_order) chunks" using c(3) by (auto simp: list_all_iff)
  ultimately obtain addrs where a: "map_chunks (map_chunk env) (BIT_ULL dma_order) 0 chunks = (addrs, None)" "length addrs = length chunks"
    using map_chunks_ok by blast
  have "list_all (\<lambda>c. chunk_len c \<le> length (chunk_data c) \<and> chunk_len c < 2 ^ 32) chunks"
    using c(3) max(3) by (auto simp: list_all_iff)
  note g = sg_gather [OF a(2) f this, unfolded c(2,4), OF max(2)]
  have n: "(max_size + 2 ^ chunk_order - Suc 0) div 2 ^ chunk_order = nseg" by (simp add: nseg)
  show ?thesis
    using ready fc a(1)
    by (auto simp: nfp_nsp_command_buf_dma_sg_def Let_def dma_ready_def n g intro!: arg_cong [where f = "cpp_bind _"] ext)
qed

section \<open>Opening and closing the processor\<close>

lemma check_run:
  assumes "long_reads D word"
  obtains err nsp' s' where "run D (nfp_nsp_check nsp) s = Some ((err, nsp'), s')" "nsp_res nsp' = nsp_res nsp" "word s' = word s"
proof -
  have c: "always_on (\<lambda>n. n \<noteq> 4) (\<lambda>(_, nsp'). nsp_res nsp' = nsp_res nsp) (nfp_nsp_check nsp)"
    by (rule always_check) simp
  obtain err nsp' s' where r: "run D (nfp_nsp_check nsp) s = Some ((err, nsp'), s')" "nsp_res nsp' = nsp_res nsp"
    using always_run [OF c, of D s] by auto
  obtain q s2 where q: "dev_read D (res_cpp_id (nsp_res nsp)) (res_addr (nsp_res nsp) + NSP_STATUS) 8 s = (q, s2)" by fastforce
  have "s' = s2" using r(1) q by (auto simp: nfp_nsp_check_def nfp_cpp_readq_def Let_def split: sum.splits if_splits)
  moreover have "word s2 = word s" using assms _ q by (rule long_readsD) simp
  ultimately show ?thesis using that r by blast
qed

text \<open>C24. Opening the service processor takes its lock exactly when it succeeds: after an error, of the allocation or
  because the processor does not answer as it should, the lock is free again, and closing an opened processor
  frees it; no other word of the table changes.\<close>

theorem nsp_open_releases:
  assumes D: "mu_device D word" "long_reads D word" "NFP_CPP_INTERFACE_TYPE_of interface \<noteq> NFP_CPP_INTERFACE_TYPE_INVALID"
    and res: "resource_key crc32_be NFP_RESOURCE_NSP \<noteq> NFP_RESOURCE_TBL_KEY" "env_ok env" "table_free (word s)"
      "table_find (word s) (resource_key crc32_be NFP_RESOURCE_NSP) [0..<NFP_RESOURCE_TBL_ENTRIES] = Some i"
      "nfp_mutex_is_unlocked (word s (entry_addr i))"
  shows "\<exists>r s'. run D (nfp_nsp_open crc32_be env alloc_ok interface) s = Some (r, s') \<and>
    word s' = (word s)(entry_addr i := (case r of Inl _ \<Rightarrow> nfp_mutex_unlocked interface | Inr _ \<Rightarrow> nfp_mutex_locked interface),
                       NFP_RESOURCE_TBL_BASE := nfp_mutex_unlocked interface) \<and>
    (\<forall>state t. r = Inr state \<and> word t = word s' \<longrightarrow>
       (\<exists>t'. run D (nfp_nsp_close interface state) t = Some ((), t') \<and>
             word t' = (word s)(entry_addr i := nfp_mutex_unlocked interface, NFP_RESOURCE_TBL_BASE := nfp_mutex_unlocked interface)))"
proof -
  let ?free = "(word s)(entry_addr i := nfp_mutex_unlocked interface, NFP_RESOURCE_TBL_BASE := nfp_mutex_unlocked interface)"
  let ?held = "(word s)(entry_addr i := nfp_mutex_locked interface, NFP_RESOURCE_TBL_BASE := nfp_mutex_unlocked interface)"
  have name: "c_str (strscpy_name NFP_RESOURCE_NSP) \<noteq> NFP_RESOURCE_TBL_NAME"
    by (simp add: c_str_def strscpy_name_def NFP_RESOURCE_NSP_def NFP_RESOURCE_TBL_NAME_def NFP_RESOURCE_ENTRY_NAME_SZ_def)
  obtain h s1 where s1: "run D (nfp_resource_acquire crc32_be env interface NFP_RESOURCE_NSP) s = Some (Inr h, s1)"
      "word s1 = ?held"
      "\<And>t. word t = word s1 \<Longrightarrow> \<exists>t'. run D (nfp_resource_release interface h) t = Some ((), t') \<and> word t' = ?free"
    using acquire_release_run [OF D(1,3) name res] by blast
  let ?st = "\<lparr> nsp_res = h, ver_major = 0, ver_minor = 0, nsp_modified = False, nsp_idx = 0, nsp_entries = None \<rparr>"
  obtain err st' s2 where c: "run D (nfp_nsp_check ?st) s1 = Some ((err, st'), s2)" "nsp_res st' = h" "word s2 = word s1"
    using check_run [OF D(2), of ?st s1] by auto
  obtain t1 where t1: "run D (nfp_resource_release interface h) s1 = Some ((), t1)" "word t1 = ?free" using s1(3) by blast
  obtain t2 where t2: "run D (nfp_resource_release interface h) s2 = Some ((), t2)" "word t2 = ?free" using s1(3) c(3) by blast
  show ?thesis
  proof (cases "alloc_ok \<and> err = 0")
    case True
    then have "run D (nfp_nsp_open crc32_be env alloc_ok interface) s = Some (Inr st', s2)"
      using c(1) by (simp add: nfp_nsp_open_def run_bind s1(1) Let_def)
    moreover have "\<exists>t'. run D (nfp_nsp_close interface st') t = Some ((), t') \<and> word t' = ?free" if "word t = word s2" for t
      unfolding nfp_nsp_close_def c(2) using that c(3) by (intro s1(3)) simp
    ultimately show ?thesis using c(3) s1(2) by auto
  next
    case False
    then have "\<exists>e t. run D (nfp_nsp_open crc32_be env alloc_ok interface) s = Some (Inl e, t) \<and> word t = ?free"
      using c(1,2) t1 t2 by (cases alloc_ok) (auto simp: nfp_nsp_open_def run_bind s1(1) Let_def nfp_nsp_close_def)
    then show ?thesis by auto
  qed
qed

section \<open>Results of single commands\<close>

lemma strnlen_le: "strnlen bs n \<le> n"
  unfolding strnlen_def c_str_def by (rule order_trans [OF length_takeWhile_le]) simp

text \<open>A successful lookup leaves a terminated string.\<close>

lemma hwinfo_lookup_terminated:
  assumes "trace (nfp_nsp_hwinfo_lookup clk env nsp buf n) es (0, nsp', out, calls)"
  shows "strnlen (the out) (unat (min n NFP_HWINFO_LOOKUP_SIZE)) < unat (min n NFP_HWINFO_LOOKUP_SIZE)"
proof -
  have "strnlen (the out) (unat (min n NFP_HWINFO_LOOKUP_SIZE)) \<noteq> unat (min n NFP_HWINFO_LOOKUP_SIZE)"
    using assms by (auto simp: nfp_nsp_hwinfo_lookup_def Let_def trace_bind split: if_splits)
  then show ?thesis using strnlen_le [of "the out" "unat (min n NFP_HWINFO_LOOKUP_SIZE)"] by simp
qed

text \<open>A version that is found is a terminated string within the size.\<close>

lemma versions_get_inside:
  assumes "nfp_nsp_versions_get vid flash buf n = Inr off"
  shows "off < unat n \<and> off + strnlen (drop off buf) (unat n - off) < unat n"
  using assms strnlen_le [of "drop off buf" "unat n - off"]
  by (auto simp: nfp_nsp_versions_get_def Let_def split: if_splits)

text \<open>A successful read of a module has delivered all bytes asked for.\<close>

lemma module_eeprom_complete:
  assumes "trace (nfp_nsp_read_module_eeprom alloc_ok clk env nsp eth_index offset data len) es (0, nsp', data', rl)"
  shows "rl = Some len"
  using assms by (auto simp: nfp_nsp_read_module_eeprom_def Let_def trace_bind min_def split: if_splits)

section \<open>Witnesses\<close>

text \<open>A processor of version 0.37 that is never busy and answers every command with the option 5.\<close>

definition sample_processor :: "unit device" where
  "sample_processor =
     \<lparr> dev_read = (\<lambda>cpp_id a n s. (Inr (put_unaligned_le64 (if a = 0x1000 then 0xab10002500000000 else 0x500000000)), s)),
       dev_write = (\<lambda>cpp_id a bs s. (Inr (length bs), s)) \<rparr>"

definition sample_nsp :: nfp_nsp where
  "sample_nsp =
     \<lparr> nsp_res = \<lparr> res_name = [], res_cpp_id = 0, res_addr = 0x1000, res_size = 0, res_mutex = None \<rparr>,
       ver_major = 0, ver_minor = 0x25, nsp_modified = False, nsp_idx = 0, nsp_entries = None \<rparr>"

definition sample_clock :: nsp_clock where
  "sample_clock = \<lparr> start_polls = (\<lambda>_. 0), busy_polls = (\<lambda>_. 0) \<rparr>"

lemma sample_status:
  "FIELD_GET NSP_STATUS_MAGIC 0xab10002500000000 = NSP_MAGIC" "FIELD_GET NSP_STATUS_MAJOR 0xab10002500000000 = 0"
  "FIELD_GET NSP_STATUS_MINOR 0xab10002500000000 = 0x25" "0xab10002500000000 AND NSP_STATUS_BUSY = 0"
  "0x500000000 AND NSP_COMMAND_START = 0" "nsp_command_result 0xab10002500000000 0x500000000 = 5"
  by code_simp+

lemma sample_command: "run sample_processor (raw_nfp_nsp_command sample_clock sample_nsp arg) s = Some ((5, sample_nsp), s)"
  by (simp add: raw_nfp_nsp_command_def nfp_nsp_check_def nfp_cpp_readq_def nfp_cpp_writeq_def run_bind sample_processor_def
      sample_nsp_def sample_clock_def sample_status NSP_STATUS_def NSP_COMMAND_def NSP_BUFFER_def NSP_MAJOR_def NSP_MINOR_def Let_def)

theorem nsp_command_protocol_witness:
  "\<exists>es status answer. trace (raw_nfp_nsp_command sample_clock sample_nsp (command_arg SPCODE_NOOP 0)) es (5, sample_nsp) \<and>
     handshake 0 0x1000 (command_arg SPCODE_NOOP 0) es status answer \<and> nsp_command_result status answer = 5"
proof -
  obtain es where es: "trace (raw_nfp_nsp_command sample_clock sample_nsp (command_arg SPCODE_NOOP 0)) es (5, sample_nsp)"
    using run_trace [OF sample_command] by blast
  have "5 \<noteq> - errno_val err" for err by (cases err) (simp_all add: errno_val.simps)
  with nsp_command_protocol [OF es] es show ?thesis by (fastforce simp: sample_nsp_def)
qed

text \<open>A processor that adds one to every byte it is given, with two chunks of two bytes.\<close>

definition sample_dma :: dma_env where
  "sample_dma =
     \<lparr> chunks_alloc_ok = True, chunk_alloc_ok = (\<lambda>_. True), map_chunk = (\<lambda>i. Some (of_nat i * 0x1000 + 8)),
       desc_alloc_ok = True, map_desc = Some 0x8000, dma_fill = (\<lambda>_. map (map (\<lambda>x. x + 1))) \<rparr>"

definition sample_arg :: nfp_nsp_command_buf_arg where
  "sample_arg =
     \<lparr> buf_cmd = command_arg SPCODE_HWINFO_LOOKUP 4, in_buf = Some [1, 2, 3], in_size = 3,
       out_buf = Some [0, 0, 0, 0], out_size = 4 \<rparr>"

theorem nsp_buf_balanced_witness:
  "\<exists>ret nsp' out calls s'.
     run sample_processor (nfp_nsp_command_buf sample_clock (sample_dma\<lparr> chunk_alloc_ok := (\<lambda>i. i < 1) \<rparr>) sample_nsp sample_arg) () =
       Some ((ret, nsp', out, calls), s') \<and> dma_balanced calls \<and> nsp_res nsp' = nsp_res sample_nsp"
  by (rule nsp_buf_balanced) (simp_all add: arg_ok_def sample_arg_def fills_chunks_def sample_dma_def)

lemma sample_dma_flat: "processor_flat sample_dma (map (\<lambda>x. x + 1))"
  by (simp add: processor_flat_def sample_dma_def dma_view_def map_concat zip_map2 split_def take_map comp_def)

lemma sample_dma_ready: "dma_ready sample_dma 2 2 12 0x8000"
proof -
  have l: "len = 0 \<or> len = 1 \<or> len = 2" if "len \<le> 2" for len :: nat using that by auto
  have "round_down (of_nat i * 0x1000 + 8) (BIT_ULL 12) = round_down (of_nat i * 0x1000 + 8 + of_nat len - 1) (BIT_ULL 12)"
    if "i < 2" "len \<le> 2" for i len :: nat
    using that(1) l [OF that(2)] by (auto simp: round_down_def BIT_ULL_def less_2_cases_iff)
  then show ?thesis by (simp add: dma_ready_def sample_dma_def)
qed

theorem dma_sg_flat_witness:
  "\<exists>calls. run sample_processor (nfp_nsp_command_buf_dma_sg sample_clock sample_dma sample_nsp sample_arg 4 1 12) () =
     Some ((5, sample_nsp, Some [2, 3, 4, 1], calls), ())"
proof -
  have a: "arg_ok sample_arg" "unat (in_size sample_arg) \<le> 4" "unat (out_size sample_arg) \<le> 4"
    by (simp_all add: arg_ok_def sample_arg_def)
  show ?thesis
    using dma_sg_flat [OF a(1) sample_dma_flat a(2,3), of 2 1 12 "0x8000" sample_clock sample_nsp] sample_dma_ready
    by (simp add: run_bind sample_command Let_def sample_arg_def flat_buf_def)
qed

abbreviation sample_nsp_table :: "u64 \<Rightarrow> u32" where
  "sample_nsp_table \<equiv> (\<lambda>_. 0)(0x8100000024 := 1830820650, 0x8100000034 := 0x07020100, 0x8100000038 := 0x10, 0x810000003c := 0x10)"

lemma sample_nsp_key: "resource_key sample_crc NFP_RESOURCE_NSP = 1830820650"
  by code_simp

theorem nsp_open_releases_witness:
  "\<exists>r s'. run word_memory (nfp_nsp_open sample_crc sample_env False 0x1000) sample_nsp_table = Some (r, s') \<and>
     s' 0x8100000020 = (case r of Inl _ \<Rightarrow> 0x10000000 | Inr _ \<Rightarrow> 0x1000000f)"
proof -
  have "[0..<NFP_RESOURCE_TBL_ENTRIES] = 0 # 1 # [2..<128]" by (simp add: upt_conv_Cons numeral_2_eq_2)
  then have f: "table_find sample_nsp_table (resource_key sample_crc NFP_RESOURCE_NSP) [0..<NFP_RESOURCE_TBL_ENTRIES] = Some 1"
    by (simp add: table_find_def sample_nsp_key sample_addr)
  have k: "resource_key sample_crc NFP_RESOURCE_NSP \<noteq> NFP_RESOURCE_TBL_KEY"
    by (simp add: sample_nsp_key NFP_RESOURCE_TBL_KEY_def)
  have t: "table_free sample_nsp_table" "nfp_mutex_is_unlocked (sample_nsp_table (entry_addr 1))" "env_ok sample_env"
    by (simp_all add: table_free_def sample_addr sample_lock NFP_RESOURCE_TBL_KEY_def env_ok_def)
  obtain r s' where "run word_memory (nfp_nsp_open sample_crc sample_env False 0x1000) sample_nsp_table = Some (r, s')"
      "s' = sample_nsp_table(entry_addr 1 := (case r of Inl _ \<Rightarrow> nfp_mutex_unlocked 0x1000 | Inr _ \<Rightarrow> nfp_mutex_locked 0x1000),
         NFP_RESOURCE_TBL_BASE := nfp_mutex_unlocked 0x1000)"
    using nsp_open_releases [where word = "\<lambda>s. s", OF word_memory_laws sample_interface k t(3,1) f t(2), of False] by blast
  moreover from this(2) have "s' 0x8100000020 = (case r of Inl _ \<Rightarrow> 0x10000000 | Inr _ \<Rightarrow> 0x1000000f)"
    by (cases r) (simp_all add: sample_addr sample_lock)
  ultimately show ?thesis by blast
qed

end
